(* ===== verification/Go_Prelude.thy ===== *)
theory Go_Prelude
  imports
    Main
    "HOL-Library.Char_ord"
    "HOL-Library.List_Lexorder"
    "HOL-Library.Finite_Map"
    "HOL-Library.Sublist"
begin

text \<open>
  What the components share: Go strings as byte lists and the functions of the package
  \<^verbatim>\<open>strings\<close> that the operator calls, Go maps as finite maps, and the record of
  helper functions that live outside the repository (order of a range loop over a map,
  \<^verbatim>\<open>sap/go-generics\<close>, \<^verbatim>\<open>controllerutil\<close>) with the locale that states their
  documented behaviour.

  A Go string is a sequence of bytes and an Isabelle \<^typ>\<open>char\<close> is a byte, so \<^typ>\<open>string\<close> is
  the Go type; the order on strings is the bytewise lexicographic one in both.
\<close>

named_theorems go_simps \<open>evaluation rules of the Go library functions\<close>
named_theorems lib_laws \<open>documented laws of the vendored helper functions\<close>

abbreviation newline :: char where
  "newline \<equiv> CHR 0x0A"

section \<open>The package strings\<close>

text \<open>\<^verbatim>\<open>strings.Split(s, sep)\<close> for a separator of one byte; the result is never empty.\<close>

fun split_on :: "char \<Rightarrow> string \<Rightarrow> string list" where
  "split_on sep [] = [[]]"
| "split_on sep (c # cs) =
     (if c = sep then [] # split_on sep cs
      else (c # hd (split_on sep cs)) # tl (split_on sep cs))"

text \<open>\<^verbatim>\<open>strings.Join(xs, sep)\<close> for a separator of one byte.\<close>

fun join_with :: "char \<Rightarrow> string list \<Rightarrow> string" where
  "join_with sep [] = []"
| "join_with sep [x] = x"
| "join_with sep (x # y # ys) = x @ sep # join_with sep (y # ys)"

text \<open>\<^verbatim>\<open>strings.HasSuffix(s, t)\<close>.\<close>

definition has_suffix :: "string \<Rightarrow> string \<Rightarrow> bool" where
  "has_suffix s t \<longleftrightarrow> length t \<le> length s \<and> drop (length s - length t) s = t"

text \<open>\<^verbatim>\<open>strings.ReplaceAll(s, old, new)\<close> for an \<^verbatim>\<open>old\<close> of one byte.\<close>

definition replace_all :: "string \<Rightarrow> char \<Rightarrow> string \<Rightarrow> string" where
  "replace_all s old new = concat (map (\<lambda>c. if c = old then new else [c]) s)"

text \<open>\<^verbatim>\<open>strings.TrimPrefix(s, p)\<close>.\<close>

definition trim_prefix :: "string \<Rightarrow> string \<Rightarrow> string" where
  "trim_prefix s p = (if prefix p s then drop (length p) s else s)"

lemma split_on_not_Nil [simp]: "split_on sep s \<noteq> []"
  by (cases s) auto

lemma split_on_free [simp]: "sep \<notin> set s \<Longrightarrow> split_on sep s = [s]"
  by (induction s) auto

lemma split_on_app:
  "sep \<notin> set x \<Longrightarrow> split_on sep (x @ sep # y) = x # split_on sep y"
  by (induction x) auto

lemma split_on_parts: "p \<in> set (split_on sep s) \<Longrightarrow> sep \<notin> set p"
proof (induction s arbitrary: p)
  case Nil
  then show ?case by simp
next
  case (Cons c cs)
  have "hd (split_on sep cs) \<in> set (split_on sep cs)"
    and "set (tl (split_on sep cs)) \<subseteq> set (split_on sep cs)"
    by (simp_all add: list.set_sel(2) subsetI)
  with Cons show ?case by (auto split: if_splits)
qed

lemma join_split [simp]: "join_with sep (split_on sep s) = s"
proof (induction s)
  case Nil
  then show ?case by simp
next
  case (Cons c cs)
  obtain p ps where "split_on sep cs = p # ps" by (cases "split_on sep cs") auto
  with Cons show ?case by (cases ps) auto
qed

lemma split_join [simp]:
  "xs \<noteq> [] \<Longrightarrow> \<forall>x \<in> set xs. sep \<notin> set x \<Longrightarrow> split_on sep (join_with sep xs) = xs"
  by (induction sep xs rule: join_with.induct) (auto simp: split_on_app)

lemma set_join_with: "x \<in> set xs \<Longrightarrow> set x \<subseteq> set (join_with sep xs)"
  by (induction sep xs rule: join_with.induct) auto

lemma set_split_on: "p \<in> set (split_on sep s) \<Longrightarrow> set p \<subseteq> set s"
  using set_join_with [of p "split_on sep s" sep] by simp

lemma join_with_eq_Nil:
  "join_with sep xs = [] \<longleftrightarrow> xs = [] \<or> xs = [[]]"
  by (induction sep xs rule: join_with.induct) auto

lemma has_suffix_suffix: "has_suffix s t \<longleftrightarrow> suffix t s"
proof
  assume "has_suffix s t"
  then have "s = take (length s - length t) s @ t"
    unfolding has_suffix_def by (metis append_take_drop_id)
  then show "suffix t s" unfolding suffix_def by blast
next
  assume "suffix t s"
  then show "has_suffix s t" by (auto simp: has_suffix_def suffix_def)
qed

lemma has_suffix_Nil [simp]: "has_suffix s []"
  by (simp add: has_suffix_def)

text \<open>\<^verbatim>\<open>%d\<close> of the package \<^verbatim>\<open>fmt\<close> for a number that is not negative.\<close>

fun itoa :: "nat \<Rightarrow> string" where
  "itoa n = (if n < 10 then [char_of (48 + n)] else itoa (n div 10) @ [char_of (48 + n mod 10)])"

declare itoa.simps [simp del]

text \<open>
  A call that may panic: the run of the program ends, or the call returns.
\<close>

datatype 'a outcome = Panics | Returns 'a

section \<open>Results of fallible calls\<close>

text \<open>
  A Go pair \<^verbatim>\<open>(value, error)\<close> is a sum: \<^term>\<open>Inl e\<close> is a non-nil error, \<^term>\<open>Inr v\<close> a value
  with a nil error. Where the code goes on with both components, the model keeps the pair.
\<close>

definition is_ok :: "'e + 'a \<Rightarrow> bool" where
  "is_ok r = (case r of Inl _ \<Rightarrow> False | Inr _ \<Rightarrow> True)"

lemma is_ok_simps [simp]: "is_ok (Inr v)" "\<not> is_ok (Inl e)"
  by (simp_all add: is_ok_def)

lemma is_ok_iff: "is_ok r \<longleftrightarrow> (\<exists>v. r = Inr v)"
  by (cases r) auto

section \<open>Go maps\<close>

text \<open>
  A Go map from strings is a finite map. The order in which a range loop visits its keys
  is not specified by the language and may differ between two loops; a model of such a
  loop takes the order as an argument.
\<close>

definition map_index :: "(string, string) fmap \<Rightarrow> string \<Rightarrow> string" where
  \<comment> \<open>\<open>m[k]\<close> read as one value: the zero value where the key is missing\<close>
  "map_index m k = (case fmlookup m k of None \<Rightarrow> [] | Some v \<Rightarrow> v)"

lemma map_index_upd [simp]:
  "map_index (fmupd k v m) k' = (if k' = k then v else map_index m k')"
  by (simp add: map_index_def)

lemma map_index_empty [simp]: "map_index fmempty k = []"
  by (simp add: map_index_def)

section \<open>Functions from outside the repository\<close>

text \<open>
  \<^item> \<open>range_order\<close>: the order in which a \<^verbatim>\<open>for range\<close> loop visits a key set;
  \<^item> \<open>lib_keys\<close>, \<open>lib_sort\<close>, \<open>lib_contains\<close>, \<open>lib_remove\<close>, \<open>lib_equal\<close>: \<^verbatim>\<open>maps.Keys\<close>,
    \<^verbatim>\<open>slices.Sort\<close>, \<^verbatim>\<open>slices.Contains\<close>, \<^verbatim>\<open>slices.Remove\<close> and \<^verbatim>\<open>slices.Equal\<close> of
    \<^verbatim>\<open>sap/go-generics\<close>;
  \<^item> \<open>lib_add_finalizer\<close>, \<open>lib_remove_finalizer\<close>: \<^verbatim>\<open>controllerutil.AddFinalizer\<close> and
    \<^verbatim>\<open>RemoveFinalizer\<close> on the finalizer list, with their indication of a change.
\<close>

record lib =
  range_order :: "string fset \<Rightarrow> string list"
  lib_keys :: "string fset \<Rightarrow> string list"
  lib_sort :: "string list \<Rightarrow> string list"
  lib_contains :: "string list \<Rightarrow> string \<Rightarrow> bool"
  lib_remove :: "string list \<Rightarrow> string \<Rightarrow> string list"
  lib_equal :: "string list \<Rightarrow> string list \<Rightarrow> bool"
  lib_add_finalizer :: "string list \<Rightarrow> string \<Rightarrow> string list \<times> bool"
  lib_remove_finalizer :: "string list \<Rightarrow> string \<Rightarrow> string list \<times> bool"

locale go_lib =
  fixes L :: lib
  assumes range_distinct: "distinct (range_order L A)"
    and range_set: "set (range_order L A) = fset A"
    and keys_distinct: "distinct (lib_keys L A)"
    and keys_set: "set (lib_keys L A) = fset A"
    and sort_eq: "lib_sort L xs = sort xs"
    and contains_iff: "lib_contains L xs x \<longleftrightarrow> x \<in> set xs"
    and remove_eq: "lib_remove L xs x = filter (\<lambda>y. y \<noteq> x) xs"
    and equal_iff: "lib_equal L xs ys \<longleftrightarrow> xs = ys"
    and add_finalizer_eq:
      "lib_add_finalizer L fs f = (if f \<in> set fs then (fs, False) else (fs @ [f], True))"
    and remove_finalizer_eq:
      "lib_remove_finalizer L fs f = (filter (\<lambda>y. y \<noteq> f) fs, f \<in> set fs)"
begin

text \<open>The composition the serializer uses: sorted keys do not depend on the key order.\<close>

lemma sort_keys: "lib_sort L (lib_keys L A) = sorted_list_of_fset A"
proof -
  have "sort (lib_keys L A) = sorted_list_of_set (fset A)"
    by (metis keys_distinct keys_set sorted_list_of_set_sort_remdups distinct_remdups_id)
  then show ?thesis by (simp add: sort_eq sorted_list_of_fset.rep_eq)
qed

end

lemma distinct_map_ex1:
  assumes "distinct (map f xs)" and "k \<in> set (map f xs)"
  shows "\<exists>!x. x \<in> set xs \<and> f x = k"
proof -
  from assms(2) obtain x where "x \<in> set xs" "f x = k" by auto
  moreover from assms(1) have "inj_on f (set xs)" by (simp add: distinct_map)
  ultimately show ?thesis by (intro ex1I [of _ x]) (auto dest: inj_onD)
qed

text \<open>Where an element of an appended list can be.\<close>

lemma prefix_of_split: "A @ B = pre @ w # post \<Longrightarrow> w \<notin> set A \<Longrightarrow> \<exists>B'. pre = A @ B'"
proof (induction A arbitrary: pre)
  case (Cons a A)
  then show ?case by (cases pre) auto
qed simp

lemma split_before: "A @ B = pre @ w # post \<Longrightarrow> w \<notin> set B \<Longrightarrow> \<exists>post'. A = pre @ w # post'"
proof (induction A arbitrary: pre)
  case (Cons a A)
  then show ?case by (cases pre) auto
qed (auto simp: in_set_conv_decomp)

text \<open>A concrete instance: every order is the sorted one.\<close>

definition std_lib :: lib where
  "std_lib = \<lparr>range_order = sorted_list_of_fset, lib_keys = sorted_list_of_fset,
     lib_sort = sort, lib_contains = (\<lambda>xs x. x \<in> set xs),
     lib_remove = (\<lambda>xs x. filter (\<lambda>y. y \<noteq> x) xs), lib_equal = (=),
     lib_add_finalizer = (\<lambda>fs f. if f \<in> set fs then (fs, False) else (fs @ [f], True)),
     lib_remove_finalizer = (\<lambda>fs f. (filter (\<lambda>y. y \<noteq> f) fs, f \<in> set fs))\<rparr>"

interpretation std: go_lib std_lib
  by unfold_locales (simp_all add: std_lib_def sorted_list_of_fset.rep_eq)

lemma std_lib_simps [simp]:
  "range_order std_lib = sorted_list_of_fset" "lib_keys std_lib = sorted_list_of_fset"
  "lib_sort std_lib = sort" "lib_contains std_lib xs x = (x \<in> set xs)"
  "lib_remove std_lib xs x = filter (\<lambda>y. y \<noteq> x) xs" "lib_equal std_lib xs ys = (xs = ys)"
  "lib_add_finalizer std_lib fs f = (if f \<in> set fs then (fs, False) else (fs @ [f], True))"
  "lib_remove_finalizer std_lib fs f = (filter (\<lambda>y. y \<noteq> f) fs, f \<in> set fs)"
  by (simp_all add: std_lib_def)

end
