(* ===== verification/Go_Regexp.thy ===== *)
theory Go_Regexp
  imports Go_Prelude
begin

text \<open>
  The regular expressions of the repository as syntax trees, and the matcher of the package
  \<^verbatim>\<open>regexp\<close> for patterns anchored at both ends (\<^verbatim>\<open>^...$\<close>, as all of them are): a string
  matches when it is in the language of the expression. Matching is by derivatives and is
  proved equal to the language, so that a pattern is reasoned about through \<open>lang\<close> and
  evaluated through \<open>matches\<close>.

  Go matches runes, the model bytes. The patterns use only ASCII classes, their complements
  and \<^verbatim>\<open>.\<close>; a rune above ASCII is a run of bytes of which each is outside every ASCII
  class, so the two readings accept the same strings.
\<close>

section \<open>Syntax and language\<close>

datatype char_class = In "(char \<times> char) list" | NotIn "(char \<times> char) list"

fun in_ranges :: "(char \<times> char) list \<Rightarrow> char \<Rightarrow> bool" where
  "in_ranges [] c = False"
| "in_ranges ((lo, hi) # rs) c = (lo \<le> c \<and> c \<le> hi \<or> in_ranges rs c)"

fun in_class :: "char_class \<Rightarrow> char \<Rightarrow> bool" where
  "in_class (In rs) c = in_ranges rs c"
| "in_class (NotIn rs) c = (\<not> in_ranges rs c)"

text \<open>\<open>UpTo r n\<close> is the counted repetition \<^verbatim>\<open>r{0,n}\<close>.\<close>

datatype regexp =
    Void
  | Eps
  | Cls char_class
  | Seq regexp regexp
  | Alt regexp regexp
  | Star regexp
  | UpTo regexp nat

definition chr :: "char \<Rightarrow> regexp" where
  "chr c = Cls (In [(c, c)])"

primrec lit :: "string \<Rightarrow> regexp" where
  "lit [] = Eps"
| "lit (c # cs) = Seq (chr c) (lit cs)"

definition plus1 :: "regexp \<Rightarrow> regexp" where
  "plus1 r = Seq r (Star r)"

definition space_ranges :: "(char \<times> char) list" where
  \<comment> \<open>\<^verbatim>\<open>\s\<close> is \<^verbatim>\<open>[\t\n\f\r ]\<close>\<close>
  "space_ranges = [(CHR 0x09, CHR 0x0A), (CHR 0x0C, CHR 0x0D), (CHR 0x20, CHR 0x20)]"

definition re_space :: regexp where "re_space = Cls (In space_ranges)"
definition re_nonspace :: regexp where "re_nonspace = Cls (NotIn space_ranges)"
definition re_dot :: regexp where "re_dot = Cls (NotIn [(newline, newline)])"

definition is_space :: "char \<Rightarrow> bool" where "is_space c = in_ranges space_ranges c"

definition conc :: "string set \<Rightarrow> string set \<Rightarrow> string set" where
  "conc A B = {u @ v | u v. u \<in> A \<and> v \<in> B}"

inductive_set kstar :: "string set \<Rightarrow> string set" for A where
  kstar_Nil: "[] \<in> kstar A"
| kstar_step: "u \<in> A \<Longrightarrow> v \<in> kstar A \<Longrightarrow> u @ v \<in> kstar A"

primrec upto_lang :: "string set \<Rightarrow> nat \<Rightarrow> string set" where
  "upto_lang A 0 = {[]}"
| "upto_lang A (Suc n) = {[]} \<union> conc A (upto_lang A n)"

primrec lang :: "regexp \<Rightarrow> string set" where
  "lang Void = {}"
| "lang Eps = {[]}"
| "lang (Cls k) = {[c] | c. in_class k c}"
| "lang (Seq r s) = conc (lang r) (lang s)"
| "lang (Alt r s) = lang r \<union> lang s"
| "lang (Star r) = kstar (lang r)"
| "lang (UpTo r n) = upto_lang (lang r) n"

section \<open>The matcher\<close>

primrec nullable :: "regexp \<Rightarrow> bool" where
  "nullable Void = False"
| "nullable Eps = True"
| "nullable (Cls k) = False"
| "nullable (Seq r s) = (nullable r \<and> nullable s)"
| "nullable (Alt r s) = (nullable r \<or> nullable s)"
| "nullable (Star r) = True"
| "nullable (UpTo r n) = True"

fun mk_seq :: "regexp \<Rightarrow> regexp \<Rightarrow> regexp" where
  "mk_seq Void s = Void"
| "mk_seq Eps s = s"
| "mk_seq r s = Seq r s"

fun mk_alt :: "regexp \<Rightarrow> regexp \<Rightarrow> regexp" where
  "mk_alt Void s = s"
| "mk_alt r Void = r"
| "mk_alt r s = Alt r s"

fun deriv :: "char \<Rightarrow> regexp \<Rightarrow> regexp" where
  "deriv c Void = Void"
| "deriv c Eps = Void"
| "deriv c (Cls k) = (if in_class k c then Eps else Void)"
| "deriv c (Seq r s) =
     (if nullable r then mk_alt (mk_seq (deriv c r) s) (deriv c s) else mk_seq (deriv c r) s)"
| "deriv c (Alt r s) = mk_alt (deriv c r) (deriv c s)"
| "deriv c (Star r) = mk_seq (deriv c r) (Star r)"
| "deriv c (UpTo r 0) = Void"
| "deriv c (UpTo r (Suc n)) = mk_seq (deriv c r) (UpTo r n)"

primrec matches :: "regexp \<Rightarrow> string \<Rightarrow> bool" where
  "matches r [] = nullable r"
| "matches r (c # cs) = matches (deriv c r) cs"

text \<open>
  \<^verbatim>\<open>FindStringSubmatch\<close> for a pattern \<^verbatim>\<open>^pre(grp)$\<close> with a greedy \<open>pre\<close>: the group of the
  match whose \<open>pre\<close> is longest; \<^const>\<open>None\<close> is the nil result.
\<close>

definition submatch :: "regexp \<Rightarrow> regexp \<Rightarrow> string \<Rightarrow> string option" where
  "submatch pre grp s =
     map_option (\<lambda>i. drop i s)
       (find (\<lambda>i. matches pre (take i s) \<and> matches grp (drop i s)) (rev [0..<Suc (length s)]))"

section \<open>The matcher decides the language\<close>

lemma conc_iff: "w \<in> conc A B \<longleftrightarrow> (\<exists>u v. w = u @ v \<and> u \<in> A \<and> v \<in> B)"
  by (auto simp: conc_def)

lemma concI: "u \<in> A \<Longrightarrow> v \<in> B \<Longrightarrow> w = u @ v \<Longrightarrow> w \<in> conc A B"
  by (auto simp: conc_iff)

lemma conc_empty [simp]: "conc {} B = {}" "conc {[]} B = B"
  by (auto simp: conc_def)

lemma Nil_in_conc [simp]: "[] \<in> conc A B \<longleftrightarrow> [] \<in> A \<and> [] \<in> B"
  by (simp add: conc_iff)

lemma Cons_in_conc:
  "c # w \<in> conc A B \<longleftrightarrow> ([] \<in> A \<and> c # w \<in> B) \<or> (\<exists>u v. w = u @ v \<and> c # u \<in> A \<and> v \<in> B)"
  by (auto simp: conc_iff Cons_eq_append_conv)

lemma Cons_in_kstar:
  "c # w \<in> kstar A \<longleftrightarrow> (\<exists>u v. w = u @ v \<and> c # u \<in> A \<and> v \<in> kstar A)"
proof
  assume "c # w \<in> kstar A"
  then show "\<exists>u v. w = u @ v \<and> c # u \<in> A \<and> v \<in> kstar A"
    by (induction "c # w" arbitrary: w rule: kstar.induct) (fastforce simp: append_eq_Cons_conv)
next
  assume "\<exists>u v. w = u @ v \<and> c # u \<in> A \<and> v \<in> kstar A"
  then show "c # w \<in> kstar A" by (metis append_Cons kstar_step)
qed

lemma Nil_in_upto [simp]: "[] \<in> upto_lang A n"
  by (cases n) auto

lemma in_upto_Suc:
  "w \<in> upto_lang A (Suc n) \<longleftrightarrow> w = [] \<or> (\<exists>u v. w = u @ v \<and> u \<in> A \<and> v \<in> upto_lang A n)"
  by (auto simp: conc_iff)

lemma upto_lang_mono: "w \<in> upto_lang A n \<Longrightarrow> w \<in> upto_lang A (Suc n)"
proof (induction n arbitrary: w)
  case 0
  then show ?case by simp
next
  case (Suc n)
  then show ?case unfolding in_upto_Suc [of w] by blast
qed

lemma Cons_in_upto:
  "c # w \<in> upto_lang A (Suc n) \<longleftrightarrow> (\<exists>u v. w = u @ v \<and> c # u \<in> A \<and> v \<in> upto_lang A n)"
proof (induction n)
  case 0
  then show ?case by (auto simp: conc_iff Cons_eq_append_conv)
next
  case (Suc n)
  have "c # w \<in> upto_lang A (Suc (Suc n)) \<longleftrightarrow>
      ([] \<in> A \<and> c # w \<in> upto_lang A (Suc n)) \<or>
      (\<exists>u v. w = u @ v \<and> c # u \<in> A \<and> v \<in> upto_lang A (Suc n))"
    by (subst upto_lang.simps(2)) (simp add: Cons_in_conc del: upto_lang.simps)
  also have "\<dots> \<longleftrightarrow> (\<exists>u v. w = u @ v \<and> c # u \<in> A \<and> v \<in> upto_lang A (Suc n))"
    using Suc.IH upto_lang_mono by blast
  finally show ?case .
qed

lemma nullable_iff: "nullable r \<longleftrightarrow> [] \<in> lang r"
  by (induction r) (auto intro: kstar_Nil)

lemma lang_mk_seq [simp]: "lang (mk_seq r s) = conc (lang r) (lang s)"
  by (cases r) auto

lemma lang_mk_alt [simp]: "lang (mk_alt r s) = lang r \<union> lang s"
  by (cases "(r, s)" rule: mk_alt.cases) auto

lemma in_conc_deriv:
  "(\<And>u. u \<in> A \<longleftrightarrow> c # u \<in> B) \<Longrightarrow>
    w \<in> conc A C \<longleftrightarrow> (\<exists>u v. w = u @ v \<and> c # u \<in> B \<and> v \<in> C)"
  by (simp add: conc_iff)

lemma lang_deriv: "w \<in> lang (deriv c r) \<longleftrightarrow> c # w \<in> lang r"
proof (induction r arbitrary: w)
  case (Seq r s)
  show ?case using in_conc_deriv [of "lang (deriv c r)" c "lang r", OF Seq(1)] Seq(2)
    by (auto simp: Cons_in_conc nullable_iff)
next
  case (Star r)
  show ?case using in_conc_deriv [of "lang (deriv c r)" c "lang r", OF Star]
    by (simp add: Cons_in_kstar)
next
  case (UpTo r n)
  show ?case using in_conc_deriv [of "lang (deriv c r)" c "lang r", OF UpTo]
    by (cases n) (simp_all add: Cons_in_upto del: upto_lang.simps(2))
qed auto

theorem matches_lang: "matches r w \<longleftrightarrow> w \<in> lang r"
  by (induction w arbitrary: r) (simp_all add: nullable_iff lang_deriv)

section \<open>Languages of the building blocks\<close>

lemma lang_chr [simp]: "lang (chr c) = {[c]}"
  by (auto simp: chr_def)

lemma lang_lit [simp]: "lang (lit s) = {s}"
  by (induction s) (auto simp: conc_def)

lemma kstar_class: "w \<in> kstar {[c] | c. P c} \<longleftrightarrow> (\<forall>c \<in> set w. P c)"
proof (induction w)
  case Nil
  then show ?case by (simp add: kstar_Nil)
next
  case (Cons c w)
  then show ?case by (simp add: Cons_in_kstar)
qed

lemma lang_plus_class:
  "w \<in> lang (plus1 (Cls k)) \<longleftrightarrow> w \<noteq> [] \<and> (\<forall>c \<in> set w. in_class k c)"
  by (cases w) (auto simp: plus1_def kstar_class Cons_in_conc)

lemma lang_star_class: "w \<in> lang (Star (Cls k)) \<longleftrightarrow> (\<forall>c \<in> set w. in_class k c)"
  by (simp add: kstar_class)

lemma upto_class:
  "w \<in> upto_lang {[c] | c. P c} n \<longleftrightarrow> length w \<le> n \<and> (\<forall>c \<in> set w. P c)"
proof (induction w arbitrary: n)
  case Nil
  then show ?case by simp
next
  case (Cons c w)
  then show ?case by (cases n) (auto simp: Cons_in_upto simp del: upto_lang.simps(2))
qed

lemma is_space_class: "in_class (In space_ranges) c \<longleftrightarrow> is_space c"
  "in_class (NotIn space_ranges) c \<longleftrightarrow> \<not> is_space c"
  by (simp_all add: is_space_def)

lemma in_class_not_newline: "in_class (NotIn [(newline, newline)]) c \<longleftrightarrow> c \<noteq> newline"
  by auto

lemma newline_is_space [simp]: "is_space newline"
  by (simp add: is_space_def space_ranges_def)

lemma blank_is_space [simp]: "is_space CHR '' ''"
  by (simp add: is_space_def space_ranges_def)

text \<open>
  A list of words of \<open>r\<close> with a separator that occurs in none of them is what splitting at
  the separator shows.
\<close>

lemma lang_sep_list:
  assumes free: "\<And>u. u \<in> lang r \<Longrightarrow> sep \<notin> set u"
  shows "w \<in> lang (Seq r (Star (Seq (chr sep) r))) \<longleftrightarrow>
    (\<forall>p \<in> set (split_on sep w). p \<in> lang r)"
proof
  assume "w \<in> lang (Seq r (Star (Seq (chr sep) r)))"
  then obtain u v where w: "w = u @ v" and u: "u \<in> lang r"
    and v: "v \<in> kstar (conc {[sep]} (lang r))"
    by (auto simp: conc_iff)
  from v u have "\<forall>p \<in> set (split_on sep (u @ v)). p \<in> lang r"
  proof (induction v arbitrary: u rule: kstar.induct)
    case kstar_Nil
    then show ?case using free by simp
  next
    case (kstar_step x v)
    then obtain y where x: "x = sep # y" and y: "y \<in> lang r" by (auto simp: conc_iff)
    from y kstar_step.IH have "\<forall>p \<in> set (split_on sep (y @ v)). p \<in> lang r" by blast
    moreover have "split_on sep (u @ x @ v) = u # split_on sep (y @ v)"
      using split_on_app [OF free [OF kstar_step.prems], of "y @ v"] by (simp add: x)
    ultimately show ?case using kstar_step.prems by simp
  qed
  then show "\<forall>p \<in> set (split_on sep w). p \<in> lang r" by (simp add: w)
next
  have "ps \<noteq> [] \<Longrightarrow> \<forall>p \<in> set ps. p \<in> lang r \<Longrightarrow>
      join_with sep ps \<in> lang (Seq r (Star (Seq (chr sep) r)))" for ps
  proof (induction sep ps rule: join_with.induct)
    case (2 sep x)
    have "[] \<in> lang (Star (Seq (chr sep) r))" by (simp add: kstar_Nil)
    moreover have "x \<in> lang r" using 2 by simp
    ultimately show ?case unfolding lang.simps(4) [of r "Star (Seq (chr sep) r)"]
      by (intro concI) (assumption | simp)+
  next
    case (3 sep x y ys)
    then obtain u v where j: "join_with sep (y # ys) = u @ v" and u: "u \<in> lang r"
      and v: "v \<in> kstar (conc {[sep]} (lang r))"
      by (auto simp: conc_iff)
    from u have "sep # u \<in> conc {[sep]} (lang r)" by (simp add: conc_iff)
    from kstar_step [OF this v] have "sep # u @ v \<in> kstar (conc {[sep]} (lang r))" by simp
    then have k: "sep # u @ v \<in> lang (Star (Seq (chr sep) r))" by simp
    have "x \<in> lang r" using 3 by simp
    then show ?case unfolding lang.simps(4) [of r "Star (Seq (chr sep) r)"]
      by (rule concI [OF _ k]) (simp only: join_with.simps j)
  qed simp
  from this [of "split_on sep w"] show
    "\<forall>p \<in> set (split_on sep w). p \<in> lang r \<Longrightarrow> w \<in> lang (Seq r (Star (Seq (chr sep) r)))"
    by simp
qed

section \<open>Submatches\<close>

lemma find_Some_iff2: "find P xs = Some x \<Longrightarrow> P x \<and> x \<in> set xs"
  by (induction xs) (auto split: if_splits)

lemma submatch_Some:
  assumes "submatch pre grp s = Some g"
  shows "\<exists>p. s = p @ g \<and> p \<in> lang pre \<and> g \<in> lang grp"
proof -
  from assms obtain i where "find (\<lambda>i. matches pre (take i s) \<and> matches grp (drop i s))
      (rev [0..<Suc (length s)]) = Some i" and g: "g = drop i s"
    unfolding submatch_def by blast
  from find_Some_iff2 [OF this(1)] show ?thesis
    by (intro exI [of _ "take i s"]) (simp add: g matches_lang)
qed

lemma submatch_None:
  assumes "submatch pre grp s = None" and p: "p \<in> lang pre" and g: "g \<in> lang grp"
  shows "s \<noteq> p @ g"
proof
  assume s: "s = p @ g"
  have "\<forall>i \<in> set (rev [0..<Suc (length s)]).
      \<not> (matches pre (take i s) \<and> matches grp (drop i s))"
    using assms(1) unfolding submatch_def map_option_is_None find_None_iff by blast
  moreover have "length p \<in> set (rev [0..<Suc (length s)])" by (simp add: s)
  ultimately show False using p g by (fastforce simp: s matches_lang)
qed

text \<open>Where the split is unique, the submatch is the split.\<close>

lemma submatch_eqI:
  assumes "p \<in> lang pre" and "g \<in> lang grp"
    and uniq: "\<And>p' g'. p' @ g' = p @ g \<Longrightarrow> p' \<in> lang pre \<Longrightarrow> g' \<in> lang grp \<Longrightarrow> g' = g"
  shows "submatch pre grp (p @ g) = Some g"
proof (cases "submatch pre grp (p @ g)")
  case None
  from submatch_None [OF this assms(1,2)] show ?thesis by simp
next
  case (Some g')
  from submatch_Some [OF this] uniq show ?thesis using Some by (metis)
qed

end
