(* ===== verification/Net_IP.thy ===== *)
theory Net_IP
  imports Go_Prelude
begin

text \<open>
  \<^verbatim>\<open>net.ParseIP\<close> of the Go standard library, as \<^verbatim>\<open>net/netip\<close> implements it: dotted IPv4
  without leading zeros, IPv6 with at most one ellipsis and an optional embedded IPv4 tail,
  and no zone. The result is the 16 byte form, or \<^const>\<open>None\<close> for the nil IP. The operator
  only asks whether the result is nil; the lemmas say which characters a parsable string can
  have, which is what the configuration file format relies on.
\<close>

definition is_digit :: "char \<Rightarrow> bool" where
  "is_digit c \<longleftrightarrow> CHR ''0'' \<le> c \<and> c \<le> CHR ''9''"

definition hex_digit :: "char \<Rightarrow> nat option" where
  "hex_digit c =
     (if is_digit c then Some (of_char c - of_char CHR ''0'')
      else if CHR ''a'' \<le> c \<and> c \<le> CHR ''f'' then Some (of_char c - of_char CHR ''a'' + 10)
      else if CHR ''A'' \<le> c \<and> c \<le> CHR ''F'' then Some (of_char c - of_char CHR ''A'' + 10)
      else None)"

text \<open>
  \<^verbatim>\<open>parseIPv4Fields\<close>: \<open>val\<close> and \<open>dig\<close> are the value and the digit count of the current octet,
  \<open>bound\<close> says that the previous character was a dot or that there was none, \<open>fs\<close> are the
  octets read so far.
\<close>

fun ipv4_fields :: "string \<Rightarrow> nat \<Rightarrow> nat \<Rightarrow> bool \<Rightarrow> nat list \<Rightarrow> nat list option" where
  "ipv4_fields [] val dig bound fs = (if length fs < 3 then None else Some (fs @ [val]))"
| "ipv4_fields (c # cs) val dig bound fs =
     (if is_digit c then
        if dig = 1 \<and> val = 0 then None
        else let val' = val * 10 + (of_char c - of_char CHR ''0'') in
          if val' > 255 then None else ipv4_fields cs val' (Suc dig) False fs
      else if c = CHR ''.'' then
        if bound \<or> cs = [] then None
        else if length fs = 3 then None
        else ipv4_fields cs 0 0 True (fs @ [val])
      else None)"

definition parse_ipv4 :: "string \<Rightarrow> nat list option" where
  "parse_ipv4 s = ipv4_fields s 0 0 True []"

text \<open>The inner loop of \<^verbatim>\<open>parseIPv6\<close>: digits read, their value, and the rest.\<close>

fun hex_group :: "string \<Rightarrow> nat \<Rightarrow> nat \<Rightarrow> (nat \<times> nat \<times> string) option" where
  "hex_group [] off acc = Some (off, acc, [])"
| "hex_group (c # cs) off acc =
     (case hex_digit c of
        None \<Rightarrow> Some (off, acc, c # cs)
      | Some d \<Rightarrow>
          let acc' = acc * 16 + d in
          if off > 3 then None
          else if acc' > 65535 then None
          else hex_group cs (Suc off) acc')"

text \<open>
  The outer loop: the first argument counts the groups that still fit (\<^verbatim>\<open>i < 16\<close> is a nonzero
  count), \<open>ip\<close> are the bytes read, \<open>ell\<close> is the position of the ellipsis.
\<close>

fun ipv6_loop ::
  "nat \<Rightarrow> string \<Rightarrow> nat list \<Rightarrow> nat option \<Rightarrow> (string \<times> nat list \<times> nat option) option"
where
  "ipv6_loop 0 s ip ell = Some (s, ip, ell)"
| "ipv6_loop (Suc n) s ip ell =
     (case hex_group s 0 0 of
        None \<Rightarrow> None
      | Some (off, acc, rest) \<Rightarrow>
          if off = 0 then None
          else if rest \<noteq> [] \<and> hd rest = CHR ''.'' then
            (if ell = None \<and> length ip \<noteq> 12 then None
             else if length ip + 4 > 16 then None
             else case ipv4_fields s 0 0 True [] of
                 None \<Rightarrow> None
               | Some fs \<Rightarrow> Some ([], ip @ fs, ell))
          else
            let ip' = ip @ [acc div 256, acc mod 256] in
            (case rest of
               [] \<Rightarrow> Some ([], ip', ell)
             | c # s1 \<Rightarrow>
                 if c \<noteq> CHR '':'' then None
                 else if s1 = [] then None
                 else if hd s1 = CHR '':'' then
                   (if ell \<noteq> None then None
                    else if tl s1 = [] then Some ([], ip', Some (length ip'))
                    else ipv6_loop n (tl s1) ip' (Some (length ip')))
                 else ipv6_loop n s1 ip' ell))"

definition ipv6_finish :: "string \<times> nat list \<times> nat option \<Rightarrow> nat list option" where
  "ipv6_finish r = (case r of (s, ip, ell) \<Rightarrow>
     if s \<noteq> [] then None
     else if length ip < 16 then
       (case ell of None \<Rightarrow> None
        | Some e \<Rightarrow> Some (take e ip @ replicate (16 - length ip) 0 @ drop e ip))
     else if ell \<noteq> None then None
     else Some ip)"

text \<open>
  A zone makes \<^verbatim>\<open>net.ParseIP\<close> return nil whether it is empty (a parse error) or not (an address
  with a zone), so every string with a \<^verbatim>\<open>%\<close> is refused.
\<close>

definition parse_ipv6 :: "string \<Rightarrow> nat list option" where
  "parse_ipv6 s =
     (if CHR ''%'' \<in> set s then None
      else if take 2 s = ''::'' then
        (if drop 2 s = [] then Some (replicate 16 0)
         else Option.bind (ipv6_loop 8 (drop 2 s) [] (Some 0)) ipv6_finish)
      else Option.bind (ipv6_loop 8 s [] None) ipv6_finish)"

text \<open>The dispatch of \<^verbatim>\<open>netip.ParseAddr\<close> on the first dot, colon or percent sign.\<close>

fun addr_kind :: "string \<Rightarrow> char option" where
  "addr_kind [] = None"
| "addr_kind (c # cs) =
     (if c \<in> {CHR ''.'', CHR '':'', CHR ''%''} then Some c else addr_kind cs)"

definition parse_ip :: "string \<Rightarrow> nat list option" where
  "parse_ip s =
     (case addr_kind s of
        None \<Rightarrow> None
      | Some c \<Rightarrow>
          if c = CHR ''.'' then map_option (\<lambda>fs. replicate 10 0 @ [255, 255] @ fs) (parse_ipv4 s)
          else if c = CHR '':'' then parse_ipv6 s
          else None)"

section \<open>The characters of an address\<close>

definition ip_char :: "char \<Rightarrow> bool" where
  "ip_char c \<longleftrightarrow> hex_digit c \<noteq> None \<or> c = CHR ''.'' \<or> c = CHR '':''"

lemma is_digit_ip_char: "is_digit c \<Longrightarrow> ip_char c"
  by (simp add: ip_char_def hex_digit_def)

lemma ipv4_fields_chars:
  "ipv4_fields s val dig bound fs = Some r \<Longrightarrow> c \<in> set s \<Longrightarrow> is_digit c \<or> c = CHR ''.''"
  by (induction s val dig bound fs rule: ipv4_fields.induct) (auto simp: Let_def split: if_splits)

lemma hex_group_rest:
  "hex_group s off acc = Some (off', acc', rest) \<Longrightarrow>
    \<exists>ds. s = ds @ rest \<and> (\<forall>c \<in> set ds. hex_digit c \<noteq> None)"
proof (induction s off acc rule: hex_group.induct)
  case (2 c cs off acc)
  show ?case
  proof (cases "hex_digit c")
    case None
    with 2 show ?thesis by auto
  next
    case (Some d)
    with 2(2) have "\<not> off > 3" "\<not> acc * 16 + d > 65535"
      "hex_group cs (Suc off) (acc * 16 + d) = Some (off', acc', rest)"
      by (auto simp: Let_def split: if_splits)
    from 2(1) [OF Some refl this] obtain ds where
      "cs = ds @ rest" "\<forall>c \<in> set ds. hex_digit c \<noteq> None" by blast
    with Some show ?thesis by (intro exI [of _ "c # ds"]) simp
  qed
qed simp

lemma ipv6_loop_chars:
  "ipv6_loop n s ip ell = Some (s', ip', ell') \<Longrightarrow> c \<in> set s \<Longrightarrow> ip_char c \<or> c \<in> set s'"
proof (induction n s ip ell rule: ipv6_loop.induct)
  case (2 n s ip ell)
  obtain off acc rest where g: "hex_group s 0 0 = Some (off, acc, rest)"
    using 2 by (auto split: option.splits)
  from hex_group_rest [OF this] obtain ds where s: "s = ds @ rest"
    and ds: "\<forall>c \<in> set ds. ip_char c" by (auto simp: ip_char_def)
  show ?case
  proof (cases "rest \<noteq> [] \<and> hd rest = CHR ''.''")
    case True
    then obtain fs where "ipv4_fields s 0 0 True [] = Some fs"
      using 2 g by (auto split: option.splits if_splits)
    with 2(4) show ?thesis using ipv4_fields_chars is_digit_ip_char by (fastforce simp: ip_char_def)
  next
    case False
    show ?thesis
    proof (cases rest)
      case Nil
      with s ds 2(4) show ?thesis by auto
    next
      case (Cons c1 s1)
      with False 2 g have colon: "c1 = CHR '':''" by (auto simp: Let_def split: if_splits)
      show ?thesis
      proof (cases "s1 \<noteq> [] \<and> hd s1 = CHR '':''")
        case True
        then obtain s2 where "s1 = CHR '':'' # s2" by (cases s1) auto
        with False 2 g Cons colon s ds show ?thesis
          by (auto simp: Let_def ip_char_def split: if_splits)
      next
        case no: False
        with False 2 g Cons colon s ds show ?thesis
          by (auto simp: Let_def ip_char_def split: if_splits)
      qed
    qed
  qed
qed simp

lemma parse_ipv6_chars:
  assumes "parse_ipv6 s = Some a" and "c \<in> set s"
  shows "ip_char c"
proof -
  have fin: "ipv6_finish (s', ip, ell) = Some r \<Longrightarrow> s' = []" for s' ip ell r
    by (auto simp: ipv6_finish_def split: if_splits)
  show ?thesis
  proof (cases "take 2 s = ''::''")
    case True
    then have s: "s = ''::'' @ drop 2 s" by (metis append_take_drop_id)
    with assms(2) have "c = CHR '':'' \<or> c \<in> set (drop 2 s)"
      by (metis Un_iff empty_iff insert_iff list.set set_append)
    with assms(1) True show ?thesis
      unfolding parse_ipv6_def
      by (auto simp: ip_char_def [of "CHR '':''"] split: if_splits Option.bind_splits
          dest!: fin dest: ipv6_loop_chars)
  next
    case False
    with assms show ?thesis
      unfolding parse_ipv6_def
      by (auto split: if_splits Option.bind_splits dest!: fin dest: ipv6_loop_chars)
  qed
qed

lemma parse_ip_chars: "parse_ip s = Some a \<Longrightarrow> c \<in> set s \<Longrightarrow> ip_char c"
  unfolding parse_ip_def parse_ipv4_def
  by (auto split: option.splits if_splits dest: parse_ipv6_chars ipv4_fields_chars
      simp: is_digit_ip_char ip_char_def [of "CHR ''.''"])

lemma parse_ip_nonempty: "parse_ip s = Some a \<Longrightarrow> s \<noteq> []"
  by (auto simp: parse_ip_def)

end
