(* ===== verification/Dns_Name.thy ===== *)
theory Dns_Name
  imports Go_Regexp Net_IP
begin

text \<open>
  \<^verbatim>\<open>internal/dnsutil/name.go\<close>: the two patterns for DNS names and \<open>check_dns_name\<close>, with a
  specification by labels (\<open>valid_label\<close>, \<open>rfc1123_name\<close>) that the patterns are proved equal to.
\<close>

section \<open>The code\<close>

definition lower_alnum :: "(char \<times> char) list" where
  "lower_alnum = [(CHR ''a'', CHR ''z''), (CHR ''0'', CHR ''9'')]"

definition any_alnum :: "(char \<times> char) list" where
  "any_alnum = [(CHR ''a'', CHR ''z''), (CHR ''A'', CHR ''Z''), (CHR ''0'', CHR ''9'')]"

text \<open>\<^verbatim>\<open>[a]|[a][a\-]{0,61}[a]\<close> for a class \<open>a\<close>.\<close>

definition label_regexp :: "(char \<times> char) list \<Rightarrow> regexp" where
  "label_regexp a =
     Alt (Cls (In a))
       (Seq (Cls (In a)) (Seq (UpTo (Cls (In (a @ [(CHR ''-'', CHR ''-'')]))) 61) (Cls (In a))))"

definition name_regexp :: "(char \<times> char) list \<Rightarrow> regexp" where
  "name_regexp a = Seq (label_regexp a) (Star (Seq (chr CHR ''.'') (label_regexp a)))"

definition anycaseRegex :: regexp where "anycaseRegex = name_regexp any_alnum"
definition lowercaseRegex :: regexp where "lowercaseRegex = name_regexp lower_alnum"

text \<open>\<^verbatim>\<open>regexp.MustCompile(`^\*(.*)$`).ReplaceAllString(s, `wildcard$1`)\<close>.\<close>

definition replace_wildcard :: "string \<Rightarrow> string" where
  "replace_wildcard s =
     (case submatch (chr CHR ''*'') (Star re_dot) s of
        None \<Rightarrow> s
      | Some g \<Rightarrow> ''wildcard'' @ g)"

definition check_dns_name :: "string \<Rightarrow> bool \<Rightarrow> bool \<Rightarrow> string + unit" where
  "check_dns_name s0 allowUppercase allowWildcard =
     (let s = (if allowWildcard then replace_wildcard s0 else s0) in
      if length s > 255 then Inl ''not a valid DNS name''
      else
        let regex = (if allowUppercase then anycaseRegex else lowercaseRegex) in
        if \<not> matches regex s then Inl ''not a valid DNS name''
        else Inr ())"

section \<open>Specification by labels\<close>

definition valid_label :: "(char \<times> char) list \<Rightarrow> string \<Rightarrow> bool" where
  "valid_label a p \<longleftrightarrow>
     1 \<le> length p \<and> length p \<le> 63 \<and>
     (\<forall>c \<in> set p. in_ranges a c \<or> c = CHR ''-'') \<and>
     in_ranges a (hd p) \<and> in_ranges a (last p)"

definition alnum_of :: "bool \<Rightarrow> (char \<times> char) list" where
  "alnum_of allowUppercase = (if allowUppercase then any_alnum else lower_alnum)"

definition rfc1123_name :: "bool \<Rightarrow> string \<Rightarrow> bool" where
  "rfc1123_name allowUppercase s \<longleftrightarrow>
     length s \<le> 255 \<and>
     (\<forall>p \<in> set (split_on CHR ''.'' s). valid_label (alnum_of allowUppercase) p)"

lemma in_ranges_append [simp]: "in_ranges (a @ b) c \<longleftrightarrow> in_ranges a c \<or> in_ranges b c"
  by (induction a c rule: in_ranges.induct) auto

lemma in_ranges_single [simp]: "in_ranges [(d, d)] c \<longleftrightarrow> c = d"
  by auto

lemma label_language:
  assumes "\<not> in_ranges a CHR ''-''"
  shows "p \<in> lang (label_regexp a) \<longleftrightarrow> valid_label a p"
proof
  assume "p \<in> lang (label_regexp a)"
  then show "valid_label a p"
    by (auto simp: label_regexp_def valid_label_def upto_class conc_iff)
next
  assume v: "valid_label a p"
  then have "p \<noteq> []" by (auto simp: valid_label_def)
  show "p \<in> lang (label_regexp a)"
  proof (cases "length p = 1")
    case True
    then obtain c where "p = [c]" by (auto simp: length_Suc_conv)
    with v show ?thesis by (auto simp: label_regexp_def valid_label_def)
  next
    case False
    with \<open>p \<noteq> []\<close> obtain c q d where p: "p = c # q @ [d]"
      by (metis append_butlast_last_id length_Cons list.exhaust list.size(3) One_nat_def)
    with v have q: "length q \<le> 61" "\<forall>x \<in> set q. in_ranges a x \<or> x = CHR ''-''"
      and cd: "in_ranges a c" "in_ranges a d" by (auto simp: valid_label_def)
    from q have "q \<in> lang (UpTo (Cls (In (a @ [(CHR ''-'', CHR ''-'')]))) 61)"
      by (auto simp: upto_class)
    then have "q @ [d] \<in> lang (Seq (UpTo (Cls (In (a @ [(CHR ''-'', CHR ''-'')]))) 61) (Cls (In a)))"
      using cd unfolding lang.simps(4) by (intro concI) auto
    then have "[c] @ q @ [d] \<in> conc (lang (Cls (In a)))
        (lang (Seq (UpTo (Cls (In (a @ [(CHR ''-'', CHR ''-'')]))) 61) (Cls (In a))))"
      using cd by (intro concI [of "[c]"]) auto
    then show ?thesis by (simp add: label_regexp_def p)
  qed
qed

lemma alnum_facts [simp]:
  "\<not> in_ranges lower_alnum CHR ''-''" "\<not> in_ranges any_alnum CHR ''-''"
  "\<not> in_ranges lower_alnum CHR ''.''" "\<not> in_ranges any_alnum CHR ''.''"
  "\<not> in_ranges lower_alnum CHR ''*''" "\<not> in_ranges any_alnum CHR ''*''"
  by (simp_all add: lower_alnum_def any_alnum_def)

lemma name_language:
  assumes "\<not> in_ranges a CHR ''-''" and "\<not> in_ranges a CHR ''.''"
  shows "matches (name_regexp a) s \<longleftrightarrow> (\<forall>p \<in> set (split_on CHR ''.'' s). valid_label a p)"
proof -
  have free: "CHR ''.'' \<notin> set u" if "u \<in> lang (label_regexp a)" for u
    using that assms label_language [of a u] by (auto simp: valid_label_def)
  show ?thesis
    using lang_sep_list [of "label_regexp a" "CHR ''.''" s, OF free]
    by (simp only: matches_lang name_regexp_def label_language [OF assms(1)])
qed

lemma replace_wildcard_star:
  "newline \<notin> set t \<Longrightarrow> replace_wildcard (CHR ''*'' # t) = ''wildcard'' @ t"
  using submatch_eqI [of "''*''" "chr CHR ''*''" t "Star re_dot"]
  by (simp add: replace_wildcard_def re_dot_def lang_star_class in_class_not_newline del: lang.simps)
    force

lemma replace_wildcard_cases:
  "replace_wildcard s =
     (if s \<noteq> [] \<and> hd s = CHR ''*'' \<and> newline \<notin> set s then ''wildcard'' @ tl s else s)"
proof (cases "s \<noteq> [] \<and> hd s = CHR ''*'' \<and> newline \<notin> set s")
  case True
  then obtain t where "s = CHR ''*'' # t" "newline \<notin> set t" by (cases s) auto
  then show ?thesis by (simp add: replace_wildcard_star)
next
  case False
  have "submatch (chr CHR ''*'') (Star re_dot) s = None"
  proof (rule ccontr)
    assume "submatch (chr CHR ''*'') (Star re_dot) s \<noteq> None"
    then obtain g where "submatch (chr CHR ''*'') (Star re_dot) s = Some g" by blast
    from submatch_Some [OF this] False show False
      by (auto simp: re_dot_def kstar_class)
  qed
  with False show ?thesis by (simp only: replace_wildcard_def option.simps if_False)
qed

text \<open>What \<open>check_dns_name\<close> decides, on every input.\<close>

lemma check_dns_name_spec:
  "check_dns_name s up wild =
     (if rfc1123_name up (if wild then replace_wildcard s else s)
      then Inr () else Inl ''not a valid DNS name'')"
  unfolding check_dns_name_def rfc1123_name_def anycaseRegex_def lowercaseRegex_def alnum_of_def Let_def
  by (simp add: name_language)

declare check_dns_name_spec [code]

lemma check_dns_name_ok:
  "check_dns_name s up wild = Inr () \<longleftrightarrow>
     rfc1123_name up (if wild then replace_wildcard s else s)"
  by (simp add: check_dns_name_spec)

lemma check_dns_name_cases:
  obtains "check_dns_name s up wild = Inr ()"
  | "check_dns_name s up wild = Inl ''not a valid DNS name''"
  by (metis check_dns_name_spec)

section \<open>Characters of accepted names\<close>

definition dns_char :: "char \<Rightarrow> bool" where
  "dns_char c \<longleftrightarrow> in_ranges lower_alnum c \<or> c = CHR ''-'' \<or> c = CHR ''.''"

lemma rfc1123_chars:
  assumes "rfc1123_name False s" and "c \<in> set s"
  shows "dns_char c"
proof -
  have "set (join_with sep ps) \<subseteq> insert sep (\<Union> (set ` set ps))" for sep ps
    by (induction sep ps rule: join_with.induct) auto
  from this [of "CHR ''.''" "split_on CHR ''.'' s"] assms show ?thesis
    by (auto simp: rfc1123_name_def valid_label_def alnum_of_def dns_char_def)
qed

lemma rfc1123_nonempty: "rfc1123_name up s \<Longrightarrow> s \<noteq> []"
  by (auto simp: rfc1123_name_def valid_label_def)

lemma dns_char_not_space: "dns_char c \<Longrightarrow> \<not> is_space c"
  by (auto simp: dns_char_def is_space_def space_ranges_def lower_alnum_def less_eq_char_def)

lemma ip_char_not_space: "ip_char c \<Longrightarrow> \<not> is_space c"
  by (auto simp: ip_char_def is_space_def space_ranges_def hex_digit_def is_digit_def
      less_eq_char_def split: if_splits)

end
