(* ===== verification/Rewrite_Rule.thy ===== *)
theory Rewrite_Rule
  imports Dns_Name
begin

text \<open>
  \<^verbatim>\<open>internal/coredns/rewrite.go\<close>, the data part: rewrite rules and the set of rules keyed by
  owner, with the consistency guarantee its comment promises. The file format is in the
  theory \<open>Rewrite_File\<close>.

  The locale \<open>owner_store\<close> is the interface of the set that its clients (the parser of the
  file format and the reconciler) rely on; it is interpreted on the model of the code.
\<close>

section \<open>Rewrite rules\<close>

record rewrite_rule =
  rr_owner :: string
  rr_from :: string
  rr_to :: string

definition new_rewrite_rule :: "string \<Rightarrow> string \<Rightarrow> string \<Rightarrow> string + rewrite_rule" where
  "new_rewrite_rule owner frm to =
     (case check_dns_name frm False True of
        Inl err \<Rightarrow> Inl err
      | Inr _ \<Rightarrow>
          if parse_ip to = None then
            (case check_dns_name to False False of
               Inl err \<Rightarrow> Inl err
             | Inr _ \<Rightarrow> Inr \<lparr>rr_owner = owner, rr_from = frm, rr_to = to\<rparr>)
          else if hd (split_on CHR ''.'' frm) = ''*'' then
            Inl ''error validating rewrite rule: source must not be a wildcard DNS name if target is an IP address''
          else Inr \<lparr>rr_owner = owner, rr_from = frm, rr_to = to\<rparr>)"

definition from_is_wildcard :: "rewrite_rule \<Rightarrow> bool" where
  "from_is_wildcard r \<longleftrightarrow> hd (split_on CHR ''.'' (rr_from r)) = ''*''"

definition to_is_ipaddress :: "rewrite_rule \<Rightarrow> bool" where
  "to_is_ipaddress r \<longleftrightarrow> parse_ip (rr_to r) \<noteq> None"

text \<open>\<^verbatim>\<open>r.from[1:]\<close> is only evaluated when the first label is a star, so \<open>from\<close> is not empty.\<close>

definition rule_matches :: "rewrite_rule \<Rightarrow> string \<Rightarrow> bool" where
  "rule_matches r host =
     (if hd (split_on CHR ''.'' (rr_from r)) = ''*'' then has_suffix host (drop 1 (rr_from r))
      else host = rr_from r)"

section \<open>Sets of rewrite rules\<close>

record rewrite_rule_set =
  rules_by_owner :: "(string, rewrite_rule) fmap"

definition new_rewrite_rule_set :: rewrite_rule_set where
  "new_rewrite_rule_set = \<lparr>rules_by_owner = fmempty\<rparr>"

definition get_rule :: "rewrite_rule_set \<Rightarrow> string \<Rightarrow> rewrite_rule option" where
  "get_rule rs owner = fmlookup (rules_by_owner rs) owner"

text \<open>
  The two loops over the map: the list is what is left of the visiting order. A key of the
  order always has an entry; a missing one is skipped.
\<close>

fun find_matching_loop ::
  "(string, rewrite_rule) fmap \<Rightarrow> string \<Rightarrow> string list \<Rightarrow> rewrite_rule option"
where
  "find_matching_loop m host [] = None"
| "find_matching_loop m host (k # ks) =
     (case fmlookup m k of
        None \<Rightarrow> find_matching_loop m host ks
      | Some s \<Rightarrow> if rule_matches s host then Some s else find_matching_loop m host ks)"

definition find_matching_rule :: "lib \<Rightarrow> rewrite_rule_set \<Rightarrow> string \<Rightarrow> rewrite_rule option" where
  "find_matching_rule L rs host =
     find_matching_loop (rules_by_owner rs) host (range_order L (fmdom (rules_by_owner rs)))"

fun conflict_loop ::
  "(string, rewrite_rule) fmap \<Rightarrow> rewrite_rule \<Rightarrow> string list \<Rightarrow> rewrite_rule option"
where
  "conflict_loop m r [] = None"
| "conflict_loop m r (k # ks) =
     (case fmlookup m k of
        None \<Rightarrow> conflict_loop m r ks
      | Some t \<Rightarrow>
          if rr_owner t \<noteq> rr_owner r \<and> (rule_matches t (rr_from r) \<or> rule_matches r (rr_from t))
          then Some t else conflict_loop m r ks)"

definition add_rule ::
  "lib \<Rightarrow> rewrite_rule_set \<Rightarrow> rewrite_rule \<Rightarrow> (string + bool) \<times> rewrite_rule_set"
where
  "add_rule L rs r =
     (case conflict_loop (rules_by_owner rs) r (range_order L (fmdom (rules_by_owner rs))) of
        Some s \<Rightarrow>
          (Inl (''error adding rewrite rule '' @ rr_from r @ '':'' @ rr_to r @ '' ('' @ rr_owner r
             @ ''); conflicts with rule '' @ rr_from s @ '':'' @ rr_to s @ '' ('' @ rr_owner s @ '')''),
           rs)
      | None \<Rightarrow>
          let changed =
            (case fmlookup (rules_by_owner rs) (rr_owner r) of
               None \<Rightarrow> True
             | Some s \<Rightarrow> rr_from r \<noteq> rr_from s \<or> rr_to r \<noteq> rr_to s)
          in (Inr changed, rs\<lparr>rules_by_owner := fmupd (rr_owner r) r (rules_by_owner rs)\<rparr>))"

definition remove_rule :: "rewrite_rule_set \<Rightarrow> string \<Rightarrow> bool \<times> rewrite_rule_set" where
  "remove_rule rs owner =
     (case fmlookup (rules_by_owner rs) owner of
        None \<Rightarrow> (False, rs)
      | Some _ \<Rightarrow> (True, rs\<lparr>rules_by_owner := fmdrop owner (rules_by_owner rs)\<rparr>))"

section \<open>The consistency guarantee\<close>

definition clash :: "rewrite_rule \<Rightarrow> rewrite_rule \<Rightarrow> bool" where
  "clash t r \<longleftrightarrow> rule_matches t (rr_from r) \<or> rule_matches r (rr_from t)"

definition valid_rule :: "rewrite_rule \<Rightarrow> bool" where
  "valid_rule r \<longleftrightarrow> new_rewrite_rule (rr_owner r) (rr_from r) (rr_to r) = Inr r"

text \<open>Keys are owners and rules of two owners do not clash.\<close>

definition consistent :: "rewrite_rule_set \<Rightarrow> bool" where
  "consistent rs \<longleftrightarrow>
     (\<forall>k r. get_rule rs k = Some r \<longrightarrow> rr_owner r = k) \<and>
     (\<forall>k l r t. get_rule rs k = Some r \<longrightarrow> get_rule rs l = Some t \<longrightarrow> k \<noteq> l \<longrightarrow> \<not> clash r t)"

lemma consistent_empty: "consistent new_rewrite_rule_set"
  by (simp add: consistent_def get_rule_def new_rewrite_rule_set_def)

lemma consistent_owner: "consistent rs \<Longrightarrow> get_rule rs k = Some r \<Longrightarrow> rr_owner r = k"
  by (simp add: consistent_def)

lemma consistent_clash:
  "consistent rs \<Longrightarrow> get_rule rs k = Some r \<Longrightarrow> get_rule rs l = Some t \<Longrightarrow> k \<noteq> l \<Longrightarrow> \<not> clash r t"
  by (simp add: consistent_def)

lemma clash_sym: "clash r t \<longleftrightarrow> clash t r"
  by (auto simp: clash_def)

lemma rule_set_eqI: "get_rule rs = get_rule rs' \<Longrightarrow> rs = (rs' :: rewrite_rule_set)"
  by (rule rewrite_rule_set.equality)
    (auto simp: get_rule_def fun_eq_iff intro!: fmap_ext)

lemma rewrite_rule_eq_iff:
  "r = s \<longleftrightarrow> rr_owner r = rr_owner s \<and> rr_from r = rr_from s \<and> rr_to r = rr_to s"
  for r s :: rewrite_rule
  using rewrite_rule.equality [of r s] by auto

text \<open>A wildcard source is a star followed by nothing or by a dot.\<close>

lemma wildcard_shape:
  assumes "hd (split_on CHR ''.'' f) = ''*''"
  shows "f = CHR ''*'' # drop 1 f"
  using assms by (cases f) (auto split: if_splits)

lemma suffix_tail: "suffix t s \<Longrightarrow> suffix t (c # s)"
  by (simp add: suffix_ConsI)

text \<open>
  The key fact behind the guarantee: two rules that match the same host already match one
  another's source.
\<close>

lemma matching_clash:
  assumes r: "rule_matches r h" and t: "rule_matches t h"
  shows "clash r t"
proof (cases "from_is_wildcard r"; cases "from_is_wildcard t")
  assume wr: "from_is_wildcard r" and wt: "from_is_wildcard t"
  from r wr have "suffix (drop 1 (rr_from r)) h"
    by (simp add: rule_matches_def from_is_wildcard_def has_suffix_suffix)
  moreover from t wt have "suffix (drop 1 (rr_from t)) h"
    by (simp add: rule_matches_def from_is_wildcard_def has_suffix_suffix)
  ultimately have "suffix (drop 1 (rr_from r)) (drop 1 (rr_from t)) \<or>
      suffix (drop 1 (rr_from t)) (drop 1 (rr_from r))"
    by (rule suffix_same_cases)
  then have "suffix (drop 1 (rr_from r)) (rr_from t) \<or> suffix (drop 1 (rr_from t)) (rr_from r)"
    using suffix_drop suffix_order.trans by blast
  with wr wt show ?thesis
    by (auto simp: clash_def rule_matches_def from_is_wildcard_def has_suffix_suffix)
qed (use r t in \<open>auto simp: clash_def rule_matches_def from_is_wildcard_def\<close>)

section \<open>The interface of the set\<close>

locale owner_store =
  fixes get :: "'s \<Rightarrow> 'k \<Rightarrow> 'r option"
    and put :: "'s \<Rightarrow> 'r \<Rightarrow> ('e + bool) \<times> 's"
    and del :: "'s \<Rightarrow> 'k \<Rightarrow> bool \<times> 's"
    and key :: "'r \<Rightarrow> 'k"
    and clashes :: "'r \<Rightarrow> 'r \<Rightarrow> bool"
    and inv :: "'s \<Rightarrow> bool"
  assumes put_error: "inv s \<Longrightarrow> put s r = (Inl e, s') \<Longrightarrow>
      s' = s \<and> (\<exists>k t. get s k = Some t \<and> k \<noteq> key r \<and> clashes t r)"
    and put_ok: "inv s \<Longrightarrow> put s r = (Inr ch, s') \<Longrightarrow>
      inv s' \<and> get s' = (get s)(key r := Some r) \<and> (ch \<longleftrightarrow> get s (key r) \<noteq> Some r) \<and>
      (\<forall>k t. get s k = Some t \<longrightarrow> k \<noteq> key r \<longrightarrow> \<not> clashes t r)"
    and del_spec: "inv s \<Longrightarrow> del s k = (b, s') \<Longrightarrow>
      inv s' \<and> get s' = (get s)(k := None) \<and> (b \<longleftrightarrow> get s k \<noteq> None)"
    and get_key: "inv s \<Longrightarrow> get s k = Some r \<Longrightarrow> key r = k"
    and ext: "inv s \<Longrightarrow> inv s' \<Longrightarrow> get s = get s' \<Longrightarrow> s = s'"
    and clash_commute: "clashes t r \<longleftrightarrow> clashes r t"
begin

lemma put_iff: "inv s \<Longrightarrow>
  (\<exists>ch s'. put s r = (Inr ch, s')) \<longleftrightarrow> (\<forall>k t. get s k = Some t \<longrightarrow> k \<noteq> key r \<longrightarrow> \<not> clashes t r)"
proof (cases "put s r")
  case (Pair res s')
  assume "inv s"
  then show ?thesis using put_error put_ok Pair by (cases res) (fastforce, fastforce)
qed

lemma put_present:
  assumes s: "inv s" and g: "get s (key r) = Some r"
    and free: "\<forall>k t. get s k = Some t \<longrightarrow> k \<noteq> key r \<longrightarrow> \<not> clashes t r"
  shows "put s r = (Inr False, s)"
proof -
  from put_iff [OF s, of r] free obtain ch s' where p: "put s r = (Inr ch, s')" by blast
  from put_ok [OF s p] g have "inv s'" "get s' = get s" "\<not> ch" by (auto simp: fun_upd_idem)
  with ext s p show ?thesis by metis
qed

lemma put_twice:
  assumes s: "inv s" and p: "put s r = (Inr ch, s')"
  shows "put s' r = (Inr False, s')"
  using put_ok [OF s p] by (intro put_present) auto

lemma put_del:
  assumes s: "inv s" and new: "get s (key r) = None" and p: "put s r = (Inr ch, s')"
  shows "del s' (key r) = (True, s)"
proof -
  obtain b s'' where d: "del s' (key r) = (b, s'')" by fastforce
  from put_ok [OF s p] del_spec [OF _ d] new have "b" "inv s''" "get s'' = get s" by auto
  with ext s d show ?thesis by metis
qed

text \<open>Adding a list of records one after the other, stopping at the first error.\<close>

fun put_all :: "'s \<Rightarrow> 'r list \<Rightarrow> 'e + 's" where
  "put_all s [] = Inr s"
| "put_all s (r # rs) = (case put s r of (Inl e, _) \<Rightarrow> Inl e | (Inr _, s') \<Rightarrow> put_all s' rs)"

lemma put_all_append:
  "put_all s (xs @ ys) = (case put_all s xs of Inl e \<Rightarrow> Inl e | Inr s' \<Rightarrow> put_all s' ys)"
  by (induction xs arbitrary: s) (auto split: sum.splits prod.splits)

lemma put_all_ok:
  assumes "inv s" and "put_all s rs = Inr s'"
  shows "inv s' \<and> get s' = (\<lambda>k. case find (\<lambda>r. key r = k) (rev rs) of None \<Rightarrow> get s k | Some r \<Rightarrow> Some r)"
  using assms
proof (induction rs arbitrary: s)
  case Nil
  then show ?case by simp
next
  case (Cons r rs)
  from Cons.prems obtain ch s1 where p: "put s r = (Inr ch, s1)" and a: "put_all s1 rs = Inr s'"
    by (auto split: sum.splits prod.splits)
  from put_ok [OF Cons.prems(1) p] have s1: "inv s1" and g: "get s1 = (get s)(key r := Some r)"
    by auto
  have find_app: "find P (xs @ ys) = (case find P xs of None \<Rightarrow> find P ys | Some x \<Rightarrow> Some x)"
    for P and xs ys :: "'r list" by (induction xs) auto
  from Cons.IH [OF s1 a] show ?case
    by (auto simp: g fun_eq_iff find_app split: option.splits)
qed

text \<open>Records with distinct keys, none of which clashes with another or with the store.\<close>

definition compatible :: "'s \<Rightarrow> 'r list \<Rightarrow> bool" where
  "compatible s rs \<longleftrightarrow>
     distinct (map key rs) \<and>
     (\<forall>r \<in> set rs. \<forall>t \<in> set rs. key r \<noteq> key t \<longrightarrow> \<not> clashes t r) \<and>
     (\<forall>r \<in> set rs. \<forall>k t. get s k = Some t \<longrightarrow> k \<noteq> key r \<longrightarrow> \<not> clashes t r)"

lemma put_all_compatible:
  "inv s \<Longrightarrow> compatible s rs \<Longrightarrow>
    \<exists>s'. put_all s rs = Inr s' \<and> inv s' \<and> get s' = get s ++ map_of (map (\<lambda>r. (key r, r)) rs)"
proof (induction rs arbitrary: s)
  case Nil
  then show ?case by simp
next
  case (Cons r rs)
  from Cons.prems have "\<forall>k t. get s k = Some t \<longrightarrow> k \<noteq> key r \<longrightarrow> \<not> clashes t r"
    by (auto simp: compatible_def)
  with put_iff Cons.prems(1) obtain ch s1 where p: "put s r = (Inr ch, s1)" by blast
  from put_ok [OF Cons.prems(1) p] have s1: "inv s1" and g: "get s1 = (get s)(key r := Some r)"
    by auto
  have "compatible s1 rs"
    using Cons.prems(2) unfolding compatible_def g by (auto simp: image_iff split: if_splits)
  from Cons.IH [OF s1 this] obtain s' where s': "put_all s1 rs = Inr s'" "inv s'"
    "get s' = get s1 ++ map_of (map (\<lambda>r. (key r, r)) rs)" by blast
  have "key r \<notin> key ` set rs" using Cons.prems(2) by (simp add: compatible_def)
  then have "map_of (map (\<lambda>r. (key r, r)) rs) (key r) = None"
    by (auto simp: map_of_eq_None_iff image_iff)
  then have "get s' = get s ++ map_of (map (\<lambda>r. (key r, r)) (r # rs))"
    unfolding s'(3) g by (auto simp: fun_eq_iff map_add_def split: option.splits)
  moreover have "put_all s (r # rs) = Inr s'" using p s'(1) by simp
  ultimately show ?case using s'(2) by blast
qed

text \<open>For new records with distinct keys this is necessary, too.\<close>

lemma put_all_clash_free:
  "inv s \<Longrightarrow> put_all s rs = Inr s' \<Longrightarrow> distinct (map key rs) \<Longrightarrow> \<forall>r \<in> set rs. get s (key r) = None \<Longrightarrow>
    compatible s rs"
proof (induction rs arbitrary: s)
  case Nil
  then show ?case by (simp add: compatible_def)
next
  case (Cons r rs)
  from Cons.prems(2) obtain ch s1 where p: "put s r = (Inr ch, s1)" and a: "put_all s1 rs = Inr s'"
    by (auto split: sum.splits prod.splits)
  from put_ok [OF Cons.prems(1) p] have s1: "inv s1" and g: "get s1 = (get s)(key r := Some r)"
    and free: "\<forall>k t. get s k = Some t \<longrightarrow> k \<noteq> key r \<longrightarrow> \<not> clashes t r" by auto
  have new: "\<forall>r' \<in> set rs. key r' \<noteq> key r" using Cons.prems(3) by (simp add: image_iff) metis
  have c: "compatible s1 rs"
    using Cons.IH [OF s1 a] Cons.prems(3,4) new by (simp add: g)
  have r: "\<not> clashes r t" if "t \<in> set rs" for t
    using c that new unfolding compatible_def g by (metis fun_upd_same)
  have old: "\<not> clashes t r'" if "r' \<in> set rs" "get s k = Some t" "k \<noteq> key r'" for r' k t
  proof (cases "k = key r")
    case True
    with that(2) Cons.prems(4) show ?thesis by simp
  next
    case False
    with that c show ?thesis unfolding compatible_def g by (metis fun_upd_other)
  qed
  have "\<not> clashes t r" if "t \<in> set rs" for t
    using r [OF that] clash_commute by simp
  with c r old free Cons.prems(3) show ?case unfolding compatible_def by auto
qed

lemma put_all_iff:
  assumes "inv s" and "distinct (map key rs)" and "\<forall>r \<in> set rs. get s (key r) = None"
  shows "(\<exists>s'. put_all s rs = Inr s') \<longleftrightarrow> compatible s rs"
  using put_all_clash_free [OF assms(1) _ assms(2,3)] put_all_compatible [OF assms(1)] by blast

end

section \<open>The code provides the interface\<close>

lemma conflict_loop_Some:
  "conflict_loop m r ks = Some t \<Longrightarrow>
    \<exists>k \<in> set ks. fmlookup m k = Some t \<and> rr_owner t \<noteq> rr_owner r \<and> clash t r"
  by (induction ks) (auto simp: clash_def split: option.splits if_splits)

lemma conflict_loop_None:
  "conflict_loop m r ks = None \<Longrightarrow> k \<in> set ks \<Longrightarrow> fmlookup m k = Some t \<Longrightarrow>
    rr_owner t \<noteq> rr_owner r \<Longrightarrow> \<not> clash t r"
  by (induction ks) (auto simp: clash_def split: option.splits if_splits)

context go_lib
begin

lemma add_rule_error:
  assumes c: "consistent rs" and a: "add_rule L rs r = (Inl e, rs')"
  shows "rs' = rs \<and> (\<exists>k t. get_rule rs k = Some t \<and> k \<noteq> rr_owner r \<and> clash t r)"
proof -
  from a obtain t where "conflict_loop (rules_by_owner rs) r
      (range_order L (fmdom (rules_by_owner rs))) = Some t" and "rs' = rs"
    by (auto simp: add_rule_def Let_def split: option.splits)
  with conflict_loop_Some [OF this(1)] consistent_owner [OF c] show ?thesis
    by (fastforce simp: get_rule_def)
qed

lemma add_rule_ok:
  assumes c: "consistent rs" and a: "add_rule L rs r = (Inr ch, rs')"
  shows "consistent rs' \<and> get_rule rs' = (get_rule rs)(rr_owner r := Some r) \<and>
    (ch \<longleftrightarrow> get_rule rs (rr_owner r) \<noteq> Some r) \<and>
    (\<forall>k t. get_rule rs k = Some t \<longrightarrow> k \<noteq> rr_owner r \<longrightarrow> \<not> clash t r)"
proof -
  let ?m = "rules_by_owner rs"
  from a have n: "conflict_loop ?m r (range_order L (fmdom ?m)) = None"
    and rs': "rs' = rs\<lparr>rules_by_owner := fmupd (rr_owner r) r ?m\<rparr>"
    and ch: "ch \<longleftrightarrow> (case fmlookup ?m (rr_owner r) of None \<Rightarrow> True
      | Some s \<Rightarrow> rr_from r \<noteq> rr_from s \<or> rr_to r \<noteq> rr_to s)"
    by (auto simp: add_rule_def Let_def split: option.splits)
  have free: "\<not> clash t r" if "get_rule rs k = Some t" "k \<noteq> rr_owner r" for k t
  proof -
    from that have "k \<in> set (range_order L (fmdom ?m))" "fmlookup ?m k = Some t"
      by (auto simp: range_set get_rule_def fmdomI)
    with conflict_loop_None [OF n this] consistent_owner [OF c that(1)] that(2) show ?thesis by blast
  qed
  have g: "get_rule rs' = (get_rule rs)(rr_owner r := Some r)"
    by (auto simp: rs' get_rule_def fun_eq_iff)
  have "ch \<longleftrightarrow> get_rule rs (rr_owner r) \<noteq> Some r"
  proof (cases "fmlookup ?m (rr_owner r)")
    case None
    then show ?thesis by (simp add: ch get_rule_def)
  next
    case (Some s)
    with consistent_owner [OF c, of "rr_owner r" s] have "rr_owner s = rr_owner r"
      by (simp add: get_rule_def)
    with Some show ?thesis by (auto simp: ch get_rule_def rewrite_rule_eq_iff)
  qed
  moreover have "consistent rs'"
  proof -
    have "\<not> clash r t" if "get_rule rs k = Some t" "k \<noteq> rr_owner r" for k t
      using free [OF that] by (simp add: clash_sym [of r])
    with c free show ?thesis unfolding consistent_def g by simp
  qed
  ultimately show ?thesis using g free by blast
qed

end

lemma remove_rule_spec:
  assumes c: "consistent rs" and r: "remove_rule rs k = (b, rs')"
  shows "consistent rs' \<and> get_rule rs' = (get_rule rs)(k := None) \<and> (b \<longleftrightarrow> get_rule rs k \<noteq> None)"
proof -
  have g: "get_rule rs' = (get_rule rs)(k := None)"
    using r by (auto simp: remove_rule_def get_rule_def fun_eq_iff split: option.splits)
  then have "consistent rs'" using c unfolding consistent_def by (auto split: if_splits)
  with g r show ?thesis by (auto simp: remove_rule_def get_rule_def split: option.splits)
qed

text \<open>For every library that keeps its documented laws.\<close>

sublocale go_lib \<subseteq> rules: owner_store get_rule "add_rule L" remove_rule rr_owner clash consistent
proof unfold_locales
  show "rs = rs'" if "get_rule rs = get_rule rs'" for rs rs'
    using that by (rule rule_set_eqI)
  show "clash t r \<longleftrightarrow> clash r t" for t r
    by (rule clash_sym)
qed (use add_rule_error add_rule_ok remove_rule_spec consistent_owner in blast)+

interpretation rule_set: owner_store get_rule "add_rule std_lib" remove_rule rr_owner clash consistent
  by (rule std.rules.owner_store_axioms)

end

