(* ===== verification/Rewrite_File.thy ===== *)
theory Rewrite_File
  imports Rewrite_Rule
begin

text \<open>
  \<^verbatim>\<open>internal/coredns/rewrite.go\<close>, the file format: \<open>parse_rewrite_rule_set\<close> and
  \<open>rule_set_string\<close>. The lemmas relate both to the sequence of rules in the file, which the
  parser adds one after the other through the interface \<open>owner_store\<close>.
\<close>

section \<open>The parser\<close>

definition err_line :: "nat \<Rightarrow> string" where
  "err_line n = ''error parsing rewrite rules (at line '' @ itoa n @ '')''"

definition err_eof :: string where
  "err_eof = ''error parsing rewrite rules (premature end of file)''"

text \<open>
  The pattern \<^verbatim>\<open>^\s*#key(.+)$\<close>; the three headers of a rule are \<^verbatim>\<open># owner: \<close>,
  \<^verbatim>\<open># from: \<close> and \<^verbatim>\<open># to: \<close>.
\<close>

definition header_group :: "string \<Rightarrow> string \<Rightarrow> string option" where
  "header_group key line =
     submatch (Seq (Star re_space) (lit (CHR ''#'' # key))) (plus1 re_dot) line"

definition owner_header :: string where "owner_header = '' owner: ''"
definition from_header :: string where "from_header = '' from: ''"
definition to_header :: string where "to_header = '' to: ''"

text \<open>\<^verbatim>\<open>^\s*\S+\s+\S+$\<close>\<close>

definition hosts_line_regexp :: regexp where
  "hosts_line_regexp =
     Seq (Star re_space) (Seq (plus1 re_nonspace) (Seq (plus1 re_space) (plus1 re_nonspace)))"

text \<open>\<^verbatim>\<open>^\s*rewrite name (exact|regex) (\S+) (\S+)$\<close>\<close>

definition rewrite_line_regexp :: regexp where
  "rewrite_line_regexp =
     Seq (Star re_space) (Seq (lit ''rewrite name '') (Seq (Alt (lit ''exact'') (lit ''regex''))
       (Seq (chr CHR '' '') (Seq (plus1 re_nonspace) (Seq (chr CHR '' '') (plus1 re_nonspace))))))"

definition hosts_open :: string where "hosts_open = ''hosts /dev/null {''"
definition hosts_ttl :: string where "hosts_ttl = ''  ttl 10''"
definition hosts_fallthrough :: string where "hosts_fallthrough = ''  fallthrough''"
definition hosts_close :: string where "hosts_close = ''}''"

text \<open>
  One rule of the file: the three headers and the rule line, of which the first is \<open>l\<close> with
  index \<open>i\<close>. The result is the rule and the lines after it.
\<close>

definition parse_entry ::
  "nat \<Rightarrow> string \<Rightarrow> string list \<Rightarrow> bool \<Rightarrow> string + rewrite_rule \<times> string list"
where
  "parse_entry i l ls have_hosts =
     (case header_group owner_header l of
        None \<Rightarrow> Inl (err_line (i + 1))
      | Some owner \<Rightarrow>
     (case ls of
        [] \<Rightarrow> Inl err_eof
      | l1 # ls1 \<Rightarrow>
     (case header_group from_header l1 of
        None \<Rightarrow> Inl (err_line (i + 2))
      | Some frm \<Rightarrow>
     (case ls1 of
        [] \<Rightarrow> Inl err_eof
      | l2 # ls2 \<Rightarrow>
     (case header_group to_header l2 of
        None \<Rightarrow> Inl (err_line (i + 3))
      | Some to \<Rightarrow>
     (case ls2 of
        [] \<Rightarrow> Inl err_eof
      | l3 # ls3 \<Rightarrow>
          if have_hosts \<and> \<not> matches hosts_line_regexp l3 then Inl (err_line (i + 4))
          else if \<not> have_hosts \<and> \<not> matches rewrite_line_regexp l3 then Inl (err_line (i + 4))
          else
     (case new_rewrite_rule owner frm to of
        Inl err \<Rightarrow> Inl err
      | Inr r \<Rightarrow> Inr (r, ls3))))))))"

lemma parse_entry_rest: "parse_entry i l ls hh = Inr (r, rest) \<Longrightarrow> length rest < length ls"
  by (auto simp: parse_entry_def split: option.splits list.splits if_splits sum.splits)

text \<open>
  The loop over the lines: \<open>i\<close> is the index of the first remaining line, \<open>have_hosts\<close> and
  \<open>rs\<close> are the variables of the code. Every turn consumes at least one line.
\<close>

function parse_lines ::
  "lib \<Rightarrow> nat \<Rightarrow> string list \<Rightarrow> bool \<Rightarrow> rewrite_rule_set \<Rightarrow> string + rewrite_rule_set"
where
  "parse_lines L i [] have_hosts rs = Inr rs"
| "parse_lines L i (l # ls) have_hosts rs =
     (if l = hosts_open \<and> \<not> have_hosts then parse_lines L (i + 1) ls True rs
      else if 2 \<le> length ls \<and> l = hosts_ttl \<and> ls ! 0 = hosts_fallthrough \<and> ls ! 1 = hosts_close
        then parse_lines L (i + 3) (drop 2 ls) False rs
      else
     (case parse_entry i l ls have_hosts of
        Inl err \<Rightarrow> Inl err
      | Inr (r, rest) \<Rightarrow>
     (case add_rule L rs r of
        (Inl err, _) \<Rightarrow> Inl err
      | (Inr _, rs') \<Rightarrow> parse_lines L (i + 4) rest have_hosts rs')))"
  by pat_completeness auto
termination
  by (relation "measure (\<lambda>(L, i, ls, have_hosts, rs). length ls)")
    (auto dest: parse_entry_rest)

definition parse_rewrite_rule_set :: "lib \<Rightarrow> string \<Rightarrow> string + rewrite_rule_set" where
  "parse_rewrite_rule_set L s =
     (if s = [] then Inr new_rewrite_rule_set
      else parse_lines L 0 (split_on newline s) False new_rewrite_rule_set)"

section \<open>The serializer\<close>

text \<open>\<^verbatim>\<open>rs.rulesByOwner[o]\<close> for an owner of the sorted keys always finds its rule.\<close>

fun hosts_loop ::
  "(string, rewrite_rule) fmap \<Rightarrow> string list \<Rightarrow> string list \<times> bool \<Rightarrow> string list \<times> bool"
where
  "hosts_loop m [] (lines, haveHosts) = (lines, haveHosts)"
| "hosts_loop m (o1 # os) (lines, haveHosts) =
     (case fmlookup m o1 of
        None \<Rightarrow> hosts_loop m os (lines, haveHosts)
      | Some r \<Rightarrow>
          if \<not> to_is_ipaddress r then hosts_loop m os (lines, haveHosts)
          else
            let lines1 = (if \<not> haveHosts then lines @ [hosts_open] else lines) in
            hosts_loop m os
              (lines1 @
                [''  # owner: '' @ rr_owner r,
                 ''  # from: '' @ rr_from r,
                 ''  # to: '' @ rr_to r,
                 ''  '' @ rr_to r @ '' '' @ rr_from r], True))"

definition rewrite_line :: "rewrite_rule \<Rightarrow> string" where
  "rewrite_line r =
     (if from_is_wildcard r then
        ''rewrite name regex ''
          @ replace_all (replace_all (rr_from r) CHR ''.'' [CHR 0x5C, CHR ''.'']) CHR ''*'' ''.*''
          @ '' '' @ rr_to r
      else ''rewrite name exact '' @ rr_from r @ '' '' @ rr_to r)"

fun rewrite_loop :: "(string, rewrite_rule) fmap \<Rightarrow> string list \<Rightarrow> string list \<Rightarrow> string list" where
  "rewrite_loop m [] lines = lines"
| "rewrite_loop m (o1 # os) lines =
     (case fmlookup m o1 of
        None \<Rightarrow> rewrite_loop m os lines
      | Some r \<Rightarrow>
          if to_is_ipaddress r then rewrite_loop m os lines
          else rewrite_loop m os
            (lines @
              [''# owner: '' @ rr_owner r,
               ''# from: '' @ rr_from r,
               ''# to: '' @ rr_to r,
               rewrite_line r]))"

definition rule_set_lines :: "lib \<Rightarrow> rewrite_rule_set \<Rightarrow> string list" where
  "rule_set_lines L rs =
     (let m = rules_by_owner rs;
          (lines, haveHosts) = hosts_loop m (lib_sort L (lib_keys L (fmdom m))) ([], False);
          lines1 = (if haveHosts then lines @ [hosts_ttl, hosts_fallthrough, hosts_close] else lines)
      in rewrite_loop m (lib_sort L (lib_keys L (fmdom m))) lines1)"

definition rule_set_string :: "lib \<Rightarrow> rewrite_rule_set \<Rightarrow> string" where
  "rule_set_string L rs = join_with newline (rule_set_lines L rs)"

section \<open>Rules that can be written to a file\<close>

definition owner_ok :: "string \<Rightarrow> bool" where
  "owner_ok k \<longleftrightarrow> k \<noteq> [] \<and> newline \<notin> set k"

definition printable :: "rewrite_rule \<Rightarrow> bool" where
  "printable r \<longleftrightarrow> valid_rule r \<and> owner_ok (rr_owner r)"

text \<open>What every set that was parsed or built by the reconciler satisfies.\<close>

definition rule_set_wf :: "rewrite_rule_set \<Rightarrow> bool" where
  "rule_set_wf rs \<longleftrightarrow> consistent rs \<and> (\<forall>k r. get_rule rs k = Some r \<longrightarrow> printable r)"

lemma new_rewrite_rule_Inr:
  "new_rewrite_rule k f t = Inr r \<Longrightarrow> r = \<lparr>rr_owner = k, rr_from = f, rr_to = t\<rparr> \<and> valid_rule r"
  by (auto simp: new_rewrite_rule_def valid_rule_def split: sum.splits if_splits)

lemma valid_rule_iff:
  "valid_rule r \<longleftrightarrow>
     rfc1123_name False (replace_wildcard (rr_from r)) \<and>
     (if to_is_ipaddress r then \<not> from_is_wildcard r else rfc1123_name False (rr_to r))"
  by (auto simp: valid_rule_def new_rewrite_rule_def check_dns_name_spec to_is_ipaddress_def
      from_is_wildcard_def)

definition word_ok :: "string \<Rightarrow> bool" where
  "word_ok w \<longleftrightarrow> w \<noteq> [] \<and> (\<forall>c \<in> set w. \<not> is_space c)"

lemma word_ok_newline: "word_ok w \<Longrightarrow> newline \<notin> set w"
  by (auto simp: word_ok_def)

lemma valid_from_word: "valid_rule r \<Longrightarrow> word_ok (rr_from r)"
proof -
  assume "valid_rule r"
  then have v: "rfc1123_name False (replace_wildcard (rr_from r))" by (simp add: valid_rule_iff)
  have star: "\<not> is_space CHR ''*''" by (simp add: is_space_def space_ranges_def)
  have nd: "\<not> dns_char CHR ''*''" by (simp add: dns_char_def)
  show ?thesis
  proof (cases "rr_from r \<noteq> [] \<and> hd (rr_from r) = CHR ''*'' \<and> newline \<notin> set (rr_from r)")
    case True
    then obtain t where t: "rr_from r = CHR ''*'' # t" by (cases "rr_from r") auto
    with True v have "rfc1123_name False (''wildcard'' @ t)" by (simp add: replace_wildcard_cases)
    from rfc1123_chars [OF this] have "\<not> is_space c" if "c \<in> set t" for c
      using that dns_char_not_space by simp
    with t star show ?thesis by (simp add: word_ok_def)
  next
    case False
    with v have "rfc1123_name False (rr_from r)" by (simp only: replace_wildcard_cases if_False)
    from rfc1123_chars [OF this] rfc1123_nonempty [OF this] show ?thesis
      using dns_char_not_space by (auto simp: word_ok_def)
  qed
qed

lemma valid_to_word:
  assumes v: "valid_rule r"
  shows "word_ok (rr_to r)"
proof (cases "to_is_ipaddress r")
  case True
  then obtain a where "parse_ip (rr_to r) = Some a" by (auto simp: to_is_ipaddress_def)
  from parse_ip_chars [OF this] parse_ip_nonempty [OF this] show ?thesis
    using ip_char_not_space by (auto simp: word_ok_def)
next
  case False
  with v have "rfc1123_name False (rr_to r)" by (simp add: valid_rule_iff)
  from rfc1123_chars [OF this] rfc1123_nonempty [OF this] show ?thesis
    using dns_char_not_space by (auto simp: word_ok_def)
qed

section \<open>Reading back the lines of one rule\<close>

lemma spaces_hash_unique:
  "p @ CHR ''#'' # x = q @ CHR ''#'' # y \<Longrightarrow> \<forall>c \<in> set p. is_space c \<Longrightarrow> \<forall>c \<in> set q. is_space c \<Longrightarrow>
    x = y"
proof -
  assume eq: "p @ CHR ''#'' # x = q @ CHR ''#'' # y"
    and p: "\<forall>c \<in> set p. is_space c" and q: "\<forall>c \<in> set q. is_space c"
  have h: "\<not> is_space CHR ''#''" by (simp add: is_space_def space_ranges_def)
  from p h have "dropWhile is_space (p @ CHR ''#'' # x) = CHR ''#'' # x" by simp
  moreover from q h have "dropWhile is_space (q @ CHR ''#'' # y) = CHR ''#'' # y" by simp
  ultimately show ?thesis using eq by simp
qed

lemma header_language:
  "p \<in> lang (Seq (Star re_space) (lit k)) \<longleftrightarrow> (\<exists>w. p = w @ k \<and> (\<forall>c \<in> set w. is_space c))"
  by (auto simp: conc_iff re_space_def kstar_class is_space_def)

lemma group_language: "g \<in> lang (plus1 re_dot) \<longleftrightarrow> owner_ok g"
  unfolding re_dot_def lang_plus_class owner_ok_def in_class_not_newline by auto

lemma header_group_hit:
  assumes "\<forall>c \<in> set w. is_space c" and "owner_ok v"
  shows "header_group key (w @ CHR ''#'' # key @ v) = Some v"
proof -
  have "submatch (Seq (Star re_space) (lit (CHR ''#'' # key))) (plus1 re_dot)
      ((w @ CHR ''#'' # key) @ v) = Some v"
  proof (rule submatch_eqI)
    show "w @ CHR ''#'' # key \<in> lang (Seq (Star re_space) (lit (CHR ''#'' # key)))"
      unfolding header_language using assms(1) by blast
    show "v \<in> lang (plus1 re_dot)" using assms(2) by (simp only: group_language)
    fix p' g' assume eq: "p' @ g' = (w @ CHR ''#'' # key) @ v"
      and "p' \<in> lang (Seq (Star re_space) (lit (CHR ''#'' # key)))"
    then obtain w' where "p' = w' @ CHR ''#'' # key" "\<forall>c \<in> set w'. is_space c"
      unfolding header_language by blast
    with spaces_hash_unique [of w' "key @ g'" w "key @ v"] eq assms(1) show "g' = v" by simp
  qed
  then show ?thesis by (simp add: header_group_def)
qed

lemma header_group_Some: "header_group key l = Some v \<Longrightarrow> owner_ok v"
  unfolding header_group_def by (auto dest!: submatch_Some simp: group_language simp del: lang.simps)

text \<open>The two blocks of lines that one rule is written as.\<close>

definition hosts_block :: "rewrite_rule \<Rightarrow> string list" where
  "hosts_block r =
     [''  # owner: '' @ rr_owner r, ''  # from: '' @ rr_from r, ''  # to: '' @ rr_to r,
      ''  '' @ rr_to r @ '' '' @ rr_from r]"

definition rewrite_block :: "rewrite_rule \<Rightarrow> string list" where
  "rewrite_block r =
     [''# owner: '' @ rr_owner r, ''# from: '' @ rr_from r, ''# to: '' @ rr_to r, rewrite_line r]"

lemma plus_nonspace: "w \<in> lang (plus1 re_nonspace) \<longleftrightarrow> word_ok w"
  unfolding re_nonspace_def lang_plus_class word_ok_def is_space_class by simp

lemma hosts_line_ok:
  assumes "word_ok t" and "word_ok f"
  shows "matches hosts_line_regexp (''  '' @ t @ '' '' @ f)"
proof -
  have sp: "''  '' \<in> lang (Star re_space)" "'' '' \<in> lang (plus1 re_space)"
    by (simp_all only: re_space_def lang_star_class lang_plus_class is_space_class) simp_all
  show ?thesis
    unfolding matches_lang hosts_line_regexp_def lang.simps(4)
    by (intro concI [OF sp(1)] concI [of t] concI [OF sp(2)])
      (simp_all only: plus_nonspace assms append.simps append_assoc)
qed

lemma rewrite_line_ok:
  assumes "word_ok t" and "word_ok f" and "k = ''exact'' \<or> k = ''regex''"
  shows "matches rewrite_line_regexp (''rewrite name '' @ k @ '' '' @ f @ '' '' @ t)"
proof -
  have nil: "[] \<in> lang (Star re_space)" by (simp only: re_space_def lang_star_class) simp
  have sp: "'' '' \<in> lang (chr CHR '' '')" by simp
  have k: "k \<in> lang (Alt (lit ''exact'') (lit ''regex''))"
    using assms(3) unfolding lang.simps(5) lang_lit by blast
  have rw: "''rewrite name '' \<in> lang (lit ''rewrite name '')" by (simp only: lang_lit) simp
  show ?thesis
    unfolding matches_lang rewrite_line_regexp_def lang.simps(4)
    by (intro concI [OF nil] concI [OF rw] concI [OF k] concI [OF sp] concI [of f])
      (simp_all only: plus_nonspace assms append.simps append_assoc)
qed

lemma replace_all_word:
  "word_ok w \<Longrightarrow> word_ok new \<Longrightarrow> word_ok (replace_all w old new)"
  unfolding word_ok_def replace_all_def by (auto split: if_splits simp: neq_Nil_conv)

lemma rewrite_line_matches: "valid_rule r \<Longrightarrow> matches rewrite_line_regexp (rewrite_line r)"
proof -
  assume v: "valid_rule r"
  note f = valid_from_word [OF v] and t = valid_to_word [OF v]
  have "word_ok [CHR 0x5C, CHR ''.'']" "word_ok ''.*''"
    by (simp_all add: word_ok_def is_space_def space_ranges_def)
  from replace_all_word [OF replace_all_word [OF f this(1)] this(2)] f t show ?thesis
    using rewrite_line_ok [of "rr_to r" _ "''regex''"] rewrite_line_ok [of "rr_to r" _ "''exact''"]
    unfolding rewrite_line_def by auto
qed

section \<open>Parsing blocks\<close>

text \<open>
  With the headers and the rule line of a printable rule in front, one turn of the loop is
  one call of \<open>add_rule\<close>.
\<close>

definition add_step ::
  "lib \<Rightarrow> rewrite_rule_set \<Rightarrow> rewrite_rule \<Rightarrow> (rewrite_rule_set \<Rightarrow> string + rewrite_rule_set) \<Rightarrow>
    string + rewrite_rule_set"
where
  "add_step L rs r k = (case add_rule L rs r of (Inl err, _) \<Rightarrow> Inl err | (Inr _, rs') \<Rightarrow> k rs')"

lemma printable_headers:
  assumes p: "printable r" and w: "\<forall>c \<in> set w. is_space c"
  shows "header_group owner_header (w @ ''# owner: '' @ rr_owner r) = Some (rr_owner r)"
    and "header_group from_header (w @ ''# from: '' @ rr_from r) = Some (rr_from r)"
    and "header_group to_header (w @ ''# to: '' @ rr_to r) = Some (rr_to r)"
proof -
  have ok: "owner_ok (rr_owner r)" "owner_ok (rr_from r)" "owner_ok (rr_to r)"
    using p valid_from_word [of r] valid_to_word [of r] word_ok_newline
    by (auto simp: printable_def owner_ok_def word_ok_def)
  show "header_group owner_header (w @ ''# owner: '' @ rr_owner r) = Some (rr_owner r)"
    using header_group_hit [OF w ok(1), of owner_header] by (simp add: owner_header_def)
  show "header_group from_header (w @ ''# from: '' @ rr_from r) = Some (rr_from r)"
    using header_group_hit [OF w ok(2), of from_header] by (simp add: from_header_def)
  show "header_group to_header (w @ ''# to: '' @ rr_to r) = Some (rr_to r)"
    using header_group_hit [OF w ok(3), of to_header] by (simp add: to_header_def)
qed

lemma new_rewrite_rule_valid:
  "valid_rule r \<Longrightarrow> new_rewrite_rule (rr_owner r) (rr_from r) (rr_to r) = Inr r"
  by (simp add: valid_rule_def)

lemma parse_hosts_block:
  assumes p: "printable r"
  shows "parse_lines L i (hosts_block r @ ls) True rs =
    add_step L rs r (parse_lines L (i + 4) ls True)"
proof -
  have w: "\<forall>c \<in> set ''  ''. is_space c" by simp
  note h = printable_headers [OF p w, simplified]
  have v: "valid_rule r" using p by (simp add: printable_def)
  have m: "matches hosts_line_regexp (''  '' @ rr_to r @ '' '' @ rr_from r)"
    using hosts_line_ok [OF valid_to_word [OF v] valid_from_word [OF v]] .
  show ?thesis
    using m new_rewrite_rule_valid [OF v]
    by (simp add: hosts_block_def parse_entry_def h add_step_def hosts_ttl_def)
qed

lemma parse_rewrite_block:
  assumes p: "printable r"
  shows "parse_lines L i (rewrite_block r @ ls) False rs =
    add_step L rs r (parse_lines L (i + 4) ls False)"
proof -
  have w: "\<forall>c \<in> set []. is_space c" by simp
  note h = printable_headers [OF p w, simplified]
  have v: "valid_rule r" using p by (simp add: printable_def)
  show ?thesis
    using rewrite_line_matches [OF v] new_rewrite_rule_valid [OF v]
    by (simp add: rewrite_block_def parse_entry_def h add_step_def hosts_ttl_def hosts_open_def)
qed

context go_lib
begin

lemma parse_hosts_blocks:
  "\<forall>r \<in> set xs. printable r \<Longrightarrow>
    parse_lines L i (concat (map hosts_block xs) @ ls) True rs =
      (case rules.put_all rs xs of Inl e \<Rightarrow> Inl e
       | Inr rs' \<Rightarrow> parse_lines L (i + 4 * length xs) ls True rs')"
proof (induction xs arbitrary: i rs)
  case Nil
  then show ?case by simp
next
  case (Cons r xs)
  then show ?case
    by (auto simp: parse_hosts_block add_step_def add.assoc
        split: sum.splits prod.splits)
qed

lemma parse_rewrite_blocks:
  "\<forall>r \<in> set xs. printable r \<Longrightarrow>
    parse_lines L i (concat (map rewrite_block xs) @ ls) False rs =
      (case rules.put_all rs xs of Inl e \<Rightarrow> Inl e
       | Inr rs' \<Rightarrow> parse_lines L (i + 4 * length xs) ls False rs')"
proof (induction xs arbitrary: i rs)
  case Nil
  then show ?case by simp
next
  case (Cons r xs)
  then show ?case
    by (auto simp: parse_rewrite_block add_step_def add.assoc
        split: sum.splits prod.splits)
qed

end

section \<open>The lines of a file\<close>

definition sorted_rules :: "rewrite_rule_set \<Rightarrow> rewrite_rule list" where
  "sorted_rules rs =
     map (\<lambda>k. the (fmlookup (rules_by_owner rs) k)) (sorted_list_of_fset (fmdom (rules_by_owner rs)))"

definition ip_rules :: "rewrite_rule_set \<Rightarrow> rewrite_rule list" where
  "ip_rules rs = filter to_is_ipaddress (sorted_rules rs)"

definition name_rules :: "rewrite_rule_set \<Rightarrow> rewrite_rule list" where
  "name_rules rs = filter (\<lambda>r. \<not> to_is_ipaddress r) (sorted_rules rs)"

definition file_lines :: "rewrite_rule_set \<Rightarrow> string list" where
  "file_lines rs =
     (if ip_rules rs = [] then []
      else hosts_open # concat (map hosts_block (ip_rules rs))
        @ [hosts_ttl, hosts_fallthrough, hosts_close])
     @ concat (map rewrite_block (name_rules rs))"

lemma hosts_loop_eq:
  "\<forall>k \<in> set ks. fmlookup m k \<noteq> None \<Longrightarrow>
    xs = filter to_is_ipaddress (map (\<lambda>k. the (fmlookup m k)) ks) \<Longrightarrow>
    hosts_loop m ks (ls, hh) =
      (ls @ (if hh \<or> xs = [] then [] else [hosts_open]) @ concat (map hosts_block xs),
       hh \<or> xs \<noteq> [])"
  by (induction ks arbitrary: ls hh xs) (auto simp: hosts_block_def Let_def)

lemma rewrite_loop_eq:
  "\<forall>k \<in> set ks. fmlookup m k \<noteq> None \<Longrightarrow>
    rewrite_loop m ks ls =
      ls @ concat (map rewrite_block
        (filter (\<lambda>r. \<not> to_is_ipaddress r) (map (\<lambda>k. the (fmlookup m k)) ks)))"
  by (induction ks arbitrary: ls) (auto simp: rewrite_block_def)

lemma set_sorted_keys: "k \<in> set (sorted_list_of_fset (fmdom m)) \<longleftrightarrow> fmlookup m k \<noteq> None"
  by (simp add: sorted_list_of_fset.rep_eq fmlookup_dom'_iff flip: fmdom'_alt_def)

lemma sorted_keys_present: "k \<in> set (sorted_list_of_fset (fmdom m)) \<Longrightarrow> fmlookup m k \<noteq> None"
  by (simp only: set_sorted_keys) simp

lemma set_sorted_rules:
  "r \<in> set (sorted_rules rs) \<longleftrightarrow> (\<exists>k. get_rule rs k = Some r)"
proof
  assume "r \<in> set (sorted_rules rs)"
  then obtain k where "k \<in> set (sorted_list_of_fset (fmdom (rules_by_owner rs)))"
    and "r = the (fmlookup (rules_by_owner rs) k)" unfolding sorted_rules_def by auto
  with sorted_keys_present show "\<exists>k. get_rule rs k = Some r" by (force simp: get_rule_def)
next
  assume "\<exists>k. get_rule rs k = Some r"
  then obtain k where "fmlookup (rules_by_owner rs) k = Some r" by (auto simp: get_rule_def)
  then show "r \<in> set (sorted_rules rs)"
    unfolding sorted_rules_def set_map by (intro image_eqI [of _ _ k]) (simp_all only: set_sorted_keys option.sel, simp)
qed

lemma sorted_rules_owners:
  assumes "consistent rs"
  shows "map rr_owner (sorted_rules rs) = sorted_list_of_fset (fmdom (rules_by_owner rs))"
proof -
  have "rr_owner (the (fmlookup (rules_by_owner rs) k)) = k"
    if "k \<in> set (sorted_list_of_fset (fmdom (rules_by_owner rs)))" for k
    using consistent_owner [OF assms, of k] sorted_keys_present [OF that] by (auto simp: get_rule_def)
  then show ?thesis unfolding sorted_rules_def map_map by (intro map_idI) simp
qed

lemma sorted_rules_map_of:
  assumes c: "consistent rs"
    and xs: "set xs = set (sorted_rules rs)" "distinct (map rr_owner xs)"
  shows "map_of (map (\<lambda>r. (rr_owner r, r)) xs) = get_rule rs"
proof
  fix k
  show "map_of (map (\<lambda>r. (rr_owner r, r)) xs) k = get_rule rs k"
  proof (cases "get_rule rs k")
    case None
    then have "k \<notin> rr_owner ` set xs"
      using consistent_owner [OF c] set_sorted_rules [of _ rs] xs(1) by fastforce
    with None show ?thesis by (simp add: map_of_eq_None_iff image_image)
  next
    case (Some r)
    then have "r \<in> set xs" "rr_owner r = k"
      using consistent_owner [OF c Some] set_sorted_rules [of r rs] xs(1) by auto
    then have "(k, r) \<in> set (map (\<lambda>r. (rr_owner r, r)) xs)" by auto
    moreover have "distinct (map fst (map (\<lambda>r. (rr_owner r, r)) xs))" using xs(2) by (simp add: comp_def)
    ultimately show ?thesis using Some by (simp only: map_of_is_SomeI)
  qed
qed

lemma block_lines_no_newline:
  assumes "printable r" and "l \<in> set (hosts_block r) \<union> set (rewrite_block r)"
  shows "newline \<notin> set l"
proof -
  have v: "valid_rule r" and o: "newline \<notin> set (rr_owner r)"
    using assms(1) by (auto simp: printable_def owner_ok_def)
  note f = word_ok_newline [OF valid_from_word [OF v]] and t = word_ok_newline [OF valid_to_word [OF v]]
  have "newline \<notin> set (rewrite_line r)"
    using f t by (auto simp: rewrite_line_def replace_all_def split: if_splits)
  with assms(2) o f t show ?thesis by (auto simp: hosts_block_def rewrite_block_def)
qed

lemma file_lines_no_newline:
  assumes "rule_set_wf rs" and "l \<in> set (file_lines rs)"
  shows "newline \<notin> set l"
proof -
  have p: "printable r" if "r \<in> set (sorted_rules rs)" for r
    using that assms(1) by (auto simp: set_sorted_rules rule_set_wf_def)
  have "newline \<notin> set hosts_open" "newline \<notin> set hosts_ttl" "newline \<notin> set hosts_fallthrough"
    "newline \<notin> set hosts_close"
    by (simp_all add: hosts_open_def hosts_ttl_def hosts_fallthrough_def hosts_close_def)
  with assms(2) p block_lines_no_newline show ?thesis
    unfolding file_lines_def ip_rules_def name_rules_def
    by (auto split: if_splits)
qed

context go_lib
begin

lemma rule_set_lines_eq: "rule_set_lines L rs = file_lines rs"
proof -
  let ?m = "rules_by_owner rs" and ?ks = "sorted_list_of_fset (fmdom (rules_by_owner rs))"
  have k: "\<forall>k \<in> set ?ks. fmlookup ?m k \<noteq> None" using sorted_keys_present by blast
  show ?thesis
    unfolding rule_set_lines_def Let_def sort_keys hosts_loop_eq [OF k refl] rewrite_loop_eq [OF k]
      file_lines_def ip_rules_def name_rules_def sorted_rules_def
    by simp
qed

end

section \<open>Round trip and soundness\<close>

lemma parse_entry_printable:
  assumes "parse_entry i l ls hh = Inr (r, rest)"
  shows "printable r"
proof -
  from assms obtain k f t where "header_group owner_header l = Some k"
    and n: "new_rewrite_rule k f t = Inr r"
    by (auto simp: parse_entry_def split: option.splits list.splits if_splits sum.splits)
  moreover have "rr_owner r = k" "valid_rule r" using new_rewrite_rule_Inr [OF n] by auto
  ultimately show ?thesis by (simp add: printable_def header_group_Some)
qed

context go_lib
begin

lemma parse_file_lines:
  assumes "\<forall>r \<in> set (sorted_rules rs). printable r"
  shows "parse_lines L 0 (file_lines rs) False s = rules.put_all s (ip_rules rs @ name_rules rs)"
proof -
  have ips: "\<forall>r \<in> set (ip_rules rs). printable r" and names: "\<forall>r \<in> set (name_rules rs). printable r"
    using assms by (auto simp: ip_rules_def name_rules_def)
  have close: "parse_lines L i (hosts_ttl # hosts_fallthrough # hosts_close # ls) True s' =
      parse_lines L (i + 3) ls False s'" for i ls s'
    by (simp add: hosts_ttl_def hosts_open_def)
  have tail: "parse_lines L i (concat (map rewrite_block (name_rules rs))) False s' =
      rules.put_all s' (name_rules rs)" for i s'
    using parse_rewrite_blocks [OF names, of i "[]" s'] by (auto split: sum.splits)
  show ?thesis
  proof (cases "ip_rules rs = []")
    case True
    then show ?thesis by (simp add: file_lines_def tail)
  next
    case False
    then show ?thesis
      by (simp add: file_lines_def parse_hosts_blocks [OF ips] close tail rules.put_all_append
          split: sum.splits)
  qed
qed

lemma put_all_file:
  assumes wf: "rule_set_wf rs"
  shows "rules.put_all new_rewrite_rule_set (ip_rules rs @ name_rules rs) = Inr rs"
proof -
  let ?xs = "ip_rules rs @ name_rules rs"
  have c: "consistent rs" using wf by (simp add: rule_set_wf_def)
  have st: "set ?xs = set (sorted_rules rs)" by (auto simp: ip_rules_def name_rules_def)
  have "distinct (map rr_owner (sorted_rules rs))"
    by (simp add: sorted_rules_owners [OF c] sorted_list_of_fset.rep_eq)
  then have "inj_on rr_owner (set (sorted_rules rs))" "distinct (sorted_rules rs)"
    by (simp_all add: distinct_map)
  then have d: "distinct (map rr_owner ?xs)"
    unfolding distinct_map st by (auto simp: ip_rules_def name_rules_def)
  have "rules.compatible new_rewrite_rule_set ?xs"
    unfolding rules.compatible_def st using d set_sorted_rules consistent_clash [OF c]
      consistent_owner [OF c]
    by (auto simp: get_rule_def new_rewrite_rule_set_def)
  from rules.put_all_compatible [OF consistent_empty this] obtain s' where
    s': "rules.put_all new_rewrite_rule_set ?xs = Inr s'"
    "get_rule s' = get_rule new_rewrite_rule_set ++ map_of (map (\<lambda>r. (rr_owner r, r)) ?xs)"
    by blast
  have "get_rule new_rewrite_rule_set = Map.empty"
    by (simp add: get_rule_def new_rewrite_rule_set_def fun_eq_iff)
  with s'(2) sorted_rules_map_of [OF c st d] have "get_rule s' = get_rule rs" by simp
  with s'(1) show ?thesis by (simp add: rule_set_eqI [of s' rs])
qed

lemma parse_string:
  assumes wf: "rule_set_wf rs"
  shows "parse_rewrite_rule_set L (rule_set_string L rs) = Inr rs"
proof -
  have p: "\<forall>r \<in> set (sorted_rules rs). printable r"
    using wf by (auto simp: set_sorted_rules rule_set_wf_def)
  note all = parse_file_lines [OF p, of new_rewrite_rule_set, unfolded put_all_file [OF wf]]
  show ?thesis
  proof (cases "file_lines rs = []")
    case True
    with all show ?thesis by (simp add: rule_set_string_def rule_set_lines_eq parse_rewrite_rule_set_def)
  next
    case False
    have "join_with newline (file_lines rs) \<noteq> []"
      using False by (cases "name_rules rs")
        (auto simp: join_with_eq_Nil file_lines_def hosts_open_def rewrite_block_def split: if_splits)
    moreover have "split_on newline (join_with newline (file_lines rs)) = file_lines rs"
      using split_join [OF False] file_lines_no_newline [OF wf] by blast
    ultimately show ?thesis
      using all by (simp add: rule_set_string_def rule_set_lines_eq parse_rewrite_rule_set_def)
  qed
qed

lemma add_rule_wf:
  assumes wf: "rule_set_wf rs" and p: "printable r" and a: "add_rule L rs r = (Inr ch, rs')"
  shows "rule_set_wf rs'"
  using add_rule_ok [OF _ a] wf p by (auto simp: rule_set_wf_def)

lemma parse_lines_wf:
  "rule_set_wf rs \<Longrightarrow> parse_lines L i ls hh rs = Inr rs' \<Longrightarrow> rule_set_wf rs'"
proof (induction "length ls" arbitrary: i ls hh rs rule: less_induct)
  case less
  show ?case
  proof (cases ls)
    case Nil
    with less.prems show ?thesis by simp
  next
    case (Cons l ls')
    note eq = less.prems(2) [unfolded Cons parse_lines.simps(2)]
    consider (hosts_begin) "l = hosts_open \<and> \<not> hh"
      | (hosts_end) "\<not> (l = hosts_open \<and> \<not> hh)"
        "2 \<le> length ls' \<and> l = hosts_ttl \<and> ls' ! 0 = hosts_fallthrough \<and> ls' ! 1 = hosts_close"
      | (entry) "\<not> (l = hosts_open \<and> \<not> hh)"
        "\<not> (2 \<le> length ls' \<and> l = hosts_ttl \<and> ls' ! 0 = hosts_fallthrough \<and> ls' ! 1 = hosts_close)"
      by blast
    then show ?thesis
    proof cases
      case hosts_begin
      with eq have "parse_lines L (i + 1) ls' True rs = Inr rs'" by simp
      from less.hyps [OF _ less.prems(1) this] show ?thesis by (simp add: Cons)
    next
      case hosts_end
      have "parse_lines L (i + 3) (drop 2 ls') False rs = Inr rs'"
        using eq unfolding if_not_P [OF hosts_end(1)] if_P [OF hosts_end(2)] .
      from less.hyps [OF _ less.prems(1) this] show ?thesis by (simp add: Cons)
    next
      case entry
      note eq' = eq [unfolded if_not_P [OF entry(1)] if_not_P [OF entry(2)]]
      then obtain r rest where e: "parse_entry i l ls' hh = Inr (r, rest)"
        by (auto split: sum.splits)
      with eq' obtain ch rs1 where a: "add_rule L rs r = (Inr ch, rs1)"
        and p: "parse_lines L (i + 4) rest hh rs1 = Inr rs'"
        by (auto split: sum.splits prod.splits)
      from add_rule_wf [OF less.prems(1) parse_entry_printable [OF e] a]
      have "rule_set_wf rs1" .
      from less.hyps [OF _ this p] parse_entry_rest [OF e] show ?thesis by (simp add: Cons)
    qed
  qed
qed

lemma parse_wf: "parse_rewrite_rule_set L s = Inr rs \<Longrightarrow> rule_set_wf rs"
proof -
  have e: "rule_set_wf new_rewrite_rule_set"
    using consistent_empty by (simp add: rule_set_wf_def get_rule_def new_rewrite_rule_set_def)
  assume "parse_rewrite_rule_set L s = Inr rs"
  with e parse_lines_wf [OF e] show ?thesis
    by (auto simp: parse_rewrite_rule_set_def split: if_splits)
qed

end

end
