(* ===== verification/Rewrite_Properties.thy ===== *)
theory Rewrite_Properties
  imports Rewrite_File
begin

text \<open>
  The properties of rule sets and of their file format, over any library that keeps the laws of
  \<open>go_lib\<close>, with a concrete set of two rules on which they are evaluated.
\<close>

section \<open>Files of given rules\<close>

lemma get_rule_empty [simp]: "get_rule new_rewrite_rule_set k = None"
  by (simp add: get_rule_def new_rewrite_rule_set_def)

lemma rule_set_wf_empty: "rule_set_wf new_rewrite_rule_set"
  using consistent_empty by (simp add: rule_set_wf_def)

definition rules_file :: "rewrite_rule list \<Rightarrow> string list" where
  "rules_file xs = concat (map rewrite_block xs)"

lemma rules_file_no_newline:
  "\<forall>r \<in> set xs. printable r \<Longrightarrow> l \<in> set (rules_file xs) \<Longrightarrow> newline \<notin> set l"
  using block_lines_no_newline by (auto simp: rules_file_def)

lemma parse_joined:
  assumes "ls \<noteq> []" and "\<forall>l \<in> set ls. newline \<notin> set l" and "hd ls \<noteq> []"
  shows "parse_rewrite_rule_set L (join_with newline ls) = parse_lines L 0 ls False new_rewrite_rule_set"
proof -
  have "join_with newline ls \<noteq> []" using assms(1,3) by (auto simp: join_with_eq_Nil)
  with split_join [OF assms(1,2)] show ?thesis by (simp add: parse_rewrite_rule_set_def)
qed

lemma rules_file_hd: "xs \<noteq> [] \<Longrightarrow> rules_file xs \<noteq> [] \<and> hd (rules_file xs) \<noteq> []"
  by (cases xs) (auto simp: rules_file_def rewrite_block_def)

context go_lib
begin

lemma parse_rules_file:
  assumes "\<forall>r \<in> set xs. printable r"
  shows "parse_rewrite_rule_set L (join_with newline (rules_file xs)) =
    rules.put_all new_rewrite_rule_set xs"
proof (cases "xs = []")
  case True
  then show ?thesis by (simp add: rules_file_def parse_rewrite_rule_set_def)
next
  case False
  with rules_file_hd parse_joined rules_file_no_newline [OF assms]
  have "parse_rewrite_rule_set L (join_with newline (rules_file xs)) =
    parse_lines L 0 (rules_file xs) False new_rewrite_rule_set" by blast
  with parse_rewrite_blocks [OF assms, of 0 "[]"] show ?thesis
    by (simp add: rules_file_def split: sum.splits)
qed

lemma file_accepted:
  assumes "\<forall>r \<in> set xs. printable r" and d: "distinct (map rr_owner xs)"
  shows "is_ok (parse_rewrite_rule_set L (join_with newline (rules_file xs))) \<longleftrightarrow>
    (\<forall>r \<in> set xs. \<forall>t \<in> set xs. rr_owner r \<noteq> rr_owner t \<longrightarrow> \<not> clash t r)"
  unfolding parse_rules_file [OF assms(1)] is_ok_iff rules.put_all_iff [OF consistent_empty d, simplified]
  using d by (simp add: rules.compatible_def)

lemma parse_truncated:
  assumes xs: "\<forall>r \<in> set xs. printable r" and r: "printable r" and n: "0 < n" "n < 4"
  shows "\<exists>e. parse_rewrite_rule_set L
      (join_with newline (rules_file xs @ take n (rewrite_block r))) = Inl e"
proof -
  let ?ls = "rules_file xs @ take n (rewrite_block r)"
  have w: "\<forall>c \<in> set []. is_space c" by simp
  note h = printable_headers [OF r w, simplified]
  obtain b bs where b: "take n (rewrite_block r) = b # bs" "b \<noteq> []"
    using n by (cases n) (auto simp: rewrite_block_def)
  have "hd ?ls \<noteq> []" using rules_file_hd [of xs] b
    by (cases "xs = []") (simp_all add: rules_file_def hd_append)
  moreover have "newline \<notin> set l" if "l \<in> set ?ls" for l
    using that rules_file_no_newline [OF xs] block_lines_no_newline [OF r] in_set_takeD [of l n]
    by (auto simp only: set_append Un_iff)
  moreover have "?ls \<noteq> []" using b by simp
  ultimately have "parse_rewrite_rule_set L (join_with newline ?ls) =
      parse_lines L 0 ?ls False new_rewrite_rule_set" using parse_joined by blast
  moreover have "parse_lines L i (take n (rewrite_block r)) False rs = Inl err_eof" for i rs
  proof -
    from n consider "n = 1" | "n = 2" | "n = 3" by linarith
    then show ?thesis
      by cases (simp_all add: rewrite_block_def parse_entry_def h hosts_open_def hosts_ttl_def)
  qed
  ultimately show ?thesis
    using parse_rewrite_blocks [OF xs, of 0] by (simp add: rules_file_def split: sum.splits)
qed

end

section \<open>Histories of a set\<close>

text \<open>
  The sets that the exported functions build: start with the empty set, or with what the
  parser returns, add rules that were built by \<open>new_rewrite_rule\<close> for a writable owner, remove.
\<close>

inductive rule_set_built :: "lib \<Rightarrow> rewrite_rule_set \<Rightarrow> bool" for L :: lib where
  built_new: "rule_set_built L new_rewrite_rule_set"
| built_parse: "parse_rewrite_rule_set L s = Inr rs \<Longrightarrow> rule_set_built L rs"
| built_add: "rule_set_built L rs \<Longrightarrow> owner_ok owner \<Longrightarrow> new_rewrite_rule owner frm to = Inr r \<Longrightarrow>
    add_rule L rs r = (res, rs') \<Longrightarrow> rule_set_built L rs'"
| built_remove: "rule_set_built L rs \<Longrightarrow> remove_rule rs k = (b, rs') \<Longrightarrow> rule_set_built L rs'"

lemma remove_rule_wf:
  assumes "rule_set_wf rs" and "remove_rule rs k = (b, rs')"
  shows "rule_set_wf rs'"
  using remove_rule_spec [OF _ assms(2)] assms(1) by (auto simp: rule_set_wf_def split: if_splits)

lemma new_rewrite_rule_printable:
  "owner_ok owner \<Longrightarrow> new_rewrite_rule owner frm to = Inr r \<Longrightarrow> printable r"
  using new_rewrite_rule_Inr [of owner frm to r] by (auto simp: printable_def)

context go_lib
begin

lemma built_wf: "rule_set_built L rs \<Longrightarrow> rule_set_wf rs"
proof (induction rule: rule_set_built.induct)
  case built_new
  then show ?case by (rule rule_set_wf_empty)
next
  case (built_parse s rs)
  then show ?case by (rule parse_wf)
next
  case (built_add rs owner frm to r res rs')
  show ?case
  proof (cases res)
    case (Inl e)
    with built_add add_rule_error [of rs r e rs'] show ?thesis by (simp add: rule_set_wf_def)
  next
    case (Inr ch)
    with built_add new_rewrite_rule_printable add_rule_wf show ?thesis by blast
  qed
next
  case (built_remove rs k b rs')
  then show ?case using remove_rule_wf by blast
qed

lemma find_matching_loop_sound:
  "find_matching_loop m h ks = Some r \<Longrightarrow> \<exists>k. fmlookup m k = Some r \<and> rule_matches r h"
  by (induction ks) (auto split: option.splits if_splits)

lemma find_matching_loop_complete:
  "find_matching_loop m h ks = None \<Longrightarrow> k \<in> set ks \<Longrightarrow> fmlookup m k = Some r \<Longrightarrow> \<not> rule_matches r h"
  by (induction ks) (auto split: option.splits if_splits)

lemma find_matching_sound:
  "find_matching_rule L rs h = Some r \<Longrightarrow> \<exists>k. get_rule rs k = Some r \<and> rule_matches r h"
  unfolding find_matching_rule_def get_rule_def by (rule find_matching_loop_sound)

lemma find_matching_complete:
  assumes "find_matching_rule L rs h = None" and "get_rule rs k = Some r"
  shows "\<not> rule_matches r h"
proof (rule find_matching_loop_complete)
  show "find_matching_loop (rules_by_owner rs) h (range_order L (fmdom (rules_by_owner rs))) = None"
    using assms(1) by (simp add: find_matching_rule_def)
  show "fmlookup (rules_by_owner rs) k = Some r" using assms(2) by (simp add: get_rule_def)
  then show "k \<in> set (range_order L (fmdom (rules_by_owner rs)))" by (simp add: range_set fmdomI)
qed

lemma add_remove:
  "consistent rs \<Longrightarrow> get_rule rs (rr_owner r) = None \<Longrightarrow> add_rule L rs r = (Inr ch, rs') \<Longrightarrow>
    remove_rule rs' (rr_owner r) = (True, rs)"
  by (rule rules.put_del)

lemma matching_unique:
  "consistent rs \<Longrightarrow> get_rule rs k = Some r \<Longrightarrow> get_rule rs l = Some t \<Longrightarrow>
    rule_matches r h \<Longrightarrow> rule_matches t h \<Longrightarrow> k = l"
  using consistent_clash matching_clash by blast

end

section \<open>A concrete set\<close>

definition demo_ip :: rewrite_rule where
  "demo_ip = \<lparr>rr_owner = ''1 (ns/a)'', rr_from = ''db.org'', rr_to = ''10.0.0.7''\<rparr>"

definition demo_name :: rewrite_rule where
  "demo_name = \<lparr>rr_owner = ''2 (ns/b)'', rr_from = ''*.apps.org'', rr_to = ''gw.local''\<rparr>"

definition demo_set :: rewrite_rule_set where
  "demo_set = \<lparr>rules_by_owner =
     fmupd ''2 (ns/b)'' demo_name (fmupd ''1 (ns/a)'' demo_ip fmempty)\<rparr>"

lemma demo_printable: "printable demo_ip" "printable demo_name"
  by code_simp+

lemma demo_no_clash: "\<not> clash demo_ip demo_name" "\<not> clash demo_name demo_ip"
  by code_simp+

lemma demo_get:
  "get_rule demo_set =
    (\<lambda>k. if k = ''2 (ns/b)'' then Some demo_name else if k = ''1 (ns/a)'' then Some demo_ip else None)"
  by (auto simp: get_rule_def demo_set_def)

lemma demo_nonempty: "demo_set \<noteq> new_rewrite_rule_set"
proof
  assume "demo_set = new_rewrite_rule_set"
  then have "get_rule demo_set ''1 (ns/a)'' = get_rule new_rewrite_rule_set ''1 (ns/a)''"
    by (rule arg_cong)
  then show False unfolding demo_get get_rule_empty by simp
qed

lemma demo_owners: "rr_owner demo_ip = ''1 (ns/a)''" "rr_owner demo_name = ''2 (ns/b)''"
  by (simp_all add: demo_ip_def demo_name_def)

lemma demo_wf: "rule_set_wf demo_set"
  using demo_no_clash demo_printable
  by (auto simp: rule_set_wf_def consistent_def demo_get demo_owners split: if_splits)

lemma demo_consistent: "consistent demo_set"
  using demo_wf by (simp add: rule_set_wf_def)

section \<open>Properties\<close>

text \<open>
  C1: what \<open>String\<close> writes, \<open>ParseRewriteRuleSet\<close> reads back: for every set that keeps the
  guarantee and whose owners are writable, parsing the written text gives the same set.
\<close>

theorem string_parse_roundtrip:
  assumes "go_lib L" and "rule_set_wf rs"
  shows "parse_rewrite_rule_set L (rule_set_string L rs) = Inr rs"
  using assms by (rule go_lib.parse_string)

theorem string_parse_roundtrip_witness:
  "parse_rewrite_rule_set std_lib (rule_set_string std_lib demo_set) = Inr demo_set"
  by (rule string_parse_roundtrip [OF std.go_lib_axioms demo_wf])

text \<open>
  C2: whatever text the parser accepts, its result keeps the guarantee of \<open>NewRewriteRuleSet\<close>:
  every rule is stored under its owner and passes \<open>NewRewriteRule\<close>, no two rules of different
  owners match one another's source; and written again, the set survives.
\<close>

theorem parse_sound:
  assumes "go_lib L" and "parse_rewrite_rule_set L s = Inr rs"
  shows "(\<forall>k r. get_rule rs k = Some r \<longrightarrow>
       rr_owner r = k \<and> new_rewrite_rule k (rr_from r) (rr_to r) = Inr r) \<and>
    (\<forall>k l r t. get_rule rs k = Some r \<longrightarrow> get_rule rs l = Some t \<longrightarrow> k \<noteq> l \<longrightarrow>
       \<not> rule_matches r (rr_from t) \<and> \<not> rule_matches t (rr_from r)) \<and>
    parse_rewrite_rule_set L (rule_set_string L rs) = Inr rs"
proof -
  from go_lib.parse_wf [OF assms] have wf: "rule_set_wf rs" .
  then have "\<forall>k r. get_rule rs k = Some r \<longrightarrow>
      rr_owner r = k \<and> new_rewrite_rule k (rr_from r) (rr_to r) = Inr r"
    using consistent_owner by (fastforce simp: rule_set_wf_def printable_def valid_rule_def)
  with wf consistent_clash [of rs] go_lib.parse_string [OF assms(1) wf] show ?thesis
    by (auto simp: rule_set_wf_def clash_def)
qed

theorem parse_sound_witness:
  "get_rule demo_set ''1 (ns/a)'' = Some demo_ip \<and> rr_owner demo_ip = ''1 (ns/a)''"
proof -
  note p = go_lib.parse_string [OF std.go_lib_axioms demo_wf]
  have "get_rule demo_set ''1 (ns/a)'' = Some demo_ip" by (simp add: demo_get)
  with parse_sound [OF std.go_lib_axioms p, THEN conjunct1] show ?thesis by blast
qed

text \<open>
  C3: the text determines the set and does not depend on the order in which Go happens to visit
  the map: two libraries that keep the laws write the same text exactly for equal sets.
\<close>

theorem string_canonical:
  assumes "go_lib L" and "go_lib L'" and "rule_set_wf rs" and "rule_set_wf rs'"
  shows "rule_set_string L rs = rule_set_string L' rs' \<longleftrightarrow> rs = rs'"
proof -
  have same: "rule_set_string L rs' = rule_set_string L' rs'"
    using go_lib.rule_set_lines_eq [OF assms(1)] go_lib.rule_set_lines_eq [OF assms(2)]
    by (simp add: rule_set_string_def)
  show ?thesis
    using go_lib.parse_string [OF assms(1,3)] go_lib.parse_string [OF assms(1,4)] same
    by (metis sum.inject(2))
qed

theorem string_canonical_witness:
  "rule_set_string std_lib demo_set \<noteq> rule_set_string std_lib new_rewrite_rule_set"
  using string_canonical [OF std.go_lib_axioms std.go_lib_axioms demo_wf rule_set_wf_empty]
    demo_nonempty by blast

text \<open>
  C4: \<open>AddRule\<close> on a set that keeps the guarantee. It fails exactly when a rule of another owner
  clashes, and then leaves the set as it is; otherwise it stores the rule under its owner,
  touches no other rule, keeps the guarantee, and reports whether anything changed.
\<close>

theorem add_rule_correct:
  assumes "go_lib L" and "consistent rs"
  shows "case add_rule L rs r of
      (Inl e, rs') \<Rightarrow> rs' = rs \<and> (\<exists>k t. get_rule rs k = Some t \<and> k \<noteq> rr_owner r \<and> clash t r)
    | (Inr changed, rs') \<Rightarrow>
        consistent rs' \<and> get_rule rs' = (get_rule rs)(rr_owner r := Some r) \<and>
        (changed \<longleftrightarrow> get_rule rs (rr_owner r) \<noteq> Some r) \<and>
        \<not> (\<exists>k t. get_rule rs k = Some t \<and> k \<noteq> rr_owner r \<and> clash t r)"
proof (cases "add_rule L rs r")
  case (Pair res rs')
  show ?thesis
  proof (cases res)
    case (Inl e)
    with go_lib.add_rule_error [OF assms, of r e rs'] Pair show ?thesis by simp
  next
    case (Inr ch)
    with go_lib.add_rule_ok [OF assms, of r ch rs'] Pair show ?thesis by auto
  qed
qed

theorem add_rule_correct_witness:
  "\<exists>e. add_rule std_lib demo_set (demo_name\<lparr>rr_owner := ''3 (ns/c)''\<rparr>) = (Inl e, demo_set)"
proof -
  let ?r = "demo_name\<lparr>rr_owner := ''3 (ns/c)''\<rparr>"
  have "get_rule demo_set ''2 (ns/b)'' = Some demo_name" by (simp add: demo_get)
  moreover have "clash demo_name ?r" by code_simp
  ultimately show ?thesis
    using add_rule_correct [OF std.go_lib_axioms demo_consistent, of ?r]
    by (fastforce split: prod.splits sum.splits)
qed

text \<open>
  C5: \<open>RemoveRule\<close> removes the rule of the owner and nothing else, keeps the guarantee, and
  reports whether there was one; adding a rule for a new owner and removing it again gives the
  set back.
\<close>

theorem remove_rule_correct:
  assumes "go_lib L" and "consistent rs"
  shows "(case remove_rule rs k of (b, rs') \<Rightarrow>
      consistent rs' \<and> get_rule rs' = (get_rule rs)(k := None) \<and> (b \<longleftrightarrow> get_rule rs k \<noteq> None)) \<and>
    (\<forall>r ch rs'. get_rule rs (rr_owner r) = None \<longrightarrow> add_rule L rs r = (Inr ch, rs') \<longrightarrow>
      remove_rule rs' (rr_owner r) = (True, rs))"
  using remove_rule_spec [OF assms(2)] go_lib.add_remove [OF assms] by (simp split: prod.splits)

theorem remove_rule_correct_witness:
  "get_rule (snd (remove_rule demo_set ''1 (ns/a)'')) = [''2 (ns/b)'' \<mapsto> demo_name]"
  using remove_rule_correct [OF std.go_lib_axioms demo_consistent, of "''1 (ns/a)''"]
  by (auto simp: demo_get fun_eq_iff split: prod.splits)

text \<open>
  C6: the guarantee in the comment of \<open>NewRewriteRuleSet\<close>, for every history of parsing, adding
  for owners that can be written, and removing: at most one owner has a rule for a host, and the set can be written and read.
\<close>

theorem built_set_consistent:
  assumes "go_lib L" and "rule_set_built L rs"
  shows "(\<forall>k l r t host. get_rule rs k = Some r \<longrightarrow> get_rule rs l = Some t \<longrightarrow>
      rule_matches r host \<longrightarrow> rule_matches t host \<longrightarrow> k = l) \<and>
    parse_rewrite_rule_set L (rule_set_string L rs) = Inr rs"
proof -
  from go_lib.built_wf [OF assms] have wf: "rule_set_wf rs" .
  then have "consistent rs" by (simp add: rule_set_wf_def)
  from go_lib.matching_unique [OF assms(1) this] go_lib.parse_string [OF assms(1) wf]
  show ?thesis by blast
qed

theorem built_set_consistent_witness:
  "parse_rewrite_rule_set std_lib (rule_set_string std_lib
      (snd (remove_rule demo_set ''1 (ns/a)''))) = Inr (snd (remove_rule demo_set ''1 (ns/a)''))"
proof -
  note p = go_lib.parse_string [OF std.go_lib_axioms demo_wf]
  obtain b rs where r: "remove_rule demo_set ''1 (ns/a)'' = (b, rs)" by fastforce
  have "rule_set_built std_lib rs"
    by (rule rule_set_built.built_remove [OF rule_set_built.built_parse [OF p] r])
  from built_set_consistent [OF std.go_lib_axioms this] r show ?thesis by simp
qed

text \<open>
  C7: \<open>FindMatchingRule\<close> returns the rule that matches the host and nil exactly when there is
  none, whatever the order in which the map is visited.
\<close>

theorem find_matching_rule_correct:
  assumes "go_lib L" and "consistent rs"
  shows "find_matching_rule L rs host = Some r \<longleftrightarrow>
    (\<exists>k. get_rule rs k = Some r \<and> rule_matches r host)"
proof
  assume "find_matching_rule L rs host = Some r"
  then show "\<exists>k. get_rule rs k = Some r \<and> rule_matches r host"
    by (rule go_lib.find_matching_sound [OF assms(1)])
next
  assume "\<exists>k. get_rule rs k = Some r \<and> rule_matches r host"
  then obtain k where k: "get_rule rs k = Some r" and m: "rule_matches r host" by blast
  from go_lib.find_matching_complete [OF assms(1) _ k] m
  obtain t where t: "find_matching_rule L rs host = Some t" by (metis option.exhaust)
  from go_lib.find_matching_sound [OF assms(1) t] obtain l where
    "get_rule rs l = Some t" "rule_matches t host" by blast
  with go_lib.matching_unique [OF assms k _ m] k t show "find_matching_rule L rs host = Some r"
    by fastforce
qed

theorem find_matching_rule_correct_witness:
  "find_matching_rule std_lib demo_set ''x.apps.org'' = Some demo_name"
proof -
  have "get_rule demo_set ''2 (ns/b)'' = Some demo_name" by (simp add: demo_get)
  moreover have "rule_matches demo_name ''x.apps.org''" by code_simp
  ultimately show ?thesis
    using find_matching_rule_correct [OF std.go_lib_axioms demo_consistent] by blast
qed

text \<open>
  C8: a file that consists of the \<^verbatim>\<open>rewrite\<close> blocks of given rules that can be written, with distinct owners, is accepted exactly when
  no two of the rules clash.
\<close>

theorem parse_rejects_clashes:
  assumes "go_lib L" and "\<forall>r \<in> set xs. printable r" and "distinct (map rr_owner xs)"
  shows "is_ok (parse_rewrite_rule_set L (join_with newline (rules_file xs))) \<longleftrightarrow>
    (\<forall>r \<in> set xs. \<forall>t \<in> set xs. r \<noteq> t \<longrightarrow> \<not> clash r t)"
proof -
  have "r \<noteq> t \<longleftrightarrow> rr_owner r \<noteq> rr_owner t" if "r \<in> set xs" "t \<in> set xs" for r t
    using that assms(3) by (auto simp: distinct_map inj_on_def)
  then show ?thesis
    using go_lib.file_accepted [OF assms] by (auto simp: clash_sym)
qed

theorem parse_rejects_clashes_witness:
  "\<not> is_ok (parse_rewrite_rule_set std_lib
      (join_with newline (rules_file [demo_name, demo_name\<lparr>rr_owner := ''3 (ns/c)''\<rparr>])))"
proof -
  let ?r = "demo_name\<lparr>rr_owner := ''3 (ns/c)''\<rparr>"
  have p: "\<forall>r \<in> set [demo_name, ?r]. printable r" by code_simp
  have d: "distinct (map rr_owner [demo_name, ?r])" by (simp add: demo_name_def)
  have "clash demo_name ?r" by code_simp
  moreover have "demo_name \<noteq> ?r" by (simp add: demo_name_def)
  ultimately show ?thesis
    using parse_rejects_clashes [OF std.go_lib_axioms p d] by auto
qed

text \<open>
  A file that ends inside the block of a rule is rejected, after any number of complete
  blocks: no truncated rule is dropped silently.
\<close>

lemma parse_rejects_truncated:
  assumes "go_lib L" and "\<forall>r \<in> set xs. printable r" and "printable r" and "0 < n" and "n < 4"
  shows "\<not> is_ok (parse_rewrite_rule_set L
      (join_with newline (rules_file xs @ take n (rewrite_block r))))"
  using go_lib.parse_truncated [OF assms] by (auto simp: is_ok_def)

end
