(* ===== verification/Masq_Api.thy ===== *)
theory Masq_Api
  imports Dns_Name
begin

text \<open>
  \<^verbatim>\<open>api/v1alpha1\<close>: the custom resource \<open>masquerading_rule\<close> with its spec, status and
  conditions, the admission patterns of the schema, and \<open>set_state\<close> with the maintenance of
  the Ready condition (\<^verbatim>\<open>masqueradingrule_utils.go\<close>).

  Times are nanoseconds since an epoch; an absent or zero timestamp is \<^const>\<open>None\<close>. A nil
  annotation map is \<^const>\<open>None\<close>, because writing to it panics; a label map is only read, so
  nil and empty are the same there.
\<close>

type_synonym time = int

section \<open>Object metadata\<close>

record object_meta =
  om_name :: string
  om_namespace :: string
  om_generate_name :: string
  om_uid :: string
  om_resource_version :: string
  om_generation :: int
  om_deletion_timestamp :: "time option"
  om_finalizers :: "string list"
  om_labels :: "(string, string) fmap"
  om_annotations :: "(string, string) fmap option"

definition deletion_is_zero :: "object_meta \<Rightarrow> bool" where
  "deletion_is_zero m \<longleftrightarrow> om_deletion_timestamp m = None"

definition opt_index :: "(string, string) fmap option \<Rightarrow> string \<Rightarrow> string" where
  \<comment> \<open>\<open>m[k]\<close> for a map that may be nil\<close>
  "opt_index m k = (case m of None \<Rightarrow> [] | Some f \<Rightarrow> map_index f k)"

definition opt_lookup :: "(string, string) fmap option \<Rightarrow> string \<Rightarrow> string option" where
  \<comment> \<open>\<open>v, ok := m[k]\<close> for a map that may be nil\<close>
  "opt_lookup m k = (case m of None \<Rightarrow> None | Some f \<Rightarrow> fmlookup f k)"

lemma opt_index_simps [simp]:
  "opt_index None k = []" "opt_index (Some f) k = map_index f k"
  "opt_lookup None k = None" "opt_lookup (Some f) k = fmlookup f k"
  by (simp_all add: opt_index_def opt_lookup_def)

section \<open>The resource\<close>

text \<open>\<open>StateUnset\<close> is the empty string of a rule that was not reconciled yet.\<close>

datatype rule_state =
    StateUnset
  | StateNew
  | StateProcessing
  | StateDeletionBlocked
  | StateDeleting
  | StateReady
  | StateError

fun state_string :: "rule_state \<Rightarrow> string" where
  "state_string StateUnset = ''''"
| "state_string StateNew = ''New''"
| "state_string StateProcessing = ''Processing''"
| "state_string StateDeletionBlocked = ''DeletionBlocked''"
| "state_string StateDeleting = ''Deleting''"
| "state_string StateReady = ''Ready''"
| "state_string StateError = ''Error''"

datatype condition_status = ConditionTrue | ConditionFalse | ConditionUnknown

definition condition_type_ready :: string where "condition_type_ready = ''Ready''"

record rule_condition =
  rc_type :: string
  rc_status :: condition_status
  rc_last_update :: "time option"
  rc_last_transition :: "time option"
  rc_reason :: string
  rc_message :: string

record rule_spec =
  sp_from :: string
  sp_to :: string

record rule_status =
  st_observed_generation :: int
  st_conditions :: "rule_condition list"
  st_state :: rule_state

record masquerading_rule =
  mr_meta :: object_meta
  mr_spec :: rule_spec
  mr_status :: rule_status

section \<open>Admission patterns of the schema\<close>

text \<open>\<^verbatim>\<open>[a-z0-9]|[a-z0-9][a-z0-9-]*[a-z0-9]\<close>\<close>

definition crd_label :: regexp where
  "crd_label =
     Alt (Cls (In lower_alnum))
       (Seq (Cls (In lower_alnum))
         (Seq (Star (Cls (In (lower_alnum @ [(CHR ''-'', CHR ''-'')])))) (Cls (In lower_alnum))))"

definition crd_from_pattern :: regexp where
  "crd_from_pattern =
     Seq (Alt (chr CHR ''*'') crd_label) (Star (Seq (chr CHR ''.'') crd_label))"

definition crd_to_pattern :: regexp where
  "crd_to_pattern = Seq crd_label (Star (Seq (chr CHR ''.'') crd_label))"

section \<open>Setting the state\<close>

text \<open>\<open>get_condition\<close> returns a pointer into the slice, here the index.\<close>

fun get_condition :: "rule_condition list \<Rightarrow> string \<Rightarrow> nat option" where
  "get_condition [] ty = None"
| "get_condition (c # cs) ty =
     (if rc_type c = ty then Some 0 else map_option Suc (get_condition cs ty))"

definition set_condition ::
  "time \<Rightarrow> rule_condition list \<Rightarrow> string \<Rightarrow> condition_status \<Rightarrow> string \<Rightarrow> string \<Rightarrow>
    rule_condition list"
where
  "set_condition now cs ty status reason message =
     (case get_condition cs ty of
        None \<Rightarrow>
          cs @ [\<lparr>rc_type = ty, rc_status = status, rc_last_update = Some now,
                 rc_last_transition = Some now, rc_reason = reason, rc_message = message\<rparr>]
      | Some i \<Rightarrow>
          let cond = cs ! i;
              cond1 = (if rc_status cond \<noteq> status then cond\<lparr>rc_last_transition := Some now\<rparr> else cond)
          in cs[i := cond1\<lparr>rc_last_update := Some now, rc_status := status,
                           rc_reason := reason, rc_message := message\<rparr>])"

definition condition_status_of :: "rule_state \<Rightarrow> condition_status" where
  "condition_status_of state =
     (case state of StateReady \<Rightarrow> ConditionTrue | StateError \<Rightarrow> ConditionFalse
      | _ \<Rightarrow> ConditionUnknown)"

definition set_state ::
  "time \<Rightarrow> masquerading_rule \<Rightarrow> rule_state \<Rightarrow> string \<Rightarrow> masquerading_rule"
where
  "set_state now mr state message =
     mr\<lparr>mr_status := (mr_status mr)
       \<lparr>st_conditions := set_condition now (st_conditions (mr_status mr)) condition_type_ready
            (condition_status_of state) (state_string state) message,
        st_state := state\<rparr>\<rparr>"

section \<open>Lemmas on conditions\<close>

lemma get_condition_None: "get_condition cs ty = None \<longleftrightarrow> (\<forall>c \<in> set cs. rc_type c \<noteq> ty)"
  by (induction cs) auto

lemma get_condition_Some:
  "get_condition cs ty = Some j \<Longrightarrow>
    j < length cs \<and> rc_type (cs ! j) = ty \<and> (\<forall>k < j. rc_type (cs ! k) \<noteq> ty)"
proof (induction cs arbitrary: j)
  case (Cons c cs)
  then show ?case by (cases j) (auto simp: less_Suc_eq_0_disj split: if_splits)
qed simp

text \<open>A status as the code keeps it: one condition per type, Ready agreeing with the state.\<close>

definition conditions_ok :: "rule_status \<Rightarrow> bool" where
  "conditions_ok st \<longleftrightarrow>
     distinct (map rc_type (st_conditions st)) \<and>
     (\<forall>c \<in> set (st_conditions st). rc_type c = condition_type_ready \<longrightarrow>
        rc_status c = condition_status_of (st_state st) \<and>
        rc_reason c = state_string (st_state st))"

lemma set_condition_types:
  "map rc_type (set_condition now cs ty status reason msg) =
     (if \<exists>c \<in> set cs. rc_type c = ty then map rc_type cs else map rc_type cs @ [ty])"
proof (cases "get_condition cs ty")
  case None
  from None have "\<forall>c \<in> set cs. rc_type c \<noteq> ty" by (simp only: get_condition_None)
  with None show ?thesis by (auto simp: set_condition_def)
next
  case (Some j)
  from get_condition_Some [OF this] have j: "j < length cs" "rc_type (cs ! j) = ty" by auto
  then have "\<exists>c \<in> set cs. rc_type c = ty" using nth_mem by blast
  moreover have "(map rc_type cs)[j := ty] = map rc_type cs" using j by (metis list_update_id nth_map)
  ultimately show ?thesis using j by (simp add: set_condition_def Some Let_def map_update)
qed

lemma set_condition_other:
  assumes "rc_type c \<noteq> ty"
  shows "c \<in> set (set_condition now cs ty status reason msg) \<longleftrightarrow> c \<in> set cs"
proof (cases "get_condition cs ty")
  case None
  with assms show ?thesis by (auto simp: set_condition_def)
next
  case (Some j)
  from get_condition_Some [OF this] have j: "j < length cs" "rc_type (cs ! j) = ty" by auto
  with assms show ?thesis
    by (auto simp: set_condition_def Some Let_def in_set_conv_nth nth_list_update split: if_splits)
qed

lemma set_condition_hit:
  assumes "distinct (map rc_type cs)" and "c \<in> set (set_condition now cs ty status reason msg)"
    and "rc_type c = ty"
  shows "rc_status c = status \<and> rc_reason c = reason \<and> rc_message c = msg \<and>
    rc_last_update c = Some now \<and>
    (rc_last_transition c = Some now \<or>
     (\<exists>d \<in> set cs. rc_type d = ty \<and> rc_status d = status \<and>
        rc_last_transition c = rc_last_transition d))"
proof (cases "get_condition cs ty")
  case None
  with assms(2,3) have c: "c = \<lparr>rc_type = ty, rc_status = status, rc_last_update = Some now,
      rc_last_transition = Some now, rc_reason = reason, rc_message = msg\<rparr>"
    unfolding set_condition_def by (auto simp: get_condition_None)
  show ?thesis unfolding c by simp
next
  case (Some j)
  from get_condition_Some [OF this] have j: "j < length cs" "rc_type (cs ! j) = ty" by auto
  from assms(2) obtain k where k: "k < length cs"
    "c = set_condition now cs ty status reason msg ! k"
    by (auto simp: set_condition_def Some Let_def in_set_conv_nth)
  show ?thesis
  proof (cases "k = j")
    case True
    with k j show ?thesis by (auto simp: set_condition_def Some Let_def)
  next
    case False
    with k j have "c = cs ! k" by (simp add: set_condition_def Some Let_def)
    with assms(3) k(1) j have "map rc_type cs ! k = map rc_type cs ! j" by simp
    with assms(1) k(1) j(1) have "k = j" by (simp only: nth_eq_iff_index_eq length_map)
    with False show ?thesis by simp
  qed
qed

lemma set_state_conditions_ok:
  assumes "distinct (map rc_type (st_conditions (mr_status mr)))"
  shows "conditions_ok (mr_status (set_state now mr state msg))"
proof -
  let ?cs = "st_conditions (mr_status mr)"
  have "distinct (map rc_type (set_condition now ?cs condition_type_ready
      (condition_status_of state) (state_string state) msg))"
    using assms unfolding set_condition_types by auto
  with set_condition_hit [OF assms] show ?thesis
    by (auto simp: conditions_ok_def set_state_def)
qed

lemma set_state_simps [simp]:
  "st_state (mr_status (set_state now mr s msg)) = s"
  "mr_meta (set_state now mr s msg) = mr_meta mr"
  "mr_spec (set_state now mr s msg) = mr_spec mr"
  "st_observed_generation (mr_status (set_state now mr s msg)) =
     st_observed_generation (mr_status mr)"
  by (simp_all add: set_state_def)

section \<open>The schema and the validation of names\<close>

lemma crd_label_language:
  "p \<in> lang crd_label \<longleftrightarrow>
     p \<noteq> [] \<and> (\<forall>c \<in> set p. in_ranges lower_alnum c \<or> c = CHR ''-'') \<and>
     in_ranges lower_alnum (hd p) \<and> in_ranges lower_alnum (last p)"
proof
  assume "p \<in> lang crd_label"
  then show "p \<noteq> [] \<and> (\<forall>c \<in> set p. in_ranges lower_alnum c \<or> c = CHR ''-'') \<and>
     in_ranges lower_alnum (hd p) \<and> in_ranges lower_alnum (last p)"
    by (auto simp: crd_label_def kstar_class conc_iff)
next
  assume v: "p \<noteq> [] \<and> (\<forall>c \<in> set p. in_ranges lower_alnum c \<or> c = CHR ''-'') \<and>
     in_ranges lower_alnum (hd p) \<and> in_ranges lower_alnum (last p)"
  show "p \<in> lang crd_label"
  proof (cases "length p = 1")
    case True
    then obtain c where "p = [c]" by (auto simp: length_Suc_conv)
    with v show ?thesis by (auto simp: crd_label_def)
  next
    case False
    with v obtain c q d where p: "p = c # q @ [d]"
      by (metis append_butlast_last_id length_Cons list.exhaust list.size(3) One_nat_def)
    with v have q: "q \<in> lang (Star (Cls (In (lower_alnum @ [(CHR ''-'', CHR ''-'')]))))"
      by (auto simp: kstar_class)
    from v p have cd: "[c] \<in> lang (Cls (In lower_alnum))" "[d] \<in> lang (Cls (In lower_alnum))" by auto
    show ?thesis unfolding crd_label_def lang.simps(4,5)
      by (intro UnI2 concI [OF cd(1)] concI [OF q cd(2)]) (simp_all add: p)
  qed
qed

lemma valid_label_crd: "valid_label lower_alnum p \<longleftrightarrow> p \<in> lang crd_label \<and> length p \<le> 63"
  unfolding crd_label_language valid_label_def by (cases p) auto

lemma crd_to_language:
  "matches crd_to_pattern s \<longleftrightarrow> (\<forall>p \<in> set (split_on CHR ''.'' s). p \<in> lang crd_label)"
proof -
  have free: "CHR ''.'' \<notin> set u" if "u \<in> lang crd_label" for u
    using that by (auto simp: crd_label_language)
  show ?thesis using lang_sep_list [of crd_label "CHR ''.''" s, OF free]
    by (simp only: matches_lang crd_to_pattern_def)
qed

end
