(* ===== verification/Webhook.thy ===== *)
theory Webhook
  imports Masq_Api Rewrite_Rule
begin

text \<open>
  \<^verbatim>\<open>internal/webhooks\<close>: the admission webhook. Logging is left out; the admission warnings are
  nil in every case. A nil error is \<^const>\<open>None\<close>.
\<close>

definition webhook_validate :: "masquerading_rule \<Rightarrow> string option" where
  "webhook_validate mr =
     (case new_rewrite_rule '''' (sp_from (mr_spec mr)) (sp_to (mr_spec mr)) of
        Inl err \<Rightarrow> Some (''invalid rule specification: '' @ err)
      | Inr _ \<Rightarrow> None)"

definition validate_create :: "masquerading_rule \<Rightarrow> string option" where
  "validate_create mr = webhook_validate mr"

definition validate_update :: "masquerading_rule \<Rightarrow> masquerading_rule \<Rightarrow> string option" where
  "validate_update old mr = webhook_validate mr"

definition validate_delete :: "masquerading_rule \<Rightarrow> string option" where
  "validate_delete mr = None"

text \<open>The defaulter changes nothing and does not fail.\<close>

definition webhook_default :: "masquerading_rule \<Rightarrow> string option \<times> masquerading_rule" where
  "webhook_default mr = (None, mr)"

lemma webhook_validate_None:
  "webhook_validate mr = None \<longleftrightarrow>
     (\<forall>owner. \<exists>r. new_rewrite_rule owner (sp_from (mr_spec mr)) (sp_to (mr_spec mr)) = Inr r)"
  by (auto simp: webhook_validate_def new_rewrite_rule_def split: sum.splits if_splits)

end
