(* ===== verification/Api_Properties.thy ===== *)
theory Api_Properties
  imports Webhook
begin

text \<open>
  The properties of name validation, of the admission of rules by schema and webhook, and of the
  Ready condition.
\<close>

section \<open>The schema for sources\<close>

lemma crd_label_not_star: "t \<noteq> [] \<Longrightarrow> hd t = CHR ''*'' \<Longrightarrow> t \<notin> lang crd_label"
  by (auto simp: crd_label_language)

lemma dot_star_shape:
  "q \<in> lang (Star (Seq (chr CHR ''.'') r)) \<Longrightarrow> q = [] \<or> (\<exists>n. q = CHR ''.'' # n)"
  unfolding lang.simps
  by (induction rule: kstar.induct) (auto simp: conc_iff)

lemma crd_from_star:
  assumes "matches crd_from_pattern (CHR ''*'' # t)"
  shows "t = [] \<or> (\<exists>n. t = CHR ''.'' # n)"
proof -
  from assms obtain p q where pq: "CHR ''*'' # t = p @ q"
    and p: "p \<in> lang (Alt (chr CHR ''*'') crd_label)"
    and q: "q \<in> lang (Star (Seq (chr CHR ''.'') crd_label))"
    unfolding matches_lang crd_from_pattern_def lang.simps(4) conc_iff by blast
  have "p = ''*''"
  proof (cases p)
    case Nil
    with pq dot_star_shape [OF q] show ?thesis by auto
  next
    case (Cons c p')
    with pq have "c = CHR ''*''" by simp
    with crd_label_not_star [of p] Cons p show ?thesis by auto
  qed
  with pq dot_star_shape [OF q] show ?thesis by auto
qed

lemma rfc1123_tail: "rfc1123_name up (p @ CHR ''.'' # n) \<Longrightarrow> CHR ''.'' \<notin> set p \<Longrightarrow> rfc1123_name up n"
  by (simp add: rfc1123_name_def split_on_app)

lemma rfc1123_crd:
  "rfc1123_name False s \<longleftrightarrow>
    matches crd_to_pattern s \<and> length s \<le> 255 \<and> (\<forall>p \<in> set (split_on CHR ''.'' s). length p \<le> 63)"
  by (auto simp: rfc1123_name_def alnum_of_def crd_to_language valid_label_crd)

lemma new_rewrite_rule_accepts:
  "new_rewrite_rule owner frm to = Inr r \<Longrightarrow> rfc1123_name False (replace_wildcard frm)"
  by (auto simp: new_rewrite_rule_def check_dns_name_spec split: sum.splits if_splits)

section \<open>The Ready condition after a change of state\<close>

definition ready_condition :: "masquerading_rule \<Rightarrow> rule_condition option" where
  "ready_condition mr =
     find (\<lambda>c. rc_type c = condition_type_ready) (st_conditions (mr_status mr))"

lemma find_get_condition:
  "find (\<lambda>c. rc_type c = ty) cs = map_option (\<lambda>i. cs ! i) (get_condition cs ty)"
  by (induction cs) (auto simp: option.map_comp comp_def)

lemma get_condition_update:
  "get_condition cs ty = Some i \<Longrightarrow> rc_type c = ty \<Longrightarrow> get_condition (cs[i := c]) ty = Some i"
proof (induction cs arbitrary: i)
  case (Cons d cs)
  then show ?case by (cases i) (auto split: if_splits)
qed simp

lemma get_condition_append:
  "get_condition cs ty = None \<Longrightarrow> rc_type c = ty \<Longrightarrow> get_condition (cs @ [c]) ty = Some (length cs)"
  by (induction cs) (auto split: if_splits)

lemma ready_condition_set_state:
  "ready_condition (set_state now mr s msg) =
    Some \<lparr>rc_type = condition_type_ready, rc_status = condition_status_of s,
      rc_last_update = Some now,
      rc_last_transition =
        (case ready_condition mr of
           None \<Rightarrow> Some now
         | Some c \<Rightarrow> if rc_status c = condition_status_of s then rc_last_transition c else Some now),
      rc_reason = state_string s, rc_message = msg\<rparr>"
proof (cases "get_condition (st_conditions (mr_status mr)) condition_type_ready")
  case None
  then show ?thesis
    using get_condition_append [OF None]
    by (simp add: ready_condition_def find_get_condition set_state_def set_condition_def)
next
  case (Some i)
  from get_condition_Some [OF this] have i: "i < length (st_conditions (mr_status mr))"
    "rc_type (st_conditions (mr_status mr) ! i) = condition_type_ready" by auto
  with Some show ?thesis
    by (simp add: ready_condition_def find_get_condition set_state_def set_condition_def Let_def
        get_condition_update)
qed

text \<open>A sequence of calls of \<open>SetState\<close>.\<close>

definition set_states :: "masquerading_rule \<Rightarrow> (time \<times> rule_state \<times> string) list \<Rightarrow> masquerading_rule" where
  "set_states mr xs = foldl (\<lambda>m (now, s, msg). set_state now m s msg) mr xs"

lemma set_states_Nil [simp]: "set_states mr [] = mr"
  by (simp add: set_states_def)

lemma set_states_snoc [simp]: "set_states mr (xs @ [(now, s, msg)]) = set_state now (set_states mr xs) s msg"
  by (simp add: set_states_def)

lemma set_states_distinct:
  "distinct (map rc_type (st_conditions (mr_status mr))) \<Longrightarrow>
    distinct (map rc_type (st_conditions (mr_status (set_states mr xs))))"
proof (induction xs rule: rev_induct)
  case (snoc x xs)
  then show ?case
    by (cases x) (auto dest: set_state_conditions_ok simp: conditions_ok_def)
qed simp

lemma set_states_ready:
  assumes "ready_condition mr = None \<or> (\<exists>c. ready_condition mr = Some c \<and> rc_status c \<noteq> condition_status_of s)"
  shows "\<forall>(t', s', m') \<in> set zs. condition_status_of s' = condition_status_of s \<Longrightarrow>
    \<exists>c. ready_condition (set_states mr ((t, s, m) # zs)) = Some c \<and>
      rc_status c = condition_status_of s \<and> rc_last_transition c = Some t"
proof (induction zs rule: rev_induct)
  case Nil
  from assms show ?case
    by (auto simp: set_states_def ready_condition_set_state)
next
  case (snoc z zs)
  obtain t' s' m' where z: "z = (t', s', m')" by (cases z)
  from snoc have "set_states mr ((t, s, m) # zs @ [z]) = set_state t' (set_states mr ((t, s, m) # zs)) s' m'"
    using set_states_snoc [of mr "(t, s, m) # zs" t' s' m'] by (simp add: z)
  with snoc z show ?case by (auto simp: ready_condition_set_state)
qed

section \<open>Properties\<close>

text \<open>
  C9: \<open>CheckDnsName\<close> decides RFC 1123 names: at most 255 bytes, labels of 1 to 63 letters, digits
  and inner hyphens. Where wildcards are allowed, a leading star counts as the letters
  \<^verbatim>\<open>wildcard\<close>, which also lets a star through that is followed by more of the first label.
\<close>

theorem check_dns_name_correct:
  "check_dns_name s up wild =
    (if rfc1123_name up
          (if wild \<and> s \<noteq> [] \<and> hd s = CHR ''*'' \<and> newline \<notin> set s then ''wildcard'' @ tl s else s)
     then Inr () else Inl ''not a valid DNS name'')"
  by (simp add: check_dns_name_spec replace_wildcard_cases)

text \<open>
  What \<open>NewRewriteRule\<close> accepts: a source that is a name or has a leading star, and as
  target an IP address (then the first label of the source is not a star) or a name. An accepted
  rule carries the arguments as they are.
\<close>

lemma new_rewrite_rule_correct:
  "new_rewrite_rule owner frm to = Inr r \<longleftrightarrow>
    rfc1123_name False (replace_wildcard frm) \<and>
    (if parse_ip to \<noteq> None then hd (split_on CHR ''.'' frm) \<noteq> ''*'' else rfc1123_name False to) \<and>
    r = \<lparr>rr_owner = owner, rr_from = frm, rr_to = to\<rparr>"
  by (auto simp: new_rewrite_rule_def check_dns_name_spec split: sum.splits)

text \<open>
  C10: with the pattern of the schema in front, an accepted source has the documented form: a
  name, a star, or a star as the whole first label of a name.
\<close>

theorem schema_wildcard_form:
  assumes "matches crd_from_pattern frm" and "new_rewrite_rule owner frm to = Inr r"
  shows "rfc1123_name False frm \<or> frm = ''*'' \<or> (\<exists>n. frm = ''*.'' @ n \<and> rfc1123_name False n)"
proof (cases "frm \<noteq> [] \<and> hd frm = CHR ''*'' \<and> newline \<notin> set frm")
  case False
  with new_rewrite_rule_accepts [OF assms(2)] have "rfc1123_name False frm"
    by (simp only: replace_wildcard_cases if_False)
  then show ?thesis by blast
next
  case True
  then obtain t where f: "frm = CHR ''*'' # t" by (cases frm) auto
  from crd_from_star [of t] assms(1) f consider "t = []" | n where "t = CHR ''.'' # n" by blast
  then show ?thesis
  proof cases
    case 1
    then show ?thesis by (simp add: f)
  next
    case 2
    with new_rewrite_rule_accepts [OF assms(2)] True f
    have "rfc1123_name False (''wildcard'' @ CHR ''.'' # n)" by (simp add: replace_wildcard_cases)
    from rfc1123_tail [OF this] show ?thesis by (simp add: f 2)
  qed
qed

theorem schema_wildcard_form_witness:
  "rfc1123_name False ''*.x.org'' \<or> ''*.x.org'' = ''*'' \<or>
    (\<exists>n. ''*.x.org'' = ''*.'' @ n \<and> rfc1123_name False n)"
proof -
  have m: "matches crd_from_pattern ''*.x.org''" by code_simp
  have "is_ok (new_rewrite_rule ''o'' ''*.x.org'' ''y.org'')" by code_simp
  then obtain r where "new_rewrite_rule ''o'' ''*.x.org'' ''y.org'' = Inr r" by (auto simp: is_ok_iff)
  from schema_wildcard_form [OF m this] show ?thesis .
qed

text \<open>
  For targets that are names, schema and webhook agree up to the length limits, which only
  the webhook checks: an admitted name target passes the schema.
\<close>

lemma schema_accepts_admitted_names:
  assumes "parse_ip (sp_to (mr_spec mr)) = None"
  shows "validate_create mr = None \<longleftrightarrow>
    rfc1123_name False (replace_wildcard (sp_from (mr_spec mr))) \<and>
    matches crd_to_pattern (sp_to (mr_spec mr)) \<and> length (sp_to (mr_spec mr)) \<le> 255 \<and>
    (\<forall>p \<in> set (split_on CHR ''.'' (sp_to (mr_spec mr))). length p \<le> 63)"
  using assms
  by (auto simp: validate_create_def webhook_validate_def rfc1123_crd [symmetric]
      new_rewrite_rule_def check_dns_name_spec split: sum.splits)

definition demo_rule :: masquerading_rule where
  "demo_rule =
     \<lparr>mr_meta = \<lparr>om_name = ''a'', om_namespace = ''ns'', om_generate_name = '''', om_uid = ''1'', om_resource_version = ''1'',
        om_generation = 1, om_deletion_timestamp = None, om_finalizers = [], om_labels = fmempty,
        om_annotations = None\<rparr>,
      mr_spec = \<lparr>sp_from = ''*.x.org'', sp_to = ''y.org''\<rparr>,
      mr_status = \<lparr>st_observed_generation = 0, st_conditions = [], st_state = StateUnset\<rparr>\<rparr>"

text \<open>
  C12: \<open>SetState\<close> on a status with at most one condition per type: afterwards there is still one
  per type, the other conditions are the same, the state is the one that was set, and exactly one Ready
  condition carries its status, reason, message and update time.
\<close>

theorem set_state_correct:
  assumes "distinct (map rc_type (st_conditions (mr_status mr)))"
  shows "let mr' = set_state now mr s msg; cs' = st_conditions (mr_status mr') in
    mr_meta mr' = mr_meta mr \<and> mr_spec mr' = mr_spec mr \<and> st_state (mr_status mr') = s \<and>
    distinct (map rc_type cs') \<and>
    (\<forall>c. rc_type c \<noteq> condition_type_ready \<longrightarrow>
       c \<in> set cs' \<longleftrightarrow> c \<in> set (st_conditions (mr_status mr))) \<and>
    (\<exists>!c. c \<in> set cs' \<and> rc_type c = condition_type_ready) \<and>
    (\<forall>c \<in> set cs'. rc_type c = condition_type_ready \<longrightarrow>
       rc_status c = condition_status_of s \<and> rc_reason c = state_string s \<and> rc_message c = msg \<and>
       rc_last_update c = Some now)"
proof -
  let ?cs = "st_conditions (mr_status mr)"
  define cs' where "cs' = set_condition now ?cs condition_type_ready (condition_status_of s)
    (state_string s) msg"
  have eq: "st_conditions (mr_status (set_state now mr s msg)) = cs'"
    by (simp add: set_state_def cs'_def)
  have d: "distinct (map rc_type cs')"
    using set_state_conditions_ok [OF assms, of now s msg] by (simp add: conditions_ok_def eq)
  have "condition_type_ready \<in> set (map rc_type cs')"
    unfolding cs'_def set_condition_types by (auto intro: rev_image_eqI)
  from distinct_map_ex1 [OF d this]
  have "\<exists>!c. c \<in> set cs' \<and> rc_type c = condition_type_ready" .
  with d show ?thesis
    using set_condition_other [of _ condition_type_ready now ?cs "condition_status_of s" "state_string s" msg]
      set_condition_hit [OF assms, of _ now condition_type_ready "condition_status_of s" "state_string s" msg]
    unfolding Let_def eq by (simp add: cs'_def [symmetric])
qed

theorem set_state_correct_witness:
  "st_state (mr_status (set_state 7 demo_rule StateReady ''done'')) = StateReady \<and>
    distinct (map rc_type (st_conditions (mr_status (set_state 7 demo_rule StateReady ''done''))))"
proof -
  have "distinct (map rc_type (st_conditions (mr_status demo_rule)))" by code_simp
  from set_state_correct [OF this, of 7 StateReady "''done''"] show ?thesis
    unfolding Let_def by blast
qed

text \<open>
  C13: over any sequence of calls, the transition time of the Ready condition is the time of the
  call that last changed its status: here the call at time \<open>t\<close> changed it, or created the
  condition, and no call in \<open>zs\<close> did.
\<close>

theorem ready_transition_time:
  assumes "ready_condition mr = None \<or>
      (\<exists>c. ready_condition mr = Some c \<and> rc_status c \<noteq> condition_status_of s)"
    and "\<forall>(t', s', m') \<in> set zs. condition_status_of s' = condition_status_of s"
  shows "\<exists>c. ready_condition (set_states mr ((t, s, m) # zs)) = Some c \<and>
    rc_status c = condition_status_of s \<and> rc_last_transition c = Some t"
  using assms by (rule set_states_ready)

theorem ready_transition_time_witness:
  "\<exists>c. ready_condition (set_states demo_rule
      [(1, StateNew, ''a''), (2, StateProcessing, ''b''), (3, StateDeleting, ''c'')]) = Some c \<and>
    rc_status c = ConditionUnknown \<and> rc_last_transition c = Some 1"
  using ready_transition_time [of demo_rule StateNew
      "[(2, StateProcessing, ''b''), (3, StateDeleting, ''c'')]" 1 "''a''"]
  by (simp add: demo_rule_def ready_condition_def condition_status_of_def)


section \<open>Where code and documentation differ\<close>

text \<open>
  \<open>CheckDnsName\<close> also accepts a first label that begins with an asterisk but has further characters; only the
  pattern of the schema excludes it.
\<close>

lemma loose_wildcard_accepted:
  "check_dns_name ''*foo.bar'' False True = Inr ()" "\<not> matches crd_from_pattern ''*foo.bar''"
  by code_simp+

text \<open>An IPv6 address (here the unspecified one) is a target for the webhook, but the schema does not let it pass.\<close>

lemma ipv6_target_rejected:
  "parse_ip ''::'' \<noteq> None" "is_ok (new_rewrite_rule owner ''a.org'' ''::'')" "\<not> matches crd_to_pattern ''::''"
proof -
  show ip: "parse_ip ''::'' \<noteq> None" by (simp add: parse_ip_def parse_ipv6_def)
  have "check_dns_name ''a.org'' False True = Inr ()" by code_simp
  moreover have "hd (split_on CHR ''.'' ''a.org'') \<noteq> ''*''" by code_simp
  ultimately show "is_ok (new_rewrite_rule owner ''a.org'' ''::'')" using ip by (auto simp: new_rewrite_rule_def is_ok_iff)
  show "\<not> matches crd_to_pattern ''::''" by code_simp
qed


end
