(* ===== verification/Admission.thy ===== *)
theory Admission
  imports Api_Properties Rewrite_Properties
begin

text \<open>
  What the webhook promises to the controller of the rules: the answer to a rule by its source and target alone,
  and the rule set that an admitted rule becomes part of.
\<close>

lemma webhook_verdict:
  assumes "verdict = validate_create mr \<or> verdict = validate_update old mr"
  shows "verdict = None \<longleftrightarrow> is_ok (new_rewrite_rule owner (sp_from (mr_spec mr)) (sp_to (mr_spec mr)))"
proof -
  have "verdict = webhook_validate mr" using assms by (auto simp: validate_create_def validate_update_def)
  then show ?thesis by (auto simp: webhook_validate_def new_rewrite_rule_def is_ok_def split: sum.splits if_splits)
qed

context go_lib
begin

text \<open>A rule for a writable owner is refused for a clash, or stored in a set that can be written and read.\<close>

lemma add_new_rule:
  assumes wf: "rule_set_wf rs" and owner: "owner_ok owner" and new: "new_rewrite_rule owner frm to = Inr rule"
  shows "if \<exists>k t. get_rule rs k = Some t \<and> k \<noteq> owner \<and> clash t rule then \<exists>e. add_rule L rs rule = (Inl e, rs)
    else \<exists>ch rs'. add_rule L rs rule = (Inr ch, rs') \<and> get_rule rs' = (get_rule rs)(owner := Some rule) \<and>
      parse_rewrite_rule_set L (rule_set_string L rs') = Inr rs'"
proof -
  from wf have c: "consistent rs" by (simp add: rule_set_wf_def)
  from new_rewrite_rule_Inr [OF new] have o: "rr_owner rule = owner" by simp
  show ?thesis
  proof (cases "add_rule L rs rule")
    case (Pair res rs')
    show ?thesis
    proof (cases res)
      case (Inl e)
      with add_rule_error [OF c] Pair o show ?thesis by auto
    next
      case (Inr ch)
      with add_rule_wf [OF wf new_rewrite_rule_printable [OF owner new]] Pair have "rule_set_wf rs'" by simp
      with add_rule_ok [OF c, of rule ch rs'] Pair Inr o show ?thesis by (auto simp: parse_string)
    qed
  qed
qed

end

section \<open>Property\<close>

text \<open>
  C11: the webhook answers to a creation and to an update by the new source and target alone. It admits a rule exactly if the source
  is an RFC 1123 name, read with \<^verbatim>\<open>wildcard\<close> for a leading star, and the target is an address, with a source whose first label is
  not a star, or a name. For an admitted rule the controller, whatever the owner and the rule set that it reads, gets its rewrite rule,
  and can then fail only for a clash with a rule of another owner; otherwise the rule gets into the set, which is read back from its text.
  For a rule that was not admitted, the controller gets no rewrite rule.
\<close>

theorem webhook_admits_iff:
  assumes "go_lib L" and "rule_set_wf rs" and "owner_ok owner"
    and "mr_spec mr = \<lparr>sp_from = frm, sp_to = to\<rparr>"
    and "verdict = validate_create mr \<or> verdict = validate_update old mr"
  shows "(verdict = None \<longleftrightarrow>
      rfc1123_name False
        (if frm \<noteq> [] \<and> hd frm = CHR ''*'' \<and> newline \<notin> set frm then ''wildcard'' @ tl frm else frm) \<and>
      (if parse_ip to \<noteq> None then hd (split_on CHR ''.'' frm) \<noteq> ''*'' else rfc1123_name False to)) \<and>
    (if verdict = None then
      (let rule = \<lparr>rr_owner = owner, rr_from = frm, rr_to = to\<rparr> in
       new_rewrite_rule owner frm to = Inr rule \<and>
       (if \<exists>k t. get_rule rs k = Some t \<and> k \<noteq> owner \<and> clash t rule then \<exists>e. add_rule L rs rule = (Inl e, rs)
        else \<exists>ch rs'. add_rule L rs rule = (Inr ch, rs') \<and> get_rule rs' = (get_rule rs)(owner := Some rule) \<and>
          parse_rewrite_rule_set L (rule_set_string L rs') = Inr rs'))
     else \<not> is_ok (new_rewrite_rule owner frm to))"
proof -
  let ?rule = "\<lparr>rr_owner = owner, rr_from = frm, rr_to = to\<rparr>"
  from webhook_verdict [OF assms(5), of owner] assms(4)
  have v: "verdict = None \<longleftrightarrow> is_ok (new_rewrite_rule owner frm to)" by simp
  have "is_ok (new_rewrite_rule owner frm to) \<longleftrightarrow> new_rewrite_rule owner frm to = Inr ?rule"
    using new_rewrite_rule_Inr [of owner frm to]
    by (cases "new_rewrite_rule owner frm to") (auto simp: is_ok_def)
  with v have n: "verdict = None \<longleftrightarrow> new_rewrite_rule owner frm to = Inr ?rule" by simp
  show ?thesis
  proof (rule conjI)
    from n show "verdict = None \<longleftrightarrow>
        rfc1123_name False
          (if frm \<noteq> [] \<and> hd frm = CHR ''*'' \<and> newline \<notin> set frm then ''wildcard'' @ tl frm else frm) \<and>
        (if parse_ip to \<noteq> None then hd (split_on CHR ''.'' frm) \<noteq> ''*'' else rfc1123_name False to)"
      by (simp only: new_rewrite_rule_correct replace_wildcard_cases simp_thms)
  next
    note add = go_lib.add_new_rule [OF assms(1-3)]
    show "if verdict = None then
      (let rule = ?rule in new_rewrite_rule owner frm to = Inr rule \<and>
       (if \<exists>k t. get_rule rs k = Some t \<and> k \<noteq> owner \<and> clash t rule then \<exists>e. add_rule L rs rule = (Inl e, rs)
        else \<exists>ch rs'. add_rule L rs rule = (Inr ch, rs') \<and> get_rule rs' = (get_rule rs)(owner := Some rule) \<and>
          parse_rewrite_rule_set L (rule_set_string L rs') = Inr rs'))
     else \<not> is_ok (new_rewrite_rule owner frm to)"
    proof (cases "verdict = None")
      case True
      with n have new: "new_rewrite_rule owner frm to = Inr ?rule" by simp
      show ?thesis unfolding if_P [OF True] Let_def using new add [OF new] by (rule conjI)
    next
      case False
      with v have "\<not> is_ok (new_rewrite_rule owner frm to)" by (simp only: simp_thms)
      then show ?thesis unfolding if_not_P [OF False] .
    qed
  qed
qed

text \<open>A rule that is admitted and gets into the set; and the refusal of an address as its new target.\<close>

theorem webhook_admits_iff_witness:
  "validate_create demo_rule = None \<and>
    (\<exists>ch rs. add_rule std_lib demo_set \<lparr>rr_owner = ''3 (ns/c)'', rr_from = ''*.x.org'', rr_to = ''y.org''\<rparr> = (Inr ch, rs) \<and>
      parse_rewrite_rule_set std_lib (rule_set_string std_lib rs) = Inr rs) \<and>
    validate_update demo_rule (demo_rule\<lparr>mr_spec := \<lparr>sp_from = ''*.x.org'', sp_to = ''::''\<rparr>\<rparr>) \<noteq> None"
proof -
  let ?owner = "''3 (ns/c)''"
  let ?rule = "\<lparr>rr_owner = ?owner, rr_from = ''*.x.org'', rr_to = ''y.org''\<rparr>"
  let ?mr = "demo_rule\<lparr>mr_spec := \<lparr>sp_from = ''*.x.org'', sp_to = ''::''\<rparr>\<rparr>"
  have o: "owner_ok ?owner" by code_simp
  have spec: "mr_spec demo_rule = \<lparr>sp_from = ''*.x.org'', sp_to = ''y.org''\<rparr>" by (simp add: demo_rule_def)
  note admits = webhook_admits_iff [OF std.go_lib_axioms demo_wf o]
  have "rfc1123_name False ''wildcard.x.org''" "rfc1123_name False ''y.org''" "parse_ip ''y.org'' = None" by code_simp+
  with admits [OF spec disjI1, of "validate_create demo_rule"] have v: "validate_create demo_rule = None" by simp
  have "\<not> clash demo_ip ?rule" "\<not> clash demo_name ?rule" by code_simp+
  then have "\<not> (\<exists>k t. get_rule demo_set k = Some t \<and> k \<noteq> ?owner \<and> clash t ?rule)" by (auto simp: demo_get split: if_splits)
  with admits [OF spec disjI1, of "validate_create demo_rule"] v
  have a: "\<exists>ch rs. add_rule std_lib demo_set ?rule = (Inr ch, rs) \<and>
      parse_rewrite_rule_set std_lib (rule_set_string std_lib rs) = Inr rs" by (auto simp: Let_def)
  have "parse_ip ''::'' \<noteq> None" by (simp add: parse_ip_def parse_ipv6_def)
  moreover have "hd (split_on CHR ''.'' ''*.x.org'') = ''*''" by code_simp
  ultimately have "validate_update demo_rule ?mr \<noteq> None"
    using admits [of ?mr _ _ "validate_update demo_rule ?mr" demo_rule] by simp
  with v a show ?thesis by simp
qed

end
