(* ===== verification/Portforward.thy ===== *)
theory Portforward
  imports Go_Prelude "HOL-Library.Word"
begin

text \<open>
  \<^verbatim>\<open>internal/portforward/portforward.go\<close>: the handle of a port-forward connection. The mutex
  makes \<open>Start\<close> and \<open>Stop\<close> atomic. Of the stop channel only whether it is closed matters;
  closing it twice panics. The client-go functions that the handle calls, and which case of
  the select statement fires, are the record \<open>pf_env\<close>.
\<close>

record portforward =
  pf_local_address :: string
  pf_local_port :: "16 word"
  pf_namespace :: string
  pf_name :: string
  pf_port :: "16 word"
  pf_stop_closed :: bool
  pf_started :: bool
  pf_stopped :: bool

datatype select_case =
    SelReady "string + (16 word \<times> 16 word) list"
      \<comment> \<open>\<open>readyCh\<close>, with what \<open>GetPorts\<close> returns: pairs of local and remote port\<close>
  | SelError string \<comment> \<open>\<open>errorCh\<close>\<close>
  | SelTimeout \<comment> \<open>ten seconds passed\<close>

record pf_env =
  pe_host :: string \<comment> \<open>\<open>config.Host\<close>\<close>
  pe_round_tripper :: "string option" \<comment> \<open>error of \<open>spdy.RoundTripperFor\<close>\<close>
  pe_new_forwarder :: "string \<Rightarrow> string \<Rightarrow> string \<Rightarrow> string \<Rightarrow> string option"
    \<comment> \<open>error of \<open>NewOnAddresses\<close> for URL path, URL host, address and port specification\<close>
  pe_select :: select_case
  pe_wrap :: "string \<Rightarrow> string \<Rightarrow> string" \<comment> \<open>text of \<open>errors.Wrapf\<close> for an error and a message\<close>

definition portforward_new ::
  "string \<Rightarrow> 16 word \<Rightarrow> string \<Rightarrow> string \<Rightarrow> 16 word \<Rightarrow> portforward"
where
  "portforward_new localAddress localPort namespace name port =
     \<lparr>pf_local_address = localAddress, pf_local_port = localPort, pf_namespace = namespace,
      pf_name = name, pf_port = port, pf_stop_closed = False, pf_started = False,
      pf_stopped = False\<rparr>"

definition port_string :: "16 word \<Rightarrow> string" where
  "port_string p = itoa (unat p)"

definition pf_prefix :: "portforward \<Rightarrow> string" where
  "pf_prefix pfw =
     ''error starting port forward '' @ pf_local_address pfw @ '':'' @ port_string (pf_local_port pfw)
       @ '' to '' @ pf_namespace pfw @ ''/'' @ pf_name pfw @ '':'' @ port_string (pf_port pfw)"

definition pf_message :: "portforward \<Rightarrow> string \<Rightarrow> string" where
  "pf_message pfw what = pf_prefix pfw @ '': '' @ what"

definition close_stop_ch :: "portforward \<Rightarrow> portforward outcome" where
  "close_stop_ch pfw =
     (if pf_stop_closed pfw then Panics else Returns (pfw\<lparr>pf_stop_closed := True\<rparr>))"

text \<open>The result of \<open>Start\<close>: its error (\<^const>\<open>None\<close> is nil) and the handle afterwards.\<close>

definition pf_start :: "pf_env \<Rightarrow> portforward \<Rightarrow> (string option \<times> portforward) outcome" where
  "pf_start E pfw =
     (if pf_started pfw then Returns (Some (pf_message pfw ''already started''), pfw)
      else
        let path = ''/api/v1/namespaces/'' @ pf_namespace pfw @ ''/pods/'' @ pf_name pfw @ ''/portforward'';
            host = trim_prefix (pe_host E) ''https://''
        in
        (case pe_round_tripper E of
           Some err \<Rightarrow> Returns (Some (pe_wrap E err (pf_prefix pfw)), pfw)
         | None \<Rightarrow>
        (case pe_new_forwarder E path host (pf_local_address pfw)
                (port_string (pf_local_port pfw) @ '':'' @ port_string (pf_port pfw)) of
           Some err \<Rightarrow> Returns (Some (pe_wrap E err (pf_prefix pfw)), pfw)
         | None \<Rightarrow>
        (case pe_select E of
           SelReady (Inl err) \<Rightarrow> Returns (Some (pe_wrap E err (pf_prefix pfw)), pfw)
         | SelReady (Inr ports) \<Rightarrow>
             if length ports \<noteq> 1 then
               Returns (Some (pf_message pfw
                 (''invalid port count returned ('' @ itoa (length ports) @ '')'')), pfw)
             else if pf_local_port pfw \<noteq> 0 \<and> fst (ports ! 0) \<noteq> pf_local_port pfw then
               Returns (Some (pf_message pfw
                 (''invalid local port returned ('' @ port_string (fst (ports ! 0)) @ '')'')), pfw)
             else if snd (ports ! 0) \<noteq> pf_port pfw then
               Returns (Some (pf_message pfw
                 (''invalid remote port returned ('' @ port_string (snd (ports ! 0)) @ '')'')), pfw)
             else Returns (None, pfw\<lparr>pf_local_port := fst (ports ! 0), pf_started := True\<rparr>)
         | SelError err \<Rightarrow>
             (case close_stop_ch pfw of
                Panics \<Rightarrow> Panics
              | Returns pfw' \<Rightarrow> Returns (Some (pe_wrap E err (pf_prefix pfw')), pfw'))
         | SelTimeout \<Rightarrow>
             (case close_stop_ch pfw of
                Panics \<Rightarrow> Panics
              | Returns pfw' \<Rightarrow> Returns (Some (pf_message pfw' ''timeout''), pfw'))))))"

definition pf_stop :: "portforward \<Rightarrow> portforward outcome" where
  "pf_stop pfw =
     (if \<not> pf_started pfw \<or> pf_stopped pfw then Returns pfw
      else close_stop_ch (pfw\<lparr>pf_stopped := True\<rparr>))"

definition local_address :: "portforward \<Rightarrow> string" where
  "local_address pfw = pf_local_address pfw"

definition local_port :: "portforward \<Rightarrow> 16 word" where
  "local_port pfw = pf_local_port pfw"

section \<open>Histories of a handle\<close>

text \<open>
  The channel of a started handle is closed exactly when it was stopped, and a handle that
  is not started was not stopped.
\<close>

definition pf_inv :: "portforward \<Rightarrow> bool" where
  "pf_inv pfw \<longleftrightarrow>
     (pf_started pfw \<longrightarrow> pf_stop_closed pfw = pf_stopped pfw) \<and> (pf_stopped pfw \<longrightarrow> pf_started pfw)"

datatype pf_op = OpStart pf_env | OpStop

fun pf_step :: "portforward \<Rightarrow> pf_op \<Rightarrow> portforward outcome" where
  "pf_step pfw (OpStart E) =
     (case pf_start E pfw of Panics \<Rightarrow> Panics | Returns (_, pfw') \<Rightarrow> Returns pfw')"
| "pf_step pfw OpStop = pf_stop pfw"

fun pf_run :: "portforward \<Rightarrow> pf_op list \<Rightarrow> portforward outcome" where
  "pf_run pfw [] = Returns pfw"
| "pf_run pfw (x # xs) =
     (case pf_step pfw x of Panics \<Rightarrow> Panics | Returns pfw' \<Rightarrow> pf_run pfw' xs)"

lemma pf_start_ok:
  "pf_start E pfw = Returns (None, pfw') \<longleftrightarrow>
     \<not> pf_started pfw \<and>
     pe_round_tripper E = None \<and>
     pe_new_forwarder E (''/api/v1/namespaces/'' @ pf_namespace pfw @ ''/pods/'' @ pf_name pfw
         @ ''/portforward'') (trim_prefix (pe_host E) ''https://'') (pf_local_address pfw)
       (port_string (pf_local_port pfw) @ '':'' @ port_string (pf_port pfw)) = None \<and>
     (\<exists>p. pe_select E = SelReady (Inr [(p, pf_port pfw)]) \<and>
        (pf_local_port pfw = 0 \<or> p = pf_local_port pfw) \<and>
        pfw' = pfw\<lparr>pf_local_port := p, pf_started := True\<rparr>)"
  unfolding pf_start_def Let_def
  by (auto simp: length_Suc_conv split: option.splits select_case.splits sum.splits outcome.splits)

text \<open>A failed start leaves the handle not started; it may have closed the channel.\<close>

lemma pf_start_error:
  "pf_start E pfw = Returns (Some err, pfw') \<Longrightarrow>
     pfw' = pfw \<or> (\<not> pf_started pfw \<and> pfw' = pfw\<lparr>pf_stop_closed := True\<rparr>)"
  unfolding pf_start_def Let_def close_stop_ch_def
  by (auto split: option.splits select_case.splits sum.splits outcome.splits if_splits)

lemma pf_start_panics:
  "pf_start E pfw = Panics \<Longrightarrow> \<not> pf_started pfw \<and> pf_stop_closed pfw"
  unfolding pf_start_def Let_def close_stop_ch_def
  by (auto split: option.splits select_case.splits sum.splits outcome.splits if_splits)

lemma pf_stop_inv:
  assumes "pf_inv pfw"
  shows "\<exists>pfw'. pf_stop pfw = Returns pfw' \<and> pf_inv pfw' \<and> pf_started pfw' = pf_started pfw"
  using assms by (auto simp: pf_stop_def pf_inv_def close_stop_ch_def)

lemma started_run:
  assumes "pf_inv pfw" and "pf_started pfw"
  shows "\<exists>pfw'. pf_run pfw xs = Returns pfw' \<and> pf_inv pfw' \<and> pf_started pfw'"
  using assms
proof (induction xs arbitrary: pfw)
  case Nil
  then show ?case by simp
next
  case (Cons x xs)
  have "\<exists>pfw1. pf_step pfw x = Returns pfw1 \<and> pf_inv pfw1 \<and> pf_started pfw1"
  proof (cases x)
    case (OpStart E)
    with Cons.prems show ?thesis by (simp add: pf_start_def)
  next
    case OpStop
    with pf_stop_inv [OF Cons.prems(1)] Cons.prems(2) show ?thesis by simp
  qed
  then obtain pfw1 where "pf_step pfw x = Returns pfw1" "pf_inv pfw1" "pf_started pfw1" by blast
  with Cons.IH [OF this(2,3)] show ?case by simp
qed

end
