(* ===== verification/Resolver.thy ===== *)
theory Resolver
  imports Portforward
begin

text \<open>
  \<^verbatim>\<open>internal/coredns/resolver.go\<close> and \<^verbatim>\<open>internal/dnsutil/record.go\<close>: looking a name up on a
  nameserver, discovering the cluster's nameservers, and the record check.

  The outside world of one check is the record \<open>resolver_env\<close>: what a DNS lookup answers at a
  server (the number tells the first from the second lookup of an endpoint), the environment
  of the port-forward to an endpoint, and what the two reads of the cluster return. An error
  collected by \<^verbatim>\<open>multierror\<close> is the list of the errors that were appended, nil is \<open>[]\<close>.
\<close>

section \<open>Data\<close>

record endpoint =
  ep_address :: string
  ep_port :: "16 word"
  ep_in_cluster :: bool
  ep_namespace :: string
  ep_name :: string

record service_port =
  svp_name :: string
  svp_protocol :: string
  svp_port :: "32 word"

record object_reference =
  ref_kind :: string
  ref_namespace :: string
  ref_name :: string

record endpoint_address =
  ea_ip :: string
  ea_target_ref :: "object_reference option" \<comment> \<open>a pointer, nil for an address without target\<close>

record endpoint_subset =
  es_ports :: "(string \<times> 32 word) list"
  es_addresses :: "endpoint_address list"

text \<open>\<open>DnsNotFound\<close> is a \<^verbatim>\<open>net.DNSError\<close> with \<open>IsNotFound\<close> set.\<close>

datatype lookup_error = DnsNotFound | LookupFailed string

record resolver_env =
  re_lookup_host :: "nat \<Rightarrow> string \<Rightarrow> string \<Rightarrow> lookup_error + string list"
  re_pf_env :: "endpoint \<Rightarrow> pf_env"
  re_get_service :: "string + service_port list"
  re_get_endpoints :: "string + endpoint_subset list"

record resolver =
  res_in_cluster :: bool
  res_endpoints :: "endpoint list"

definition new_resolver :: "bool \<Rightarrow> endpoint list \<Rightarrow> resolver" where
  "new_resolver inCluster endpoints = \<lparr>res_in_cluster = inCluster, res_endpoints = endpoints\<rparr>"

section \<open>Looking up a name\<close>

definition lookup ::
  "lib \<Rightarrow> (string \<Rightarrow> string \<Rightarrow> lookup_error + string list) \<Rightarrow> string \<Rightarrow> string \<Rightarrow> 16 word \<Rightarrow>
    string list \<times> string option"
where
  "lookup L lookup_host host serverAddress serverPort =
     (case lookup_host (serverAddress @ '':'' @ port_string serverPort) host of
        Inl DnsNotFound \<Rightarrow> ([], None)
      | Inl (LookupFailed err) \<Rightarrow> ([], Some err)
      | Inr addresses \<Rightarrow> (lib_sort L addresses, None))"

section \<open>Checking one endpoint\<close>

text \<open>
  Both branches of the goroutine end in the same comparison, on the server they reach; \<open>merr\<close>
  collects the errors of the lookups.
\<close>

definition append_error :: "string list \<Rightarrow> string option \<Rightarrow> string list" where
  "append_error merr err = (case err of None \<Rightarrow> merr | Some e \<Rightarrow> merr @ [e])"

definition compare_records ::
  "lib \<Rightarrow> resolver_env \<Rightarrow> string \<Rightarrow> 16 word \<Rightarrow> string \<Rightarrow> string \<Rightarrow> bool \<times> string list"
where
  "compare_records L E server port host expectedResult =
     (let (addresses, err) = lookup L (re_lookup_host E 0) host server port;
          merr = append_error [] err in
      if expectedResult = '''' then (merr = [] \<and> length addresses = 0, merr)
      else
        let (expectedAddresses, err2) = lookup L (re_lookup_host E 1) expectedResult server port;
            merr2 = append_error merr err2
        in (merr2 = [] \<and> length addresses > 0 \<and> lib_equal L addresses expectedAddresses, merr2))"

text \<open>The deferred \<open>Stop\<close> runs after the result was sent; a panic there still ends the process.\<close>

definition check_endpoint ::
  "lib \<Rightarrow> resolver_env \<Rightarrow> bool \<Rightarrow> string \<Rightarrow> string \<Rightarrow> endpoint \<Rightarrow> (bool \<times> string list) outcome"
where
  "check_endpoint L E inCluster host expectedResult ep =
     (if ep_in_cluster ep \<and> \<not> inCluster then
        let localhost = ''127.0.0.1'';
            pfw = portforward_new localhost 0 (ep_namespace ep) (ep_name ep) (ep_port ep)
        in
        (case pf_start (re_pf_env E ep) pfw of
           Panics \<Rightarrow> Panics
         | Returns (Some err, _) \<Rightarrow> Returns (False, [err])
         | Returns (None, pfw') \<Rightarrow>
             let result = compare_records L E localhost (pf_local_port pfw') host expectedResult in
             (case pf_stop pfw' of Panics \<Rightarrow> Panics | Returns _ \<Rightarrow> Returns result))
      else Returns (compare_records L E (ep_address ep) (ep_port ep) host expectedResult))"

section \<open>Checking a record\<close>

text \<open>Every goroutine sends one result into its own channel; they are received in order.\<close>

fun collect ::
  "(bool \<times> string list) outcome list \<Rightarrow> bool \<times> string list \<Rightarrow> (bool \<times> string list) outcome"
where
  "collect [] (active, merr) = Returns (active, merr)"
| "collect (Panics # ps) (active, merr) = Panics"
| "collect (Returns (x, y) # ps) (active, merr) =
     (if y \<noteq> [] then collect ps (False, merr @ y)
      else if \<not> x then collect ps (False, merr)
      else collect ps (active, merr))"

definition find_port_name :: "service_port list \<Rightarrow> string" where
  "find_port_name ports =
     (case find (\<lambda>p. svp_protocol p = ''TCP'' \<and> svp_port p = 53) ports of
        None \<Rightarrow> [] | Some p \<Rightarrow> svp_name p)"

text \<open>The cast from \<open>int32\<close> to \<open>uint16\<close> truncates.\<close>

definition subset_port :: "string \<Rightarrow> (string \<times> 32 word) list \<Rightarrow> 16 word" where
  "subset_port portName ports =
     (case find (\<lambda>p. fst p = portName) ports of None \<Rightarrow> 0 | Some p \<Rightarrow> ucast (snd p))"

fun address_loop ::
  "16 word \<Rightarrow> endpoint_address list \<Rightarrow> endpoint list \<Rightarrow> endpoint list outcome"
where
  "address_loop port [] endpoints = Returns endpoints"
| "address_loop port (a # as) endpoints =
     (case ea_target_ref a of
        None \<Rightarrow> Panics
      | Some ref \<Rightarrow>
          if ref_kind ref \<noteq> ''Pod'' then address_loop port as endpoints
          else address_loop port as
            (endpoints @ [\<lparr>ep_address = ea_ip a, ep_port = port, ep_in_cluster = True,
                           ep_namespace = ref_namespace ref, ep_name = ref_name ref\<rparr>]))"

fun subset_loop ::
  "string \<Rightarrow> endpoint_subset list \<Rightarrow> endpoint list \<Rightarrow> endpoint list outcome"
where
  "subset_loop portName [] endpoints = Returns endpoints"
| "subset_loop portName (s # ss) endpoints =
     (let port = subset_port portName (es_ports s) in
      if port = 0 then subset_loop portName ss endpoints
      else case address_loop port (es_addresses s) endpoints of
          Panics \<Rightarrow> Panics
        | Returns endpoints' \<Rightarrow> subset_loop portName ss endpoints')"

definition discover_endpoints :: "resolver_env \<Rightarrow> (string + endpoint list) outcome" where
  "discover_endpoints E =
     (case re_get_service E of
        Inl err \<Rightarrow> Returns (Inl err)
      | Inr ports \<Rightarrow>
          let portName = find_port_name ports in
          if portName = '''' then Returns (Inl ''service kube-dns does not have port tcp/53'')
          else
        (case re_get_endpoints E of
           Inl err \<Rightarrow> Returns (Inl err)
         | Inr subsets \<Rightarrow>
             (case subset_loop portName subsets [] of
                Panics \<Rightarrow> Panics
              | Returns endpoints \<Rightarrow> Returns (Inr endpoints))))"

definition check_record ::
  "lib \<Rightarrow> resolver_env \<Rightarrow> resolver \<Rightarrow> string \<Rightarrow> string \<Rightarrow> (bool \<times> string list) outcome"
where
  "check_record L E r host expectedResult =
     (let found = (if length (res_endpoints r) = 0 then discover_endpoints E
                   else Returns (Inr (res_endpoints r))) in
      case found of
        Panics \<Rightarrow> Panics
      | Returns (Inl err) \<Rightarrow> Returns (False, [err])
      | Returns (Inr endpoints) \<Rightarrow>
          collect (map (check_endpoint L E (res_in_cluster r) host expectedResult) endpoints)
            (True, []))"

section \<open>What a check establishes\<close>

text \<open>
  The contract of the interface: at a server the two names resolve without error to the same
  addresses, and to at least one, or, for an empty expectation, the host resolves to none.
\<close>

definition same_answer :: "resolver_env \<Rightarrow> string \<Rightarrow> string \<Rightarrow> string \<Rightarrow> bool" where
  "same_answer E server host expected \<longleftrightarrow>
     (let a = re_lookup_host E 0 server host; b = re_lookup_host E 1 server expected in
      if expected = '''' then a = Inl DnsNotFound \<or> a = Inr []
      else case (a, b) of (Inr xs, Inr ys) \<Rightarrow> xs \<noteq> [] \<and> sort xs = sort ys | _ \<Rightarrow> False)"

definition endpoint_server :: "endpoint \<Rightarrow> string" where
  "endpoint_server ep = ep_address ep @ '':'' @ port_string (ep_port ep)"

lemma sort_Nil_iff [simp]: "sort xs = [] \<longleftrightarrow> xs = []" "[] = sort xs \<longleftrightarrow> xs = []"
  for xs :: "'a :: linorder list"
  by (metis length_0_conv length_sort)+

context go_lib
begin

lemma compare_records_iff:
  "compare_records L E server port host expected = (True, []) \<longleftrightarrow>
     same_answer E (server @ '':'' @ port_string port) host expected"
  unfolding compare_records_def lookup_def same_answer_def append_error_def Let_def
  by (auto simp: sort_eq equal_iff split: sum.splits lookup_error.splits option.splits)

lemma compare_records_error:
  "compare_records L E server port host expected = (x, y) \<Longrightarrow> y \<noteq> [] \<Longrightarrow> \<not> x"
  unfolding compare_records_def Let_def by (auto split: prod.splits if_splits)

lemma check_endpoint_direct:
  "\<not> (ep_in_cluster ep \<and> \<not> inCluster) \<Longrightarrow>
     check_endpoint L E inCluster host expected ep = Returns (True, []) \<longleftrightarrow>
     same_answer E (endpoint_server ep) host expected"
  unfolding check_endpoint_def
  by (simp only: if_False outcome.inject compare_records_iff endpoint_server_def)

end

lemma check_endpoint_returns: "check_endpoint L E inCluster host expected ep \<noteq> Panics"
proof -
  let ?pfw = "portforward_new ''127.0.0.1'' 0 (ep_namespace ep) (ep_name ep) (ep_port ep)"
  have "pf_start (re_pf_env E ep) ?pfw \<noteq> Panics"
    using pf_start_panics [of "re_pf_env E ep" ?pfw] by (auto simp: portforward_new_def)
  moreover have "pf_stop pfw' \<noteq> Panics" if "pf_start (re_pf_env E ep) ?pfw = Returns (None, pfw')" for pfw'
    using that unfolding pf_start_ok by (auto simp: portforward_new_def pf_stop_def close_stop_ch_def)
  ultimately show ?thesis
    by (auto simp: check_endpoint_def Let_def split: outcome.splits option.splits prod.splits)
qed

lemma collect_result:
  "\<forall>p \<in> set ps. p \<noteq> Panics \<Longrightarrow>
     \<exists>es. collect ps (active, merr) =
       Returns (active \<and> (\<forall>p \<in> set ps. p = Returns (True, [])), merr @ es) \<and>
       (es = [] \<longleftrightarrow> (\<forall>p \<in> set ps. \<forall>x y. p = Returns (x, y) \<longrightarrow> y = []))"
proof (induction ps arbitrary: active merr)
  case Nil
  then show ?case by simp
next
  case (Cons p ps)
  then obtain x y where p: "p = Returns (x, y)" by (cases p) auto
  have ps: "\<forall>p \<in> set ps. p \<noteq> Panics" using Cons.prems by simp
  show ?case
  proof (cases "y = []")
    case True
    from Cons.IH [OF ps, of "active \<and> x" merr] True show ?thesis by (cases x) (auto simp: p)
  next
    case False
    from Cons.IH [OF ps, of False "merr @ y"] obtain es where
      "collect ps (False, merr @ y) = Returns (False, (merr @ y) @ es)" by auto
    with False show ?thesis by (intro exI [of _ "y @ es"]) (auto simp: p)
  qed
qed

text \<open>The endpoints of a check: the configured ones, or the discovered ones if there are none.\<close>

definition found_endpoints :: "resolver_env \<Rightarrow> resolver \<Rightarrow> (string + endpoint list) outcome" where
  "found_endpoints E r =
     (if res_endpoints r = [] then discover_endpoints E else Returns (Inr (res_endpoints r)))"

lemma check_record_found:
  assumes "found_endpoints E r = Returns (Inr eps)"
  shows "\<exists>es. check_record L E r host expected =
    Returns (\<forall>ep \<in> set eps.
      check_endpoint L E (res_in_cluster r) host expected ep = Returns (True, []), es) \<and>
    (es = [] \<longleftrightarrow> (\<forall>ep \<in> set eps. \<forall>x y.
       check_endpoint L E (res_in_cluster r) host expected ep = Returns (x, y) \<longrightarrow> y = []))"
proof -
  let ?ps = "map (check_endpoint L E (res_in_cluster r) host expected) eps"
  have "check_record L E r host expected = collect ?ps (True, [])"
    using assms by (simp add: check_record_def found_endpoints_def Let_def)
  moreover have "\<forall>p \<in> set ?ps. p \<noteq> Panics" by (auto simp: check_endpoint_returns)
  from collect_result [OF this, of True "[]"] obtain es where
    "collect ?ps (True, []) = Returns (\<forall>p \<in> set ?ps. p = Returns (True, []), es)"
    "es = [] \<longleftrightarrow> (\<forall>p \<in> set ?ps. \<forall>x y. p = Returns (x, y) \<longrightarrow> y = [])" by auto
  ultimately show ?thesis by auto
qed

lemma check_record_not_found:
  "found_endpoints E r = Returns (Inl err) \<Longrightarrow> check_record L E r host expected = Returns (False, [err])"
  "found_endpoints E r = Panics \<Longrightarrow> check_record L E r host expected = Panics"
  by (simp_all add: check_record_def found_endpoints_def Let_def)

lemma found_endpoints_cases:
  obtains "found_endpoints E r = Panics" | err where "found_endpoints E r = Returns (Inl err)"
  | eps where "found_endpoints E r = Returns (Inr eps)"
proof (cases "found_endpoints E r")
  case Panics
  with that(1) show ?thesis .
next
  case (Returns x)
  with that(2,3) show ?thesis by (cases x) auto
qed

end
