(* ===== verification/Net_Properties.thy ===== *)
theory Net_Properties
  imports Resolver
begin

text \<open>
  The properties of port-forward handles, of the record check and of the discovery of
  nameservers, with a concrete environment on which they are evaluated.
\<close>

section \<open>Started handles\<close>

lemma pf_step_started:
  assumes "pf_inv pfw" and "pf_started pfw"
  shows "\<exists>pfw'. pf_step pfw x = Returns pfw' \<and> pf_inv pfw' \<and> pf_started pfw' \<and>
    pf_local_port pfw' = pf_local_port pfw \<and> pf_stopped pfw' = (pf_stopped pfw \<or> x = OpStop)"
  using assms
  by (cases x) (auto simp: pf_start_def pf_stop_def close_stop_ch_def pf_inv_def)

lemma pf_run_started:
  assumes "pf_inv pfw" and "pf_started pfw"
  shows "\<exists>pfw'. pf_run pfw xs = Returns pfw' \<and> pf_inv pfw' \<and> pf_started pfw' \<and>
    pf_local_port pfw' = pf_local_port pfw \<and> pf_stopped pfw' = (pf_stopped pfw \<or> OpStop \<in> set xs)"
  using assms
proof (induction xs arbitrary: pfw)
  case Nil
  then show ?case by simp
next
  case (Cons x xs)
  from pf_step_started [OF Cons.prems, of x] obtain pfw1 where s: "pf_step pfw x = Returns pfw1"
    "pf_inv pfw1" "pf_started pfw1" "pf_local_port pfw1 = pf_local_port pfw"
    "pf_stopped pfw1 = (pf_stopped pfw \<or> x = OpStop)" by blast
  from Cons.IH [OF s(2,3)] s(1,4,5) show ?case by auto
qed

lemma pf_new_fields:
  "\<not> pf_started (portforward_new la lp ns n p)" "\<not> pf_stop_closed (portforward_new la lp ns n p)"
  "\<not> pf_stopped (portforward_new la lp ns n p)" "pf_local_port (portforward_new la lp ns n p) = lp"
  "pf_port (portforward_new la lp ns n p) = p" "pf_local_address (portforward_new la lp ns n p) = la"
  "pf_namespace (portforward_new la lp ns n p) = ns" "pf_name (portforward_new la lp ns n p) = n"
  by (simp_all add: portforward_new_def)

lemma pf_start_new_inv:
  assumes "pf_start E (portforward_new la lp ns n p) = Returns (None, pfw)"
  shows "pf_inv pfw \<and> pf_started pfw \<and> \<not> pf_stopped pfw"
  using assms unfolding pf_start_ok by (auto simp: pf_inv_def pf_new_fields)

section \<open>Handles before the first successful start\<close>

text \<open>
  A start whose forwarder reports an error or times out closes the channel, and leaves the handle not started. The
  arguments of the forwarder are those of the handle.
\<close>

definition closing_start :: "pf_env \<Rightarrow> portforward \<Rightarrow> bool" where
  "closing_start E pfw \<longleftrightarrow>
     pe_round_tripper E = None \<and>
     pe_new_forwarder E (''/api/v1/namespaces/'' @ pf_namespace pfw @ ''/pods/'' @ pf_name pfw @ ''/portforward'')
       (trim_prefix (pe_host E) ''https://'') (pf_local_address pfw)
       (port_string (pf_local_port pfw) @ '':'' @ port_string (pf_port pfw)) = None \<and>
     (pe_select E = SelTimeout \<or> (\<exists>err. pe_select E = SelError err))"

lemma closing_start_cong [simp]: "closing_start E (pfw\<lparr>pf_stop_closed := c\<rparr>) = closing_start E pfw"
  by (simp add: closing_start_def)

lemma pf_start_failed:
  assumes "\<not> pf_started pfw" and "pf_start E pfw = Returns (Some err, pfw')"
  shows "pfw' = pfw\<lparr>pf_stop_closed := (pf_stop_closed pfw \<or> closing_start E pfw)\<rparr>"
  using assms unfolding pf_start_def Let_def close_stop_ch_def closing_start_def
  by (auto split: option.splits select_case.splits sum.splits outcome.splits if_splits)

lemma pf_step_keeps_started: "pf_step pfw x = Returns pfw' \<Longrightarrow> pf_started pfw \<Longrightarrow> pf_started pfw'"
  by (cases x) (auto simp: pf_start_def pf_stop_def close_stop_ch_def split: if_splits)

lemma pf_run_keeps_started: "pf_run pfw xs = Returns pfw' \<Longrightarrow> pf_started pfw \<Longrightarrow> pf_started pfw'"
  by (induction xs arbitrary: pfw) (auto dest: pf_step_keeps_started split: outcome.splits)

lemma unstarted_run:
  assumes "pf_run pfw xs = Returns pfw'" and "\<not> pf_started pfw'"
  shows "\<not> pf_started pfw \<and>
    pfw' = pfw\<lparr>pf_stop_closed := (pf_stop_closed pfw \<or> (\<exists>E. OpStart E \<in> set xs \<and> closing_start E pfw))\<rparr>"
  using assms
proof (induction xs arbitrary: pfw)
  case (Cons x xs)
  from Cons.prems(1) obtain pfw1 where s: "pf_step pfw x = Returns pfw1" "pf_run pfw1 xs = Returns pfw'"
    by (auto split: outcome.splits)
  from Cons.IH [OF s(2) Cons.prems(2)] have n: "\<not> pf_started pfw1"
    and e: "pfw' = pfw1\<lparr>pf_stop_closed := (pf_stop_closed pfw1 \<or> (\<exists>E. OpStart E \<in> set xs \<and> closing_start E pfw1))\<rparr>"
    by blast+
  from pf_step_keeps_started [OF s(1)] n have n0: "\<not> pf_started pfw" by blast
  have "pfw1 = pfw\<lparr>pf_stop_closed := (pf_stop_closed pfw \<or> (\<exists>E. x = OpStart E \<and> closing_start E pfw))\<rparr>"
  proof (cases x)
    case (OpStart E)
    with s(1) obtain err where st: "pf_start E pfw = Returns (err, pfw1)" by (auto split: outcome.splits)
    show ?thesis
    proof (cases err)
      case None
      with st n show ?thesis by (auto simp: pf_start_ok)
    next
      case (Some e)
      with pf_start_failed [OF n0] st OpStart show ?thesis by auto
    qed
  next
    case OpStop
    with s(1) n0 show ?thesis by (simp add: pf_stop_def)
  qed
  with e have "pfw' = pfw\<lparr>pf_stop_closed := (pf_stop_closed pfw \<or> (\<exists>E. x = OpStart E \<and> closing_start E pfw) \<or>
      (\<exists>E. OpStart E \<in> set xs \<and> closing_start E pfw))\<rparr>" by simp
  moreover have "(\<exists>E. x = OpStart E \<and> closing_start E pfw) \<or> (\<exists>E. OpStart E \<in> set xs \<and> closing_start E pfw) \<longleftrightarrow>
      (\<exists>E. OpStart E \<in> set (x # xs) \<and> closing_start E pfw)" by auto
  ultimately show ?case using n0 by simp
qed simp

text \<open>A started handle whose channel was closed before panics at the first stop, and only there.\<close>

lemma broken_run:
  assumes "pf_started pfw" and "\<not> pf_stopped pfw" and "pf_stop_closed pfw"
  shows "pf_run pfw xs = (if OpStop \<in> set xs then Panics else Returns pfw)"
proof (induction xs)
  case (Cons x xs)
  with assms show ?case by (cases x) (simp_all add: pf_start_def pf_stop_def close_stop_ch_def)
qed simp

section \<open>Agreement at an endpoint\<close>

text \<open>
  What one goroutine of the check establishes: behind a port-forward the comparison is made at
  the local port that the forward got, otherwise at the address of the endpoint.
\<close>

definition endpoint_agrees ::
  "resolver_env \<Rightarrow> bool \<Rightarrow> string \<Rightarrow> string \<Rightarrow> endpoint \<Rightarrow> bool"
where
  "endpoint_agrees E inCluster host expected ep =
     (if ep_in_cluster ep \<and> \<not> inCluster then
        (case pf_start (re_pf_env E ep)
           (portforward_new ''127.0.0.1'' 0 (ep_namespace ep) (ep_name ep) (ep_port ep)) of
           Returns (None, pfw) \<Rightarrow>
             same_answer E (''127.0.0.1'' @ '':'' @ port_string (pf_local_port pfw)) host expected
         | _ \<Rightarrow> False)
      else same_answer E (endpoint_server ep) host expected)"

lemma pf_start_new_stop:
  assumes "pf_start E (portforward_new la lp ns n p) = Returns (None, pfw)"
  shows "\<exists>pfw'. pf_stop pfw = Returns pfw'"
  using pf_stop_inv pf_start_new_inv [OF assms] by blast

context go_lib
begin

lemma check_endpoint_agrees:
  "check_endpoint L E inCluster host expected ep = Returns (True, []) \<longleftrightarrow>
    endpoint_agrees E inCluster host expected ep"
proof (cases "ep_in_cluster ep \<and> \<not> inCluster")
  case False
  then show ?thesis
    using check_endpoint_direct [OF False] by (simp only: endpoint_agrees_def if_False)
next
  case True
  let ?pfw = "portforward_new ''127.0.0.1'' 0 (ep_namespace ep) (ep_name ep) (ep_port ep)"
  show ?thesis
  proof (cases "pf_start (re_pf_env E ep) ?pfw")
    case Panics
    then show ?thesis
      using True by (simp add: check_endpoint_def endpoint_agrees_def Let_def)
  next
    case (Returns x)
    obtain err pfw where x: "x = (err, pfw)" by (cases x)
    show ?thesis
    proof (cases err)
      case (Some e)
      then show ?thesis
        using True Returns x by (simp add: check_endpoint_def endpoint_agrees_def Let_def)
    next
      case None
      with pf_start_new_stop Returns x obtain pfw' where "pf_stop pfw = Returns pfw'" by blast
      with True Returns x None show ?thesis
        using compare_records_iff [of E "''127.0.0.1''" "pf_local_port pfw" host expected]
        by (simp add: check_endpoint_def endpoint_agrees_def Let_def)
    qed
  qed
qed

lemma check_endpoint_error:
  "check_endpoint L E inCluster host expected ep = Returns (x, y) \<Longrightarrow> y \<noteq> [] \<Longrightarrow> \<not> x"
  by (auto simp: check_endpoint_def Let_def dest: compare_records_error
      split: outcome.splits option.splits prod.splits if_splits)

end

section \<open>Errors at an endpoint\<close>

text \<open>What can fail at an endpoint, in the order in which it is asked.\<close>

definition lookup_errors :: "resolver_env \<Rightarrow> nat \<Rightarrow> string \<Rightarrow> string \<Rightarrow> string list" where
  "lookup_errors E n server name =
     (case re_lookup_host E n server name of Inl (LookupFailed err) \<Rightarrow> [err] | _ \<Rightarrow> [])"

definition server_errors :: "resolver_env \<Rightarrow> string \<Rightarrow> string \<Rightarrow> string \<Rightarrow> string list" where
  "server_errors E server host expected =
     lookup_errors E 0 server host @ (if expected = '''' then [] else lookup_errors E 1 server expected)"

definition endpoint_errors :: "resolver_env \<Rightarrow> bool \<Rightarrow> string \<Rightarrow> string \<Rightarrow> endpoint \<Rightarrow> string list" where
  "endpoint_errors E inCluster host expected ep =
     (if ep_in_cluster ep \<and> \<not> inCluster then
        (case pf_start (re_pf_env E ep)
           (portforward_new ''127.0.0.1'' 0 (ep_namespace ep) (ep_name ep) (ep_port ep)) of
           Returns (None, pfw) \<Rightarrow> server_errors E (''127.0.0.1'' @ '':'' @ port_string (pf_local_port pfw)) host expected
         | Returns (Some err, pfw) \<Rightarrow> [err]
         | Panics \<Rightarrow> [])
      else server_errors E (endpoint_server ep) host expected)"

lemma agrees_no_error:
  "endpoint_agrees E inCluster host expected ep \<Longrightarrow> endpoint_errors E inCluster host expected ep = []"
proof -
  have s: "same_answer E server host expected \<Longrightarrow> server_errors E server host expected = []" for server
    unfolding same_answer_def server_errors_def lookup_errors_def
    by (cases "expected = ''''") (auto split: sum.splits lookup_error.splits)
  assume "endpoint_agrees E inCluster host expected ep"
  then show ?thesis
    unfolding endpoint_agrees_def endpoint_errors_def
    by (cases "ep_in_cluster ep \<and> \<not> inCluster") (auto simp: s split: outcome.splits option.splits)
qed

lemma compare_records_errors:
  "snd (compare_records L E server port host expected) = server_errors E (server @ '':'' @ port_string port) host expected"
  by (auto simp: compare_records_def lookup_def append_error_def server_errors_def lookup_errors_def Let_def
      split: sum.splits lookup_error.splits)

lemma check_endpoint_errors:
  assumes "check_endpoint L E inCluster host expected ep = Returns (x, y)"
  shows "y = endpoint_errors E inCluster host expected ep"
proof -
  have snd: "compare_records L E server port host expected = (x, y) \<Longrightarrow>
      y = server_errors E (server @ '':'' @ port_string port) host expected" for server port
    using compare_records_errors [of L E server port host expected] by simp
  show ?thesis
  proof (cases "ep_in_cluster ep \<and> \<not> inCluster")
    case False
    with assms have "compare_records L E (ep_address ep) (ep_port ep) host expected = (x, y)"
      by (simp only: check_endpoint_def if_False outcome.inject)
    from snd [OF this] False show ?thesis by (simp only: endpoint_errors_def endpoint_server_def if_False)
  next
    case True
    let ?pfw = "portforward_new ''127.0.0.1'' 0 (ep_namespace ep) (ep_name ep) (ep_port ep)"
    from assms True obtain err pfw where s: "pf_start (re_pf_env E ep) ?pfw = Returns (err, pfw)"
      by (cases "pf_start (re_pf_env E ep) ?pfw") (auto simp: check_endpoint_def Let_def)
    show ?thesis
    proof (cases err)
      case (Some e)
      with assms True s show ?thesis by (simp add: check_endpoint_def endpoint_errors_def Let_def)
    next
      case None
      with pf_start_new_stop s obtain pfw' where "pf_stop pfw = Returns pfw'" by blast
      with assms True s None have "compare_records L E ''127.0.0.1'' (pf_local_port pfw) host expected = (x, y)"
        by (simp add: check_endpoint_def Let_def)
      from snd [OF this] True s None show ?thesis by (simp add: endpoint_errors_def)
    qed
  qed
qed

text \<open>What \<open>collect\<close> makes of results in which an error excludes agreement.\<close>

lemma collect_returns:
  "\<forall>(x, y) \<in> set rs. x \<longrightarrow> y = [] \<Longrightarrow>
    collect (map Returns rs) (active, merr) = Returns (active \<and> (\<forall>(x, y) \<in> set rs. x), merr @ concat (map snd rs))"
proof (induction rs arbitrary: active merr)
  case (Cons r rs)
  obtain x y where r: "r = (x, y)" by (cases r)
  from Cons.prems have rs: "\<forall>(x, y) \<in> set rs. x \<longrightarrow> y = []" and xy: "x \<longrightarrow> y = []" by (simp_all add: r)
  have "collect (map Returns (r # rs)) (active, merr) = collect (map Returns rs) (active \<and> x, merr @ y)"
    using xy by (cases "y = []"; cases x) (simp_all add: r)
  also have "\<dots> = Returns ((active \<and> x) \<and> (\<forall>(x, y) \<in> set rs. x), (merr @ y) @ concat (map snd rs))"
    by (rule Cons.IH [OF rs])
  finally show ?case by (simp add: r)
qed simp

context go_lib
begin

lemma check_endpoint_split:
  "check_endpoint L E inCluster host expected ep =
    Returns (endpoint_agrees E inCluster host expected ep, endpoint_errors E inCluster host expected ep)"
proof -
  obtain x y where c: "check_endpoint L E inCluster host expected ep = Returns (x, y)"
    using check_endpoint_returns by (cases "check_endpoint L E inCluster host expected ep") auto
  from check_endpoint_errors [OF c] have y: "y = endpoint_errors E inCluster host expected ep" .
  have "x \<longleftrightarrow> endpoint_agrees E inCluster host expected ep"
  proof
    assume x
    with check_endpoint_error [OF c] c have "check_endpoint L E inCluster host expected ep = Returns (True, [])" by auto
    then show "endpoint_agrees E inCluster host expected ep" by (simp only: check_endpoint_agrees)
  next
    assume "endpoint_agrees E inCluster host expected ep"
    then have "check_endpoint L E inCluster host expected ep = Returns (True, [])" by (simp only: check_endpoint_agrees)
    with c show x by simp
  qed
  with c y show ?thesis by simp
qed

end

section \<open>Discovery\<close>

definition pod_endpoint :: "16 word \<Rightarrow> endpoint_address \<Rightarrow> endpoint list" where
  "pod_endpoint port a =
     (case ea_target_ref a of
        Some ref \<Rightarrow>
          if ref_kind ref = ''Pod'' then
            [\<lparr>ep_address = ea_ip a, ep_port = port, ep_in_cluster = True,
              ep_namespace = ref_namespace ref, ep_name = ref_name ref\<rparr>]
          else []
      | None \<Rightarrow> [])"

definition subset_endpoints :: "string \<Rightarrow> endpoint_subset \<Rightarrow> endpoint list" where
  "subset_endpoints portName s =
     (if subset_port portName (es_ports s) = 0 then []
      else concat (map (pod_endpoint (subset_port portName (es_ports s))) (es_addresses s)))"

definition targets_known :: "string \<Rightarrow> endpoint_subset list \<Rightarrow> bool" where
  "targets_known portName subsets \<longleftrightarrow>
     (\<forall>s \<in> set subsets. subset_port portName (es_ports s) \<noteq> 0 \<longrightarrow>
        (\<forall>a \<in> set (es_addresses s). ea_target_ref a \<noteq> None))"

lemma address_loop_eq:
  "address_loop port as eps =
    (if \<forall>a \<in> set as. ea_target_ref a \<noteq> None then Returns (eps @ concat (map (pod_endpoint port) as))
     else Panics)"
  by (induction as arbitrary: eps) (auto simp: pod_endpoint_def split: option.splits)

lemma subset_loop_eq:
  "subset_loop portName ss eps =
    (if targets_known portName ss then Returns (eps @ concat (map (subset_endpoints portName) ss))
     else Panics)"
proof (induction ss arbitrary: eps)
  case Nil
  then show ?case by (simp add: targets_known_def)
next
  case (Cons s ss)
  have "targets_known portName (s # ss) \<longleftrightarrow>
      (subset_port portName (es_ports s) \<noteq> 0 \<longrightarrow> (\<forall>a \<in> set (es_addresses s). ea_target_ref a \<noteq> None)) \<and>
      targets_known portName ss"
    unfolding targets_known_def by simp
  with Cons show ?case by (simp add: subset_endpoints_def [of portName s] address_loop_eq Let_def)
qed

section \<open>A concrete environment\<close>

text \<open>One nameserver, which knows one name.\<close>

definition demo_lookup :: "nat \<Rightarrow> string \<Rightarrow> string \<Rightarrow> lookup_error + string list" where
  "demo_lookup n server host =
     (if host = ''a.org'' \<or> host = ''b.org'' then Inr [''10.0.0.2'', ''10.0.0.1''] else Inl DnsNotFound)"

definition demo_pf_env :: pf_env where
  "demo_pf_env =
     \<lparr>pe_host = ''https://api'', pe_round_tripper = None,
      pe_new_forwarder = (\<lambda>path host address ports. None),
      pe_select = SelReady (Inr [(4711, 53)]), pe_wrap = (\<lambda>err m. m @ err)\<rparr>"

definition demo_resolver_env :: resolver_env where
  "demo_resolver_env =
     \<lparr>re_lookup_host = demo_lookup, re_pf_env = (\<lambda>ep. demo_pf_env),
      re_get_service = Inr [\<lparr>svp_name = ''dns-tcp'', svp_protocol = ''TCP'', svp_port = 53\<rparr>],
      re_get_endpoints = Inr [\<lparr>es_ports = [(''dns-tcp'', 53)],
        es_addresses = [\<lparr>ea_ip = ''10.1.0.9'', ea_target_ref = Some
          \<lparr>ref_kind = ''Pod'', ref_namespace = ''kube-system'', ref_name = ''coredns''\<rparr>\<rparr>]\<rparr>]\<rparr>"

definition demo_endpoint :: endpoint where
  "demo_endpoint = \<lparr>ep_address = ''10.1.0.9'', ep_port = 53, ep_in_cluster = True,
     ep_namespace = ''kube-system'', ep_name = ''coredns''\<rparr>"

lemma demo_found: "found_endpoints demo_resolver_env (new_resolver False []) = Returns (Inr [demo_endpoint])"
  by (simp add: found_endpoints_def new_resolver_def discover_endpoints_def demo_resolver_env_def
      find_port_name_def subset_port_def demo_endpoint_def Let_def)

section \<open>Properties\<close>

text \<open>
  C14: the life of a handle from its first successful \<open>Start\<close> on, whatever calls came before on the new handle. If no
  \<open>Start\<close> before ended with a timeout or an error of the forwarder (so in particular if none came before), then no sequence of further
  calls panics, the local port stays as reported, every further \<open>Start\<close> is refused without an effect, and the stop channel is
  closed exactly when \<open>Stop\<close> was called. Otherwise the channel was closed by that failed \<open>Start\<close>, and further
  calls panic exactly if \<open>Stop\<close> is among them: the handle can never be stopped.
\<close>

theorem portforward_lifecycle:
  assumes "pf_run (portforward_new la lp ns n p) before = Returns pfw0"
    and "pf_start E pfw0 = Returns (None, pfw)"
  shows "if \<forall>E'. OpStart E' \<in> set before \<longrightarrow> \<not> closing_start E' (portforward_new la lp ns n p)
    then \<exists>pfw'. pf_run pfw xs = Returns pfw' \<and> pf_local_port pfw' = pf_local_port pfw \<and>
      (pf_stop_closed pfw' \<longleftrightarrow> OpStop \<in> set xs) \<and>
      (\<forall>E'. pf_start E' pfw' = Returns (Some (pf_message pfw' ''already started''), pfw'))
    else pf_run pfw xs = Panics \<longleftrightarrow> OpStop \<in> set xs"
proof -
  let ?new = "portforward_new la lp ns n p"
  from assms(2) have n0: "\<not> pf_started pfw0" and s: "pf_started pfw" "pf_stopped pfw = pf_stopped pfw0"
    "pf_stop_closed pfw = pf_stop_closed pfw0" by (auto simp: pf_start_ok)
  from unstarted_run [OF assms(1) n0] have c: "pf_stopped pfw0 = pf_stopped ?new"
    "pf_stop_closed pfw0 \<longleftrightarrow> (\<exists>E'. OpStart E' \<in> set before \<and> closing_start E' ?new)" by (auto simp: pf_new_fields)
  show ?thesis
  proof (cases "\<forall>E'. OpStart E' \<in> set before \<longrightarrow> \<not> closing_start E' ?new")
    case True
    with c s have "pf_inv pfw" "\<not> pf_stopped pfw" by (auto simp: pf_inv_def pf_new_fields)
    with pf_run_started [OF this(1) s(1), of xs] True show ?thesis by (auto simp: pf_inv_def pf_start_def)
  next
    case False
    with c s have "\<not> pf_stopped pfw" "pf_stop_closed pfw" by (auto simp: pf_new_fields)
    with broken_run [OF s(1) this] show ?thesis unfolding if_not_P [OF False] by simp
  qed
qed

text \<open>A handle that is started at once, and one that is started after a timeout.\<close>

definition timeout_env :: pf_env where
  "timeout_env = demo_pf_env\<lparr>pe_select := SelTimeout\<rparr>"

theorem portforward_lifecycle_witness:
  "\<exists>pfw pfw'. pf_run (portforward_new ''127.0.0.1'' 0 ''ns'' ''pod'' 53) [OpStart demo_pf_env] = Returns pfw \<and>
    pf_run pfw [OpStop, OpStart demo_pf_env, OpStop] = Returns pfw' \<and> pf_stop_closed pfw' \<and>
    pf_run (portforward_new ''127.0.0.1'' 0 ''ns'' ''pod'' 53) [OpStart timeout_env, OpStart demo_pf_env, OpStop] = Panics"
proof -
  let ?new = "portforward_new ''127.0.0.1'' 0 ''ns'' ''pod'' 53"
  obtain pfw where p: "pf_start demo_pf_env ?new = Returns (None, pfw)"
    by (simp add: pf_start_def demo_pf_env_def portforward_new_def)
  obtain pfw1 where q: "pf_start demo_pf_env (?new\<lparr>pf_stop_closed := True\<rparr>) = Returns (None, pfw1)"
    by (simp add: pf_start_def demo_pf_env_def portforward_new_def)
  have t: "pf_run ?new [OpStart timeout_env] = Returns (?new\<lparr>pf_stop_closed := True\<rparr>)"
    by (simp add: pf_start_def timeout_env_def demo_pf_env_def portforward_new_def close_stop_ch_def)
  have "closing_start timeout_env ?new" by (simp add: closing_start_def timeout_env_def demo_pf_env_def)
  with portforward_lifecycle [OF t q, of "[OpStop]"] have "pf_run pfw1 [OpStop] = Panics" by auto
  with t q have "pf_run ?new [OpStart timeout_env, OpStart demo_pf_env, OpStop] = Panics"
    by (auto split: outcome.splits)
  moreover have "pf_run ?new [] = Returns ?new" by simp
  from portforward_lifecycle [OF this p, of "[OpStop, OpStart demo_pf_env, OpStop]"] obtain pfw' where
    "pf_run pfw [OpStop, OpStart demo_pf_env, OpStop] = Returns pfw'" "pf_stop_closed pfw'" by auto
  ultimately show ?thesis using p by (intro exI [of _ pfw] exI [of _ pfw']) simp
qed

text \<open>
  \<open>Start\<close> of a new handle never panics, and succeeds exactly when the transport, the
  forwarder and the ports succeed and the forwarder reports one port pair, with the requested
  remote port and the requested local port (or any, if none was requested), which becomes the
  local port of the handle.
\<close>

lemma portforward_start_new:
  "pf_start E (portforward_new la lp ns n p) \<noteq> Panics \<and>
   (pf_start E (portforward_new la lp ns n p) = Returns (None, pfw) \<longleftrightarrow>
     pe_round_tripper E = None \<and>
     pe_new_forwarder E (''/api/v1/namespaces/'' @ ns @ ''/pods/'' @ n @ ''/portforward'')
       (trim_prefix (pe_host E) ''https://'') la (port_string lp @ '':'' @ port_string p) = None \<and>
     (\<exists>q. pe_select E = SelReady (Inr [(q, p)]) \<and> (lp = 0 \<or> q = lp) \<and>
        pfw = (portforward_new la lp ns n p)\<lparr>pf_local_port := q, pf_started := True\<rparr>))"
  using pf_start_panics [of E "portforward_new la lp ns n p"]
  unfolding pf_start_ok by (auto simp: pf_new_fields)

text \<open>
  C15: \<open>CheckRecord\<close> is sound and complete: with its endpoints known it answers true exactly
  when at every one of them the host and the expected name resolve to the same, nonempty set of
  addresses (or, for an empty expectation, the host to none). A true answer has no error.
\<close>

theorem check_record_correct:
  assumes "go_lib L" and "found_endpoints E r = Returns (Inr eps)"
  shows "\<exists>active es. check_record L E r host expected = Returns (active, es) \<and>
    (active \<longleftrightarrow> (\<forall>ep \<in> set eps. endpoint_agrees E (res_in_cluster r) host expected ep)) \<and>
    (active \<longrightarrow> es = [])"
  using check_record_found [OF assms(2), of L host expected] go_lib.check_endpoint_agrees [OF assms(1)]
  by fastforce

theorem check_record_correct_witness:
  "\<exists>es. check_record std_lib demo_resolver_env (new_resolver False []) ''a.org'' ''b.org'' = Returns (True, es)"
proof -
  have "endpoint_agrees demo_resolver_env False ''a.org'' ''b.org'' demo_endpoint"
    by code_simp
  then show ?thesis
    using check_record_correct [OF std.go_lib_axioms demo_found, of "''a.org''" "''b.org''"]
    by (auto simp: new_resolver_def)
qed

text \<open>
  C16: which errors a check reports. If the nameservers cannot be found, it is that error, and the check is inactive. Otherwise
  the errors are those of the endpoints, in order and with nothing added or left out: for an endpoint whose port-forward does
  not start, the error of the start; for any other, the errors of the lookups of the host and of the expected name at it, where a
  name that does not exist is no error. With any error the check is inactive; and the process panics only where the search for the
  nameservers does.
\<close>

theorem check_record_errors:
  assumes "go_lib L"
  shows "check_record L E r host expected =
    (case found_endpoints E r of
       Panics \<Rightarrow> Panics
     | Returns (Inl err) \<Rightarrow> Returns (False, [err])
     | Returns (Inr eps) \<Rightarrow>
         Returns (\<forall>ep \<in> set eps. endpoint_agrees E (res_in_cluster r) host expected ep,
           concat (map (endpoint_errors E (res_in_cluster r) host expected) eps))) \<and>
    (endpoint_errors E (res_in_cluster r) host expected ep \<noteq> [] \<longrightarrow>
      \<not> endpoint_agrees E (res_in_cluster r) host expected ep)"
proof -
  let ?a = "endpoint_agrees E (res_in_cluster r) host expected"
  let ?e = "endpoint_errors E (res_in_cluster r) host expected"
  have f: "check_endpoint L E (res_in_cluster r) host expected = (\<lambda>ep. Returns (?a ep, ?e ep))"
    by (rule ext) (rule go_lib.check_endpoint_split [OF assms])
  have "check_record L E r host expected = Returns (\<forall>ep \<in> set eps. ?a ep, concat (map ?e eps))"
    if "found_endpoints E r = Returns (Inr eps)" for eps
  proof -
    have "check_record L E r host expected = collect (map Returns (map (\<lambda>ep. (?a ep, ?e ep)) eps)) (True, [])"
      using that by (simp add: check_record_def found_endpoints_def Let_def comp_def f)
    also have "\<dots> = Returns (\<forall>ep \<in> set eps. ?a ep, concat (map ?e eps))"
      by (subst collect_returns) (auto simp: agrees_no_error comp_def)
    finally show ?thesis .
  qed
  then show ?thesis
    using check_record_not_found [of E r] agrees_no_error by (cases rule: found_endpoints_cases [of E r]) auto
qed

text \<open>Two nameservers, of which one fails.\<close>

definition failing_env :: resolver_env where
  "failing_env = demo_resolver_env\<lparr>re_lookup_host := (\<lambda>n server host.
     if server = ''10.1.0.8:53'' then Inl (LookupFailed ''timeout'') else demo_lookup n server host)\<rparr>"

theorem check_record_errors_witness:
  "check_record std_lib failing_env
      (new_resolver True [demo_endpoint, demo_endpoint\<lparr>ep_address := ''10.1.0.8''\<rparr>]) ''a.org'' ''c.org'' =
    Returns (False, [''timeout'', ''timeout''])"
proof -
  have p: "port_string 53 = ''53''" by code_simp
  show ?thesis
    using check_record_errors [OF std.go_lib_axioms, of failing_env
      "new_resolver True [demo_endpoint, demo_endpoint\<lparr>ep_address := ''10.1.0.8''\<rparr>]" "''a.org''" "''c.org''"]
    by (simp add: found_endpoints_def new_resolver_def failing_env_def demo_endpoint_def endpoint_errors_def server_errors_def
        lookup_errors_def endpoint_server_def endpoint_agrees_def same_answer_def demo_lookup_def p)
qed

text \<open>
  C17: \<open>discoverEndpoints\<close>, given what it reads: it returns, for every subset that has the
  port named like port tcp/53 of the service, one in-cluster endpoint per pod address, in order;
  it panics exactly when such a subset has an address without target.
\<close>

theorem discover_endpoints_correct:
  assumes "re_get_service E = Inr ports" and "find_port_name ports \<noteq> ''''"
    and "re_get_endpoints E = Inr subsets"
  shows "discover_endpoints E =
    (if targets_known (find_port_name ports) subsets
     then Returns (Inr (concat (map (subset_endpoints (find_port_name ports)) subsets)))
     else Panics)"
  using assms by (simp add: discover_endpoints_def subset_loop_eq Let_def)

theorem discover_endpoints_correct_witness:
  "discover_endpoints demo_resolver_env = Returns (Inr [demo_endpoint])"
proof -
  have s: "re_get_service demo_resolver_env = Inr [\<lparr>svp_name = ''dns-tcp'', svp_protocol = ''TCP'', svp_port = 53\<rparr>]"
    and n: "find_port_name [\<lparr>svp_name = ''dns-tcp'', svp_protocol = ''TCP'', svp_port = 53\<rparr>] = ''dns-tcp''"
    by (simp_all add: demo_resolver_env_def find_port_name_def)
  obtain ss where e: "re_get_endpoints demo_resolver_env = Inr ss"
    and ss: "ss = [\<lparr>es_ports = [(''dns-tcp'', 53)],
        es_addresses = [\<lparr>ea_ip = ''10.1.0.9'', ea_target_ref = Some
          \<lparr>ref_kind = ''Pod'', ref_namespace = ''kube-system'', ref_name = ''coredns''\<rparr>\<rparr>]\<rparr>]"
    by (simp add: demo_resolver_env_def)
  show ?thesis
    using discover_endpoints_correct [OF s, unfolded n, OF _ e]
    by (simp add: ss demo_endpoint_def targets_known_def subset_endpoints_def subset_port_def pod_endpoint_def)
qed


section \<open>Failed starts\<close>

text \<open>
  A start that fails does not mark the handle, so the next one is not refused: it may succeed,
  and after a timeout it panics on the closed channel when it runs into an error or a timeout again.
\<close>

lemma second_timeout_panics:
  "pf_run (portforward_new la lp ns n p)
    (replicate 2 (OpStart \<lparr>pe_host = '''', pe_round_tripper = None, pe_new_forwarder = (\<lambda>path host la ports. None),
      pe_select = SelTimeout, pe_wrap = (\<lambda>err msg. msg @ err)\<rparr>)) = Panics"
  by (simp add: numeral_2_eq_2 pf_start_def portforward_new_def close_stop_ch_def)

text \<open>Without endpoints every record counts as active.\<close>

lemma no_endpoints_active:
  assumes "go_lib L" and "found_endpoints E r = Returns (Inr [])"
  shows "check_record L E r host expected = Returns (True, [])"
  using check_record_found [OF assms(2), of L host expected] by simp


end
