(* ===== verification/Kube.thy ===== *)
theory Kube
  imports Masq_Api
begin

text \<open>
  The outside world of the controllers: the Kubernetes API as the code calls it, the clock, the
  event recorder and the resolver interface.

  A run of a controller is the list of its calls so far (\<open>trace\<close>, oldest first). The record
  \<open>kube\<close> gives the answer to every call as a function of the calls before it, so the answers
  of successive calls may differ in any way; what the API server promises appears as a named
  hypothesis where a property needs it. A write that succeeds returns the server's copy of the
  object, which the client library stores into the object that was passed.
\<close>

section \<open>Errors\<close>

datatype api_error = NotFound string | ApiError string

fun error_text :: "api_error \<Rightarrow> string" where
  "error_text (NotFound e) = e"
| "error_text (ApiError e) = e"

text \<open>\<^verbatim>\<open>client.IgnoreNotFound\<close>.\<close>

definition ignore_not_found :: "api_error \<Rightarrow> string option" where
  "ignore_not_found e = (case e of NotFound _ \<Rightarrow> None | ApiError t \<Rightarrow> Some t)"

section \<open>Objects and calls\<close>

record config_map =
  cm_namespace :: string
  cm_name :: string
  cm_resource_version :: string
  cm_annotations :: "(string, string) fmap option"
  cm_data :: "(string, string) fmap option"

record group_version_kind =
  gvk_group :: string
  gvk_version :: string
  gvk_kind :: string

text \<open>
  A service, ingress or gateway, as far as the controllers use it. Its kind is part of the
  object, because the copy an update returns replaces it too.
\<close>

record source_object =
  so_gvk :: group_version_kind
  so_meta :: object_meta

datatype event_type = Normal | Warning

text \<open>The subject of an event: the masquerading rule itself, or the object that controls it.\<close>

datatype event_subject =
    OnRule string string \<comment> \<open>namespace and name\<close>
  | OnOwner group_version_kind string string

datatype api_call =
    GetRule string string
  | GetConfigMap string string
  | GetOwner group_version_kind string string
  | GetSource string string
  | ListRules string string \<comment> \<open>namespace, and the value of the uid label\<close>
  | CreateRule masquerading_rule
  | UpdateRule masquerading_rule
  | UpdateRuleStatus masquerading_rule
  | DeleteRule masquerading_rule
  | UpdateSource source_object
  | CreateConfigMap config_map
  | UpdateConfigMap config_map
  | CheckRecord string string
  | RecordEvent event_subject event_type string string
  | ReadClock

type_synonym trace = "api_call list"

text \<open>
  \<open>k_scheme_new\<close> is \<^verbatim>\<open>Scheme.New\<close> (\<^const>\<open>None\<close> when it succeeds), \<open>k_parse_time\<close> and
  \<open>k_format_time\<close> are \<^verbatim>\<open>time.Parse\<close> and \<^verbatim>\<open>Format\<close> with the layout \<^verbatim>\<open>RFC3339Nano\<close>, \<open>k_now\<close> is the
  clock, \<open>k_wrap\<close> is the text of \<^verbatim>\<open>errors.Wrap\<close> and \<^verbatim>\<open>Wrapf\<close> for an error and a message, and
  \<open>k_aggregate\<close> the text of \<^verbatim>\<open>utilerrors.NewAggregate\<close> for an optional and an actual error.
\<close>

record kube =
  k_get_rule :: "trace \<Rightarrow> string \<Rightarrow> string \<Rightarrow> api_error + masquerading_rule"
  k_get_config_map :: "trace \<Rightarrow> string \<Rightarrow> string \<Rightarrow> api_error + config_map"
  k_get_owner :: "trace \<Rightarrow> group_version_kind \<Rightarrow> string \<Rightarrow> string \<Rightarrow> api_error option"
  k_list_rules :: "trace \<Rightarrow> string \<Rightarrow> string \<Rightarrow> api_error + masquerading_rule list"
  k_create_rule :: "trace \<Rightarrow> masquerading_rule \<Rightarrow> api_error + masquerading_rule"
  k_update_rule :: "trace \<Rightarrow> masquerading_rule \<Rightarrow> api_error + masquerading_rule"
  k_update_status :: "trace \<Rightarrow> masquerading_rule \<Rightarrow> api_error + masquerading_rule"
  k_delete_rule :: "trace \<Rightarrow> masquerading_rule \<Rightarrow> api_error option"
  k_update_source :: "trace \<Rightarrow> source_object \<Rightarrow> api_error + source_object"
  k_create_config_map :: "trace \<Rightarrow> config_map \<Rightarrow> api_error + config_map"
  k_update_config_map :: "trace \<Rightarrow> config_map \<Rightarrow> api_error + config_map"
  k_check_record :: "trace \<Rightarrow> string \<Rightarrow> string \<Rightarrow> bool \<times> string option"
  k_scheme_new :: "group_version_kind \<Rightarrow> string option"
  k_parse_time :: "string \<Rightarrow> string + time"
  k_format_time :: "time \<Rightarrow> string"
  k_now :: "trace \<Rightarrow> time"
  k_wrap :: "string \<Rightarrow> string \<Rightarrow> string"
  k_aggregate :: "string option \<Rightarrow> string \<Rightarrow> string"

text \<open>\<^verbatim>\<open>ctrl.Result\<close>; durations are nanoseconds.\<close>

record ctrl_result =
  res_requeue :: bool
  res_requeue_after :: int

definition no_result :: ctrl_result where
  "no_result = \<lparr>res_requeue = False, res_requeue_after = 0\<rparr>"

definition seconds :: "int \<Rightarrow> int" where "seconds n = n * 1000000000"

definition requeue_after :: "int \<Rightarrow> ctrl_result" where
  "requeue_after d = no_result\<lparr>res_requeue_after := d\<rparr>"

section \<open>Labels, annotations and the finalizer\<close>

definition label_controller_group :: string where
  "label_controller_group = ''dns.cs.sap.com/controller-group''"
definition label_controller_version :: string where
  "label_controller_version = ''dns.cs.sap.com/controller-version''"
definition label_controller_kind :: string where
  "label_controller_kind = ''dns.cs.sap.com/controller-kind''"
definition label_controller_name :: string where
  "label_controller_name = ''dns.cs.sap.com/controller-name''"
definition label_controller_uid :: string where
  "label_controller_uid = ''dns.cs.sap.com/controller-uid''"

definition annotation_masquerade_from :: string where
  "annotation_masquerade_from = ''dns.cs.sap.com/masquerade-from''"
definition annotation_masquerade_to :: string where
  "annotation_masquerade_to = ''dns.cs.sap.com/masquerade-to''"
definition annotation_masquerade_to_legacy :: string where
  "annotation_masquerade_to_legacy = ''masquerading-operator.dns.sap.com/masquerade-to''"
definition annotation_last_updated_at :: string where
  "annotation_last_updated_at = ''dns.cs.sap.com/last-updated-at''"

definition finalizer :: string where "finalizer = ''dns.cs.sap.com/masquerading-operator''"

end
