(* ===== verification/Reconciler.thy ===== *)
theory Reconciler
  imports Kube Rewrite_File Webhook
begin

text \<open>
  \<^verbatim>\<open>internal/controllers/masqueradingrule_controller.go\<close>: \<open>Reconcile\<close> for one masquerading
  rule. The body of the function is split at its branches; every part threads the trace and
  ends in an \<open>outcome\<close> of the body: result, error, the rule in memory, whether the deferred
  status update is skipped. The two deferred functions run after it, the last one first.
\<close>

section \<open>Configuration and the end of the body\<close>

record reconciler =
  rc_cm_namespace :: string
  rc_cm_name :: string
  rc_cm_key :: string
  rc_update_delay :: int

record body_end =
  be_result :: ctrl_result
  be_err :: "string option"
  be_rule :: masquerading_rule
  be_skip :: bool

definition ended :: "masquerading_rule \<Rightarrow> ctrl_result \<Rightarrow> body_end" where
  "ended mr result = \<lparr>be_result = result, be_err = None, be_rule = mr, be_skip = False\<rparr>"

definition failed :: "masquerading_rule \<Rightarrow> string \<Rightarrow> body_end" where
  "failed mr err = \<lparr>be_result = no_result, be_err = Some err, be_rule = mr, be_skip = False\<rparr>"

definition owner_id :: "masquerading_rule \<Rightarrow> string" where
  "owner_id mr =
     om_uid (mr_meta mr) @ '' ('' @ om_namespace (mr_meta mr) @ ''/'' @ om_name (mr_meta mr) @ '')''"

text \<open>\<open>SetState\<close> reads the clock.\<close>

definition set_state_now ::
  "kube \<Rightarrow> trace \<Rightarrow> masquerading_rule \<Rightarrow> rule_state \<Rightarrow> string \<Rightarrow> masquerading_rule \<times> trace"
where
  "set_state_now K tr mr state message = (set_state (k_now K tr) mr state message, tr @ [ReadClock])"

definition waiting :: string where
  "waiting = ''waiting for masquerading rule to be reconciled''"

section \<open>Writing the config map\<close>

text \<open>
  The block that both the create/update and the deletion case contain, from the check of the
  data map to the update. The caller has set the state and read the config map \<open>cm\<close>.
\<close>

definition store_config_map ::
  "kube \<Rightarrow> lib \<Rightarrow> reconciler \<Rightarrow> masquerading_rule \<Rightarrow> config_map \<Rightarrow> rewrite_rule_set \<Rightarrow> time \<Rightarrow> trace \<Rightarrow>
    body_end \<times> trace"
where
  "store_config_map K L R mr cm ruleset now tr =
     (let annotations = (case cm_annotations cm of None \<Rightarrow> fmempty | Some a \<Rightarrow> a);
          data = (case cm_data cm of None \<Rightarrow> fmempty | Some d \<Rightarrow> d);
          cm' = cm\<lparr>cm_annotations := Some (fmupd annotation_last_updated_at (k_format_time K now) annotations),
                   cm_data := Some (fmupd (rc_cm_key R) (rule_set_string L ruleset) data)\<rparr>
      in
      case k_update_config_map K tr cm' of
        Inl err \<Rightarrow>
          (failed mr (k_wrap K (error_text err)
             (''error updating config map '' @ cm_namespace cm' @ ''/'' @ cm_name cm')),
           tr @ [UpdateConfigMap cm'])
      | Inr _ \<Rightarrow> (ended mr (requeue_after (seconds 1)), tr @ [UpdateConfigMap cm']))"

definition update_config_map ::
  "kube \<Rightarrow> lib \<Rightarrow> reconciler \<Rightarrow> masquerading_rule \<Rightarrow> config_map \<Rightarrow> rewrite_rule_set \<Rightarrow> trace \<Rightarrow>
    body_end \<times> trace"
where
  "update_config_map K L R mr cm ruleset tr0 =
     (let now = k_now K tr0;
          tr = tr0 @ [ReadClock]
      in
      case opt_lookup (cm_annotations cm) annotation_last_updated_at of
        None \<Rightarrow> store_config_map K L R mr cm ruleset now tr
      | Some val \<Rightarrow>
          (case k_parse_time K val of
             Inl err \<Rightarrow>
               (failed mr (k_wrap K err (''found invalid timestamp in configmap annotation ''
                  @ annotation_last_updated_at @ '': '' @ val)), tr)
           | Inr lastUpdatedAt \<Rightarrow>
               if now < lastUpdatedAt + rc_update_delay R then
                 (ended mr (requeue_after (seconds 1)), tr)
               else store_config_map K L R mr cm ruleset now tr))"

definition load_error :: "kube \<Rightarrow> reconciler \<Rightarrow> config_map \<Rightarrow> string \<Rightarrow> string" where
  "load_error K R cm err =
     k_wrap K err (''error loading rewrite rules from config map '' @ cm_namespace cm @ ''/'' @ cm_name cm
       @ '' (key: '' @ rc_cm_key R @ '')'')"

section \<open>The create/update case\<close>

text \<open>The record check at the end, for a rule that the config map holds already.\<close>

definition check_active ::
  "kube \<Rightarrow> masquerading_rule \<Rightarrow> trace \<Rightarrow> body_end \<times> trace"
where
  "check_active K mr tr =
     (let host = replace_wildcard (sp_from (mr_spec mr));
          expected = sp_to (mr_spec mr);
          (active, err) = k_check_record K tr host expected;
          tr1 = tr @ [CheckRecord host expected];
          subject = OnRule (om_namespace (mr_meta mr)) (om_name (mr_meta mr))
      in
      case err of
        Some e \<Rightarrow> (failed mr (k_wrap K e ''error check DNS record''), tr1)
      | None \<Rightarrow>
          if active then
            let (mr2, tr2) = set_state_now K tr1 mr StateReady ''masquerading rule completely reconciled'' in
            (ended mr2 (requeue_after (seconds 600)),
             tr2 @ [RecordEvent subject Normal ''ReconcilationSucceeded''
                      ''masquerading rule completely reconciled''])
          else
            let (mr2, tr2) = set_state_now K tr1 mr StateProcessing waiting in
            (ended mr2 (requeue_after (seconds 10)),
             tr2 @ [RecordEvent subject Warning ''ReconcilationProcessing'' waiting]))"

text \<open>The config map does not exist yet.\<close>

definition create_config_map ::
  "kube \<Rightarrow> lib \<Rightarrow> reconciler \<Rightarrow> masquerading_rule \<Rightarrow> rewrite_rule \<Rightarrow> trace \<Rightarrow> body_end \<times> trace"
where
  "create_config_map K L R mr rule tr =
     (case add_rule L new_rewrite_rule_set rule of
        (Inl err, _) \<Rightarrow> (failed mr (k_wrap K err ''error adding rewrite rule''), tr)
      | (Inr _, ruleset) \<Rightarrow>
          let (mr1, tr1) = set_state_now K tr mr StateProcessing waiting;
              cm = \<lparr>cm_namespace = rc_cm_namespace R, cm_name = rc_cm_name R, cm_resource_version = '''',
                    cm_annotations = None,
                    cm_data = Some (fmupd (rc_cm_key R) (rule_set_string L ruleset) fmempty)\<rparr>
          in
          (case k_create_config_map K tr1 cm of
             Inl err \<Rightarrow>
               (failed mr1 (k_wrap K (error_text err)
                  (''error creating config map '' @ cm_namespace cm @ ''/'' @ cm_name cm)),
                tr1 @ [CreateConfigMap cm])
           | Inr _ \<Rightarrow> (ended mr1 (requeue_after (seconds 1)), tr1 @ [CreateConfigMap cm])))"

definition apply_rule ::
  "kube \<Rightarrow> lib \<Rightarrow> reconciler \<Rightarrow> masquerading_rule \<Rightarrow> rewrite_rule \<Rightarrow> config_map \<Rightarrow> trace \<Rightarrow>
    body_end \<times> trace"
where
  "apply_rule K L R mr rule cm tr =
     (case parse_rewrite_rule_set L (opt_index (cm_data cm) (rc_cm_key R)) of
        Inl err \<Rightarrow> (failed mr (load_error K R cm err), tr)
      | Inr ruleset0 \<Rightarrow>
          (case add_rule L ruleset0 rule of
             (Inl err, _) \<Rightarrow> (failed mr (k_wrap K err ''error adding rewrite rule''), tr)
           | (Inr changed, ruleset) \<Rightarrow>
               if changed then
                 let (mr1, tr1) = set_state_now K tr mr StateProcessing waiting in
                 update_config_map K L R mr1 cm ruleset tr1
               else check_active K mr tr))"

definition set_finalizer ::
  "kube \<Rightarrow> lib \<Rightarrow> masquerading_rule \<Rightarrow> trace \<Rightarrow> (string \<times> masquerading_rule + masquerading_rule) \<times> trace"
where
  "set_finalizer K L mr tr =
     (if \<not> lib_contains L (om_finalizers (mr_meta mr)) finalizer then
        let mr1 = mr\<lparr>mr_meta := (mr_meta mr)\<lparr>om_finalizers :=
              fst (lib_add_finalizer L (om_finalizers (mr_meta mr)) finalizer)\<rparr>\<rparr>
        in
        (case k_update_rule K tr mr1 of
           Inl err \<Rightarrow> (Inl (k_wrap K (error_text err) ''error setting finalizer'', mr1), tr @ [UpdateRule mr1])
         | Inr mr2 \<Rightarrow> (Inr mr2, tr @ [UpdateRule mr1]))
      else (Inr mr, tr))"

definition reconcile_present ::
  "kube \<Rightarrow> lib \<Rightarrow> reconciler \<Rightarrow> masquerading_rule \<Rightarrow> string \<Rightarrow> config_map option \<Rightarrow> trace \<Rightarrow>
    body_end \<times> trace"
where
  "reconcile_present K L R mr0 owner configMap tr0 =
     (case set_finalizer K L mr0 tr0 of
        (Inl (err, mr), tr) \<Rightarrow> (failed mr err, tr)
      | (Inr mr, tr) \<Rightarrow>
          (case new_rewrite_rule owner (sp_from (mr_spec mr)) (sp_to (mr_spec mr)) of
             Inl err \<Rightarrow> (failed mr (k_wrap K err ''error adding rewrite rule''), tr)
           | Inr rule \<Rightarrow>
               (case configMap of
                  None \<Rightarrow> create_config_map K L R mr rule tr
                | Some cm \<Rightarrow> apply_rule K L R mr rule cm tr)))"

section \<open>The deletion case\<close>

definition clear_finalizer ::
  "kube \<Rightarrow> lib \<Rightarrow> masquerading_rule \<Rightarrow> trace \<Rightarrow> body_end \<times> trace"
where
  "clear_finalizer K L mr tr =
     (if lib_contains L (om_finalizers (mr_meta mr)) finalizer then
        let mr1 = mr\<lparr>mr_meta := (mr_meta mr)\<lparr>om_finalizers :=
              fst (lib_remove_finalizer L (om_finalizers (mr_meta mr)) finalizer)\<rparr>\<rparr>
        in
        (case k_update_rule K tr mr1 of
           Inl err \<Rightarrow>
             (failed mr1 (k_wrap K (error_text err) ''error clearing finalizer''), tr @ [UpdateRule mr1])
         | Inr mr2 \<Rightarrow> ((ended mr2 no_result)\<lparr>be_skip := True\<rparr>, tr @ [UpdateRule mr1]))
      else ((ended mr no_result)\<lparr>be_skip := True\<rparr>, tr))"

definition reconcile_deleted ::
  "kube \<Rightarrow> lib \<Rightarrow> reconciler \<Rightarrow> masquerading_rule \<Rightarrow> string \<Rightarrow> config_map option \<Rightarrow> trace \<Rightarrow>
    body_end \<times> trace"
where
  "reconcile_deleted K L R mr owner configMap tr =
     (case configMap of
        None \<Rightarrow> clear_finalizer K L mr tr
      | Some cm \<Rightarrow>
          (case parse_rewrite_rule_set L (opt_index (cm_data cm) (rc_cm_key R)) of
             Inl err \<Rightarrow> (failed mr (load_error K R cm err), tr)
           | Inr ruleset0 \<Rightarrow>
               let (changed, ruleset) = remove_rule ruleset0 owner in
               if changed then
                 let (mr1, tr1) = set_state_now K tr mr StateDeleting
                       ''waiting for masquerading rule to be deleted'' in
                 update_config_map K L R mr1 cm ruleset tr1
               else clear_finalizer K L mr tr))"

section \<open>The body and the deferred functions\<close>

definition reconcile_body ::
  "kube \<Rightarrow> lib \<Rightarrow> reconciler \<Rightarrow> masquerading_rule \<Rightarrow> trace \<Rightarrow> body_end \<times> trace"
where
  "reconcile_body K L R mr tr0 =
     (if st_state (mr_status mr) = StateUnset then
        let (mr1, tr1) = set_state_now K tr0 mr StateNew ''First seen'' in
        (ended mr1 (no_result\<lparr>res_requeue := True\<rparr>), tr1)
      else
        let got = k_get_config_map K tr0 (rc_cm_namespace R) (rc_cm_name R);
            tr = tr0 @ [GetConfigMap (rc_cm_namespace R) (rc_cm_name R)];
            owner = owner_id mr
        in
        (case got of
           Inl (ApiError err) \<Rightarrow> (failed mr (k_wrap K err ''unexpected get error''), tr)
         | _ \<Rightarrow>
             let configMap = (case got of Inl _ \<Rightarrow> None | Inr cm \<Rightarrow> Some cm) in
             if deletion_is_zero (mr_meta mr) then reconcile_present K L R mr owner configMap tr
             else if length (lib_remove L (om_finalizers (mr_meta mr)) finalizer) > 0 then
               let (mr1, tr1) = set_state_now K tr mr StateDeletionBlocked
                     ''Deletion blocked due to foreign finalizers'' in
               (ended mr1 (requeue_after (seconds 10)), tr1)
             else reconcile_deleted K L R mr owner configMap tr))"

text \<open>
  \<^verbatim>\<open>createEventForObject\<close>; its error is only logged. The kinds registered in the scheme are API
  objects.
\<close>

definition create_event_for_object ::
  "kube \<Rightarrow> group_version_kind \<Rightarrow> string \<Rightarrow> string \<Rightarrow> event_type \<Rightarrow> string \<Rightarrow> string \<Rightarrow> trace \<Rightarrow>
    string option \<times> trace"
where
  "create_event_for_object K gvk namespace name eventType reason message tr =
     (case k_scheme_new K gvk of
        Some err \<Rightarrow> (Some err, tr)
      | None \<Rightarrow>
          (case k_get_owner K tr gvk namespace name of
             Some err \<Rightarrow> (Some (error_text err), tr @ [GetOwner gvk namespace name])
           | None \<Rightarrow>
               (None, tr @ [GetOwner gvk namespace name,
                            RecordEvent (OnOwner gvk namespace name) eventType reason message])))"

definition owner_message :: "masquerading_rule \<Rightarrow> string \<Rightarrow> string" where
  "owner_message mr what =
     ''Masquerading rule '' @ om_namespace (mr_meta mr) @ ''/'' @ om_name (mr_meta mr) @ '' (host ''
       @ sp_from (mr_spec mr) @ '') '' @ what"

definition notify_owner ::
  "kube \<Rightarrow> rule_state \<Rightarrow> masquerading_rule \<Rightarrow> trace \<Rightarrow> trace"
where
  "notify_owner K previous mr tr =
     (if fmlookup (om_labels (mr_meta mr)) label_controller_uid = None then tr
      else
        let labels = om_labels (mr_meta mr);
            gvk = \<lparr>gvk_group = map_index labels label_controller_group,
                   gvk_version = map_index labels label_controller_version,
                   gvk_kind = map_index labels label_controller_kind\<rparr>;
            name = map_index labels label_controller_name;
            state = st_state (mr_status mr)
        in
        if state = StateReady \<and> previous \<noteq> StateReady then
          snd (create_event_for_object K gvk (om_namespace (mr_meta mr)) name Normal
            ''ReconciliationSucceeded'' (owner_message mr ''successfully reconciled'') tr)
        else if state = StateError \<and> previous \<noteq> StateError then
          snd (create_event_for_object K gvk (om_namespace (mr_meta mr)) name Warning
            ''ReconciliationFailed'' (owner_message mr ''reconciliation failed'') tr)
        else tr)"

definition update_status ::
  "kube \<Rightarrow> body_end \<Rightarrow> trace \<Rightarrow> (ctrl_result \<times> string option) \<times> trace"
where
  "update_status K b tr0 =
     (if be_skip b then ((be_result b, be_err b), tr0)
      else
        let (mr, tr) =
          (case be_err b of
             None \<Rightarrow> (be_rule b, tr0)
           | Some e \<Rightarrow>
               let (mr1, tr1) = set_state_now K tr0 (be_rule b) StateError e in
               (mr1, tr1 @ [RecordEvent
                  (OnRule (om_namespace (mr_meta mr1)) (om_name (mr_meta mr1))) Warning
                  ''ReconciliationFailed'' e]))
        in
        (case k_update_status K tr mr of
           Inl updateErr \<Rightarrow>
             ((no_result, Some (k_aggregate K (be_err b) (error_text updateErr))), tr @ [UpdateRuleStatus mr])
         | Inr _ \<Rightarrow> ((be_result b, be_err b), tr @ [UpdateRuleStatus mr])))"

definition reconcile_rule ::
  "kube \<Rightarrow> lib \<Rightarrow> reconciler \<Rightarrow> string \<Rightarrow> string \<Rightarrow> (ctrl_result \<times> string option) \<times> trace"
where
  "reconcile_rule K L R ns name =
     (let tr = [GetRule ns name] in
      case k_get_rule K [] ns name of
        Inl err \<Rightarrow>
          ((no_result, map_option (\<lambda>e. k_wrap K e ''unexpected get error'') (ignore_not_found err)), tr)
      | Inr mr0 \<Rightarrow>
          let previous = st_state (mr_status mr0) in
          (case webhook_default mr0 of
             (Some err, _) \<Rightarrow> ((no_result, Some (k_wrap K err ''error setting defaults'')), tr)
           | (None, mr1) \<Rightarrow>
               let mr2 = mr1\<lparr>mr_status := (mr_status mr1)
                     \<lparr>st_observed_generation := om_generation (mr_meta mr1)\<rparr>\<rparr>;
                   (b, tr1) = reconcile_body K L R mr2 tr;
                   tr2 = notify_owner K previous (be_rule b) tr1
               in update_status K b tr2))"

end
