(* ===== verification/Reconciler_Paths.thy ===== *)
theory Reconciler_Paths
  imports Reconciler
begin

text \<open>
  The ways through the body of \<open>Reconcile\<close>, as a relation \<open>body_path\<close> between the rule that was
  read and the end of the body with the calls that were made; the code takes one of them
  (\<open>reconcile_body_path\<close>). The lemmas on the parts say which calls each part makes.
\<close>

section \<open>Parts of the body\<close>

text \<open>The config map that is written, from the one that was read.\<close>

definition stored_map ::
  "kube \<Rightarrow> lib \<Rightarrow> reconciler \<Rightarrow> config_map \<Rightarrow> rewrite_rule_set \<Rightarrow> time \<Rightarrow> config_map"
where
  "stored_map K L R cm rs now =
     cm\<lparr>cm_annotations := Some (fmupd annotation_last_updated_at (k_format_time K now)
          (case cm_annotations cm of None \<Rightarrow> fmempty | Some a \<Rightarrow> a)),
        cm_data := Some (fmupd (rc_cm_key R) (rule_set_string L rs)
          (case cm_data cm of None \<Rightarrow> fmempty | Some d \<Rightarrow> d))\<rparr>"

definition delay_over :: "kube \<Rightarrow> reconciler \<Rightarrow> config_map \<Rightarrow> time \<Rightarrow> bool" where
  "delay_over K R cm now \<longleftrightarrow>
     (\<forall>val. opt_lookup (cm_annotations cm) annotation_last_updated_at = Some val \<longrightarrow>
        (\<exists>last. k_parse_time K val = Inr last \<and> last + rc_update_delay R \<le> now))"

text \<open>An end of the body after a step that went through, or failed.\<close>

definition plain_end :: "masquerading_rule \<Rightarrow> int \<Rightarrow> body_end \<Rightarrow> bool" where
  "plain_end mr d b \<longleftrightarrow> b = ended mr (requeue_after (seconds d)) \<or> (\<exists>e. b = failed mr e)"

lemma update_config_map_spec:
  assumes "update_config_map K L R mr cm rs tr0 = (b, tr)"
  shows "plain_end mr 1 b \<and>
    (tr = tr0 @ [ReadClock] \<or>
     tr = tr0 @ [ReadClock, UpdateConfigMap (stored_map K L R cm rs (k_now K tr0))] \<and>
       delay_over K R cm (k_now K tr0))"
  using assms
  by (auto simp: update_config_map_def store_config_map_def stored_map_def plain_end_def
      delay_over_def Let_def not_less split: option.splits sum.splits if_splits)

definition new_config_map :: "lib \<Rightarrow> reconciler \<Rightarrow> rewrite_rule_set \<Rightarrow> config_map" where
  "new_config_map L R rs =
     \<lparr>cm_namespace = rc_cm_namespace R, cm_name = rc_cm_name R, cm_resource_version = '''',
      cm_annotations = None,
      cm_data = Some (fmupd (rc_cm_key R) (rule_set_string L rs) fmempty)\<rparr>"

lemma create_config_map_spec:
  assumes "create_config_map K L R mr rule tr0 = (b, tr)"
  shows "(\<exists>e. b = failed mr e \<and> tr = tr0) \<or>
    (\<exists>ch rs. add_rule L new_rewrite_rule_set rule = (Inr ch, rs) \<and>
       plain_end (set_state (k_now K tr0) mr StateProcessing waiting) 1 b \<and>
       tr = tr0 @ [ReadClock, CreateConfigMap (new_config_map L R rs)])"
  using assms
  by (auto simp: create_config_map_def set_state_now_def new_config_map_def plain_end_def Let_def
      split: prod.splits sum.splits)

text \<open>The three ends of the record check.\<close>

lemma check_active_error:
  "k_check_record K tr (replace_wildcard (sp_from (mr_spec mr))) (sp_to (mr_spec mr)) = (active, Some e) \<Longrightarrow>
    check_active K mr tr = (failed mr (k_wrap K e ''error check DNS record''),
      tr @ [CheckRecord (replace_wildcard (sp_from (mr_spec mr))) (sp_to (mr_spec mr))])"
  by (simp add: check_active_def)

lemma check_active_true:
  fixes mr :: masquerading_rule and tr :: trace
  defines "check \<equiv> CheckRecord (replace_wildcard (sp_from (mr_spec mr))) (sp_to (mr_spec mr))"
  assumes "k_check_record K tr (replace_wildcard (sp_from (mr_spec mr))) (sp_to (mr_spec mr)) = (True, None)"
  shows "check_active K mr tr =
    (ended (set_state (k_now K (tr @ [check])) mr StateReady ''masquerading rule completely reconciled'')
      (requeue_after (seconds 600)),
     tr @ [check, ReadClock, RecordEvent (OnRule (om_namespace (mr_meta mr)) (om_name (mr_meta mr))) Normal
       ''ReconcilationSucceeded'' ''masquerading rule completely reconciled''])"
  using assms by (simp add: check_active_def set_state_now_def Let_def)

lemma check_active_false:
  fixes mr :: masquerading_rule and tr :: trace
  defines "check \<equiv> CheckRecord (replace_wildcard (sp_from (mr_spec mr))) (sp_to (mr_spec mr))"
  assumes "k_check_record K tr (replace_wildcard (sp_from (mr_spec mr))) (sp_to (mr_spec mr)) = (False, None)"
  shows "check_active K mr tr =
    (ended (set_state (k_now K (tr @ [check])) mr StateProcessing waiting) (requeue_after (seconds 10)),
     tr @ [check, ReadClock, RecordEvent (OnRule (om_namespace (mr_meta mr)) (om_name (mr_meta mr))) Warning
       ''ReconcilationProcessing'' waiting])"
  using assms by (simp add: check_active_def set_state_now_def Let_def)

text \<open>The record check, with the host and the target it is called with.\<close>

lemma check_active_spec:
  assumes "check_active K mr tr0 = (b, tr)"
  shows "\<exists>active err ys. k_check_record K tr0 (replace_wildcard (sp_from (mr_spec mr))) (sp_to (mr_spec mr)) =
      (active, err) \<and>
    tr = tr0 @ CheckRecord (replace_wildcard (sp_from (mr_spec mr))) (sp_to (mr_spec mr)) # ys \<and>
    (case err of
       Some e \<Rightarrow> (\<exists>e'. b = failed mr e') \<and> ys = []
     | None \<Rightarrow> \<exists>now msg ev. ys = [ReadClock, RecordEvent (OnRule (om_namespace (mr_meta mr)) (om_name (mr_meta mr)))
           (fst ev) (fst (snd ev)) (snd (snd ev))] \<and>
         b = ended (set_state now mr (if active then StateReady else StateProcessing) msg)
           (requeue_after (seconds (if active then 600 else 10))))"
proof -
  obtain active err where c: "k_check_record K tr0 (replace_wildcard (sp_from (mr_spec mr))) (sp_to (mr_spec mr)) =
      (active, err)" by fastforce
  with assms show ?thesis
    by (cases err; cases active) (auto simp: check_active_error check_active_true check_active_false)
qed

section \<open>Paths\<close>

definition with_finalizers :: "string list \<Rightarrow> masquerading_rule \<Rightarrow> masquerading_rule" where
  "with_finalizers fins mr = mr\<lparr>mr_meta := (mr_meta mr)\<lparr>om_finalizers := fins\<rparr>\<rparr>"

lemma with_finalizers_simps [simp]:
  "om_finalizers (mr_meta (with_finalizers fins mr)) = fins"
  "mr_spec (with_finalizers fins mr) = mr_spec mr" "mr_status (with_finalizers fins mr) = mr_status mr"
  "om_name (mr_meta (with_finalizers fins mr)) = om_name (mr_meta mr)"
  "om_namespace (mr_meta (with_finalizers fins mr)) = om_namespace (mr_meta mr)"
  "om_uid (mr_meta (with_finalizers fins mr)) = om_uid (mr_meta mr)"
  "om_resource_version (mr_meta (with_finalizers fins mr)) = om_resource_version (mr_meta mr)"
  "om_deletion_timestamp (mr_meta (with_finalizers fins mr)) = om_deletion_timestamp (mr_meta mr)"
  by (simp_all add: with_finalizers_def)

text \<open>
  The finalizer of a rule that is not being deleted: present, or added with a successful update, whose
  answer replaces the rule in memory. An update sends the rule that was read, with other finalizers.
\<close>

definition finalized ::
  "kube \<Rightarrow> masquerading_rule \<Rightarrow> trace \<Rightarrow> trace \<Rightarrow> masquerading_rule \<Rightarrow> bool"
where
  "finalized K mr tr fs mr' \<longleftrightarrow>
     finalizer \<in> set (om_finalizers (mr_meta mr)) \<and> fs = [] \<and> mr' = mr \<or>
     (\<exists>fins. finalizer \<in> set fins \<and> fs = [UpdateRule (with_finalizers fins mr)] \<and>
        k_update_rule K tr (with_finalizers fins mr) = Inr mr')"

inductive body_path ::
  "kube \<Rightarrow> lib \<Rightarrow> reconciler \<Rightarrow> masquerading_rule \<Rightarrow> trace \<Rightarrow> body_end \<Rightarrow> trace \<Rightarrow> bool"
  for K L R mr tr0
where
  first_seen: "st_state (mr_status mr) = StateUnset \<Longrightarrow>
    body_path K L R mr tr0
      (ended (set_state (k_now K tr0) mr StateNew msg) (no_result\<lparr>res_requeue := True\<rparr>)) [ReadClock]"
| read_failed: "gcm = GetConfigMap (rc_cm_namespace R) (rc_cm_name R) \<Longrightarrow>
    body_path K L R mr tr0 (failed mr e) [gcm]"
| finalizer_failed: "gcm = GetConfigMap (rc_cm_namespace R) (rc_cm_name R) \<Longrightarrow>
    deletion_is_zero (mr_meta mr) \<Longrightarrow> finalizer \<in> set fins \<Longrightarrow> m = with_finalizers fins mr \<Longrightarrow>
    body_path K L R mr tr0 (failed m e) [gcm, UpdateRule m]"
| rejected: "gcm = GetConfigMap (rc_cm_namespace R) (rc_cm_name R) \<Longrightarrow>
    deletion_is_zero (mr_meta mr) \<Longrightarrow> finalized K mr (tr0 @ [gcm]) fs mr' \<Longrightarrow>
    body_path K L R mr tr0 (failed mr' e) (gcm # fs)"
| created: "gcm = GetConfigMap (rc_cm_namespace R) (rc_cm_name R) \<Longrightarrow>
    k_get_config_map K tr0 (rc_cm_namespace R) (rc_cm_name R) = Inl (NotFound txt) \<Longrightarrow>
    deletion_is_zero (mr_meta mr) \<Longrightarrow> finalized K mr (tr0 @ [gcm]) fs mr' \<Longrightarrow>
    new_rewrite_rule (owner_id mr) (sp_from (mr_spec mr')) (sp_to (mr_spec mr')) = Inr rule \<Longrightarrow>
    add_rule L new_rewrite_rule_set rule = (Inr ch, rs) \<Longrightarrow>
    plain_end (set_state now mr' StateProcessing waiting) 1 b \<Longrightarrow>
    body_path K L R mr tr0 b (gcm # fs @ [ReadClock, CreateConfigMap (new_config_map L R rs)])"
| changed: "gcm = GetConfigMap (rc_cm_namespace R) (rc_cm_name R) \<Longrightarrow>
    k_get_config_map K tr0 (rc_cm_namespace R) (rc_cm_name R) = Inr cm \<Longrightarrow>
    deletion_is_zero (mr_meta mr) \<Longrightarrow> finalized K mr (tr0 @ [gcm]) fs mr' \<Longrightarrow>
    new_rewrite_rule (owner_id mr) (sp_from (mr_spec mr')) (sp_to (mr_spec mr')) = Inr rule \<Longrightarrow>
    parse_rewrite_rule_set L (opt_index (cm_data cm) (rc_cm_key R)) = Inr rs0 \<Longrightarrow>
    add_rule L rs0 rule = (Inr True, rs) \<Longrightarrow>
    plain_end (set_state now mr' StateProcessing waiting) 1 b \<Longrightarrow>
    ws = [] \<or> ws = [UpdateConfigMap (stored_map K L R cm rs t)] \<and> delay_over K R cm t \<and>
      t = k_now K (tr0 @ gcm # fs @ [ReadClock]) \<Longrightarrow>
    body_path K L R mr tr0 b (gcm # fs @ [ReadClock, ReadClock] @ ws)"
| checked: "gcm = GetConfigMap (rc_cm_namespace R) (rc_cm_name R) \<Longrightarrow>
    k_get_config_map K tr0 (rc_cm_namespace R) (rc_cm_name R) = Inr cm \<Longrightarrow>
    deletion_is_zero (mr_meta mr) \<Longrightarrow> finalized K mr (tr0 @ [gcm]) fs mr' \<Longrightarrow>
    new_rewrite_rule (owner_id mr) (sp_from (mr_spec mr')) (sp_to (mr_spec mr')) = Inr rule \<Longrightarrow>
    parse_rewrite_rule_set L (opt_index (cm_data cm) (rc_cm_key R)) = Inr rs0 \<Longrightarrow>
    add_rule L rs0 rule = (Inr False, rs) \<Longrightarrow>
    check_active K mr' (tr0 @ gcm # fs) = (b, tr0 @ gcm # fs @ ys) \<Longrightarrow>
    body_path K L R mr tr0 b (gcm # fs @ ys)"
| blocked: "gcm = GetConfigMap (rc_cm_namespace R) (rc_cm_name R) \<Longrightarrow>
    \<not> deletion_is_zero (mr_meta mr) \<Longrightarrow> \<exists>f \<in> set (om_finalizers (mr_meta mr)). f \<noteq> finalizer \<Longrightarrow>
    body_path K L R mr tr0
      (ended (set_state now mr StateDeletionBlocked msg) (requeue_after (seconds 10))) [gcm, ReadClock]"
| load_failed: "gcm = GetConfigMap (rc_cm_namespace R) (rc_cm_name R) \<Longrightarrow>
    \<not> deletion_is_zero (mr_meta mr) \<Longrightarrow>
    body_path K L R mr tr0 (failed mr e) [gcm]"
| removed: "gcm = GetConfigMap (rc_cm_namespace R) (rc_cm_name R) \<Longrightarrow>
    k_get_config_map K tr0 (rc_cm_namespace R) (rc_cm_name R) = Inr cm \<Longrightarrow>
    \<not> deletion_is_zero (mr_meta mr) \<Longrightarrow> set (om_finalizers (mr_meta mr)) \<subseteq> {finalizer} \<Longrightarrow>
    parse_rewrite_rule_set L (opt_index (cm_data cm) (rc_cm_key R)) = Inr rs0 \<Longrightarrow>
    remove_rule rs0 (owner_id mr) = (True, rs) \<Longrightarrow>
    plain_end (set_state now mr StateDeleting msg) 1 b \<Longrightarrow>
    ws = [] \<or> ws = [UpdateConfigMap (stored_map K L R cm rs t)] \<and> delay_over K R cm t \<and>
      t = k_now K (tr0 @ [gcm, ReadClock]) \<Longrightarrow>
    body_path K L R mr tr0 b (gcm # [ReadClock, ReadClock] @ ws)"
| cleared: "gcm = GetConfigMap (rc_cm_namespace R) (rc_cm_name R) \<Longrightarrow>
    (\<exists>txt. k_get_config_map K tr0 (rc_cm_namespace R) (rc_cm_name R) = Inl (NotFound txt)) \<or>
    (\<exists>cm rs0. k_get_config_map K tr0 (rc_cm_namespace R) (rc_cm_name R) = Inr cm \<and>
      parse_rewrite_rule_set L (opt_index (cm_data cm) (rc_cm_key R)) = Inr rs0 \<and>
      get_rule rs0 (owner_id mr) = None) \<Longrightarrow>
    \<not> deletion_is_zero (mr_meta mr) \<Longrightarrow> set (om_finalizers (mr_meta mr)) \<subseteq> {finalizer} \<Longrightarrow>
    m = with_finalizers [] mr \<Longrightarrow> fs = [] \<or> fs = [UpdateRule m] \<Longrightarrow>
    (\<exists>mr'. b = (ended mr' no_result)\<lparr>be_skip := True\<rparr> \<and>
       (mr' = mr \<or> fs \<noteq> [] \<and> k_update_rule K (tr0 @ [gcm]) m = Inr mr')) \<or> (\<exists>e. b = failed m e \<and> fs \<noteq> []) \<Longrightarrow>
    body_path K L R mr tr0 b (gcm # fs)"

section \<open>The code takes one of the paths\<close>

context go_lib
begin

lemma set_finalizer_spec:
  assumes "set_finalizer K L mr tr0 = (res, tr)"
  shows "case res of
      Inl (e, m) \<Rightarrow> tr = tr0 @ [UpdateRule m] \<and> (\<exists>fins. finalizer \<in> set fins \<and> m = with_finalizers fins mr)
    | Inr mr' \<Rightarrow> \<exists>fs. tr = tr0 @ fs \<and> finalized K mr tr0 fs mr'"
proof (cases "finalizer \<in> set (om_finalizers (mr_meta mr))")
  case True
  with assms show ?thesis
    by (auto simp: set_finalizer_def contains_iff finalized_def)
next
  case False
  with assms show ?thesis
    by (auto simp: set_finalizer_def contains_iff finalized_def add_finalizer_eq Let_def
        with_finalizers_def [symmetric] split: sum.splits
        intro!: exI [of _ "om_finalizers (mr_meta mr) @ [finalizer]"])
qed

lemma apply_rule_path:
  assumes "apply_rule K L R mr' rule cm (tr0 @ gcm # fs) = (b, tr)"
    and gcm: "gcm = GetConfigMap (rc_cm_namespace R) (rc_cm_name R)"
    and got: "k_get_config_map K tr0 (rc_cm_namespace R) (rc_cm_name R) = Inr cm"
    and del: "deletion_is_zero (mr_meta mr)"
    and fin: "finalized K mr (tr0 @ [gcm]) fs mr'"
    and rule: "new_rewrite_rule (owner_id mr) (sp_from (mr_spec mr')) (sp_to (mr_spec mr')) = Inr rule"
  shows "\<exists>ys. tr = tr0 @ ys \<and> body_path K L R mr tr0 b ys"
proof (cases "parse_rewrite_rule_set L (opt_index (cm_data cm) (rc_cm_key R))")
  case (Inl err)
  with assms(1) have "b = failed mr' (load_error K R cm err)" "tr = tr0 @ gcm # fs"
    by (auto simp: apply_rule_def)
  with body_path.rejected [OF gcm del fin] show ?thesis by blast
next
  case (Inr rs0)
  obtain res rs where a: "add_rule L rs0 rule = (res, rs)" by fastforce
  show ?thesis
  proof (cases res)
    case (Inl err)
    with assms(1) Inr a have "\<exists>e. b = failed mr' e" "tr = tr0 @ gcm # fs"
      by (auto simp: apply_rule_def)
    with body_path.rejected [OF gcm del fin] show ?thesis by blast
  next
    case ok: (Inr ch)
    show ?thesis
    proof (cases ch)
      case True
      let ?mr = "set_state (k_now K (tr0 @ gcm # fs)) mr' StateProcessing waiting"
      from assms(1) Inr a ok True
      have u: "update_config_map K L R ?mr cm rs (tr0 @ gcm # fs @ [ReadClock]) = (b, tr)"
        by (simp add: apply_rule_def set_state_now_def)
      from update_config_map_spec [OF this] obtain ws where
        b: "plain_end ?mr 1 b" and tr: "tr = tr0 @ gcm # fs @ [ReadClock, ReadClock] @ ws"
        and ws: "ws = [] \<or> ws = [UpdateConfigMap (stored_map K L R cm rs
            (k_now K (tr0 @ gcm # fs @ [ReadClock])))] \<and>
          delay_over K R cm (k_now K (tr0 @ gcm # fs @ [ReadClock])) \<and>
          k_now K (tr0 @ gcm # fs @ [ReadClock]) = k_now K (tr0 @ gcm # fs @ [ReadClock])" by auto
      from a ok True have "add_rule L rs0 rule = (Inr True, rs)" by simp
      from body_path.changed [OF gcm got del fin rule Inr this b ws] tr show ?thesis by blast
    next
      case False
      from assms(1) Inr a ok False have c: "check_active K mr' (tr0 @ gcm # fs) = (b, tr)"
        by (simp add: apply_rule_def)
      from check_active_spec [OF this] obtain ys where tr: "tr = tr0 @ gcm # fs @ ys" by auto
      from a ok False have "add_rule L rs0 rule = (Inr False, rs)" by simp
      from body_path.checked [OF gcm got del fin rule Inr this, of b ys] c tr show ?thesis by blast
    qed
  qed
qed

lemma reconcile_present_path:
  assumes "reconcile_present K L R mr (owner_id mr) configMap (tr0 @ [gcm]) = (b, tr)"
    and gcm: "gcm = GetConfigMap (rc_cm_namespace R) (rc_cm_name R)"
    and got: "case configMap of
        None \<Rightarrow> \<exists>txt. k_get_config_map K tr0 (rc_cm_namespace R) (rc_cm_name R) = Inl (NotFound txt)
      | Some cm \<Rightarrow> k_get_config_map K tr0 (rc_cm_namespace R) (rc_cm_name R) = Inr cm"
    and del: "deletion_is_zero (mr_meta mr)"
  shows "\<exists>ys. tr = tr0 @ ys \<and> body_path K L R mr tr0 b ys"
proof -
  obtain res tr1 where s: "set_finalizer K L mr (tr0 @ [gcm]) = (res, tr1)" by fastforce
  show ?thesis
  proof (cases res)
    case (Inl em)
    then obtain e m where em: "res = Inl (e, m)" by (cases em) auto
    with assms(1) s have "b = failed m e" "tr = tr1" by (auto simp: reconcile_present_def)
    with set_finalizer_spec [OF s] em body_path.finalizer_failed [OF gcm del] show ?thesis by auto
  next
    case (Inr mr')
    with set_finalizer_spec [OF s] obtain fs where tr1: "tr1 = tr0 @ gcm # fs"
      and fin: "finalized K mr (tr0 @ [gcm]) fs mr'" by auto
    show ?thesis
    proof (cases "new_rewrite_rule (owner_id mr) (sp_from (mr_spec mr')) (sp_to (mr_spec mr'))")
      case (Inl err)
      with assms(1) s Inr tr1 have "\<exists>e. b = failed mr' e" "tr = tr0 @ gcm # fs"
        by (auto simp: reconcile_present_def)
      with body_path.rejected [OF gcm del fin] show ?thesis by blast
    next
      case rule: (Inr rule)
      show ?thesis
      proof (cases configMap)
        case None
        with got obtain e0 where
          nf: "k_get_config_map K tr0 (rc_cm_namespace R) (rc_cm_name R) = Inl (NotFound e0)" by auto
        from assms(1) s Inr tr1 rule None
        have "create_config_map K L R mr' rule (tr0 @ gcm # fs) = (b, tr)"
          by (simp add: reconcile_present_def)
        from create_config_map_spec [OF this] show ?thesis
          using body_path.rejected [OF gcm del fin] body_path.created [OF gcm nf del fin rule] by fastforce
      next
        case (Some cm)
        with assms(1) s Inr tr1 rule have "apply_rule K L R mr' rule cm (tr0 @ gcm # fs) = (b, tr)"
          by (simp add: reconcile_present_def)
        from apply_rule_path [OF this gcm _ del fin rule] got Some show ?thesis by simp
      qed
    qed
  qed
qed

lemma clear_finalizer_spec:
  assumes "clear_finalizer K L mr tr0 = (b, tr)" and "set (om_finalizers (mr_meta mr)) \<subseteq> {finalizer}"
  shows "\<exists>fs m. tr = tr0 @ fs \<and> m = with_finalizers [] mr \<and> (fs = [] \<or> fs = [UpdateRule m]) \<and>
    ((\<exists>mr'. b = (ended mr' no_result)\<lparr>be_skip := True\<rparr> \<and>
       (mr' = mr \<or> fs \<noteq> [] \<and> k_update_rule K tr0 m = Inr mr')) \<or> (\<exists>e. b = failed m e \<and> fs \<noteq> []))"
proof (cases "finalizer \<in> set (om_finalizers (mr_meta mr))")
  case False
  with assms(1) show ?thesis by (auto simp: clear_finalizer_def contains_iff)
next
  case True
  define m where "m = mr\<lparr>mr_meta := (mr_meta mr)\<lparr>om_finalizers :=
      fst (lib_remove_finalizer L (om_finalizers (mr_meta mr)) finalizer)\<rparr>\<rparr>"
  have "m = with_finalizers [] mr"
    using assms(2) by (auto simp: m_def with_finalizers_def remove_finalizer_eq filter_empty_conv
        intro!: arg_cong [where f = "\<lambda>fins. mr\<lparr>mr_meta := (mr_meta mr)\<lparr>om_finalizers := fins\<rparr>\<rparr>"])
  moreover from assms(1) True have "tr = tr0 @ [UpdateRule m]"
    "(\<exists>mr'. b = (ended mr' no_result)\<lparr>be_skip := True\<rparr> \<and> k_update_rule K tr0 m = Inr mr') \<or>
      (\<exists>e. b = failed m e)"
    by (auto simp: clear_finalizer_def contains_iff Let_def m_def [symmetric] split: sum.splits)
  ultimately show ?thesis by (intro exI [of _ "[UpdateRule m]"] exI [of _ m]) auto
qed

lemma reconcile_deleted_path:
  assumes "reconcile_deleted K L R mr (owner_id mr) configMap (tr0 @ [gcm]) = (b, tr)"
    and gcm: "gcm = GetConfigMap (rc_cm_namespace R) (rc_cm_name R)"
    and got: "case configMap of
        None \<Rightarrow> \<exists>txt. k_get_config_map K tr0 (rc_cm_namespace R) (rc_cm_name R) = Inl (NotFound txt)
      | Some cm \<Rightarrow> k_get_config_map K tr0 (rc_cm_namespace R) (rc_cm_name R) = Inr cm"
    and del: "\<not> deletion_is_zero (mr_meta mr)"
    and fins: "set (om_finalizers (mr_meta mr)) \<subseteq> {finalizer}"
  shows "\<exists>ys. tr = tr0 @ ys \<and> body_path K L R mr tr0 b ys"
proof -
  have clear: ?thesis if c: "clear_finalizer K L mr (tr0 @ [gcm]) = (b, tr)"
    and none: "(\<exists>txt. k_get_config_map K tr0 (rc_cm_namespace R) (rc_cm_name R) = Inl (NotFound txt)) \<or>
      (\<exists>cm rs0. k_get_config_map K tr0 (rc_cm_namespace R) (rc_cm_name R) = Inr cm \<and>
        parse_rewrite_rule_set L (opt_index (cm_data cm) (rc_cm_key R)) = Inr rs0 \<and>
        get_rule rs0 (owner_id mr) = None)"
  proof -
    from clear_finalizer_spec [OF c fins] obtain fs m where tr: "tr = tr0 @ gcm # fs"
      and m: "m = with_finalizers [] mr" "fs = [] \<or> fs = [UpdateRule m]"
      and b: "(\<exists>mr'. b = (ended mr' no_result)\<lparr>be_skip := True\<rparr> \<and>
        (mr' = mr \<or> fs \<noteq> [] \<and> k_update_rule K (tr0 @ [gcm]) m = Inr mr')) \<or> (\<exists>e. b = failed m e \<and> fs \<noteq> [])"
      by auto
    from body_path.cleared [OF gcm none del fins m b] tr show ?thesis by blast
  qed
  show ?thesis
  proof (cases configMap)
    case None
    with assms(1) got clear show ?thesis by (simp add: reconcile_deleted_def)
  next
    case (Some cm)
    with got have cm: "k_get_config_map K tr0 (rc_cm_namespace R) (rc_cm_name R) = Inr cm" by simp
    show ?thesis
    proof (cases "parse_rewrite_rule_set L (opt_index (cm_data cm) (rc_cm_key R))")
      case (Inl err)
      with assms(1) Some have "\<exists>e. b = failed mr e" "tr = tr0 @ [gcm]"
        by (auto simp: reconcile_deleted_def)
      with body_path.load_failed [OF gcm del] show ?thesis by blast
    next
      case (Inr rs0)
      obtain ch rs where r: "remove_rule rs0 (owner_id mr) = (ch, rs)" by fastforce
      show ?thesis
      proof (cases ch)
        case False
        with r have "get_rule rs0 (owner_id mr) = None"
          by (auto simp: remove_rule_def get_rule_def split: option.splits)
        with clear assms(1) Some Inr r False cm show ?thesis by (simp add: reconcile_deleted_def)
      next
        case True
        let ?mr = "set_state (k_now K (tr0 @ [gcm])) mr StateDeleting
            ''waiting for masquerading rule to be deleted''"
        let ?t = "k_now K (tr0 @ [gcm, ReadClock])"
        from assms(1) Some Inr r True
        have "update_config_map K L R ?mr cm rs (tr0 @ [gcm, ReadClock]) = (b, tr)"
          by (simp add: reconcile_deleted_def set_state_now_def)
        from update_config_map_spec [OF this] obtain ws where
          b: "plain_end ?mr 1 b" and tr: "tr = tr0 @ gcm # [ReadClock, ReadClock] @ ws"
          and ws: "ws = [] \<or> ws = [UpdateConfigMap (stored_map K L R cm rs ?t)] \<and> delay_over K R cm ?t \<and> ?t = ?t"
          by auto
        from r True have "remove_rule rs0 (owner_id mr) = (True, rs)" by simp
        from body_path.removed [OF gcm cm del fins Inr this b ws] tr show ?thesis by blast
      qed
    qed
  qed
qed

theorem reconcile_body_path:
  assumes "reconcile_body K L R mr tr0 = (b, tr)"
  shows "\<exists>ys. tr = tr0 @ ys \<and> body_path K L R mr tr0 b ys"
proof (cases "st_state (mr_status mr) = StateUnset")
  case True
  with assms body_path.first_seen [OF True] show ?thesis
    by (auto simp: reconcile_body_def set_state_now_def)
next
  case False
  let ?gcm = "GetConfigMap (rc_cm_namespace R) (rc_cm_name R)"
  let ?got = "k_get_config_map K tr0 (rc_cm_namespace R) (rc_cm_name R)"
  let ?cm = "case ?got of Inl _ \<Rightarrow> None | Inr cm \<Rightarrow> Some cm"
  show ?thesis
  proof (cases "\<exists>e. ?got = Inl (ApiError e)")
    case True
    with assms False have "\<exists>e. b = failed mr e" "tr = tr0 @ [?gcm]"
      by (auto simp: reconcile_body_def Let_def)
    with body_path.read_failed [OF refl] show ?thesis by blast
  next
    case no_error: False
    then have got: "case ?cm of None \<Rightarrow> \<exists>txt. ?got = Inl (NotFound txt) | Some cm \<Rightarrow> ?got = Inr cm"
      by (auto split: sum.splits) (metis api_error.exhaust)
    have body: "reconcile_body K L R mr tr0 =
      (if deletion_is_zero (mr_meta mr) then
         reconcile_present K L R mr (owner_id mr) ?cm (tr0 @ [?gcm])
       else if length (lib_remove L (om_finalizers (mr_meta mr)) finalizer) > 0 then
         (let (mr1, tr1) = set_state_now K (tr0 @ [?gcm]) mr StateDeletionBlocked
            ''Deletion blocked due to foreign finalizers'' in
          (ended mr1 (requeue_after (seconds 10)), tr1))
       else reconcile_deleted K L R mr (owner_id mr) ?cm (tr0 @ [?gcm]))"
      using False no_error by (auto simp: reconcile_body_def Let_def split: sum.splits api_error.splits)
    show ?thesis
    proof (cases "deletion_is_zero (mr_meta mr)")
      case True
      with assms body have "reconcile_present K L R mr (owner_id mr) ?cm (tr0 @ [?gcm]) = (b, tr)" by simp
      from reconcile_present_path [OF this refl got True] show ?thesis .
    next
      case del: False
      show ?thesis
      proof (cases "\<exists>f \<in> set (om_finalizers (mr_meta mr)). f \<noteq> finalizer")
        case True
        then have "length (lib_remove L (om_finalizers (mr_meta mr)) finalizer) > 0"
          by (auto simp: remove_eq filter_empty_conv)
        with assms body del have "tr = tr0 @ [?gcm, ReadClock]"
          "\<exists>now msg. b = ended (set_state now mr StateDeletionBlocked msg) (requeue_after (seconds 10))"
          by (auto simp: set_state_now_def)
        with body_path.blocked [OF refl del True] show ?thesis by blast
      next
        case False
        then have "\<not> length (lib_remove L (om_finalizers (mr_meta mr)) finalizer) > 0"
          by (auto simp: remove_eq filter_empty_conv)
        with assms body del have "reconcile_deleted K L R mr (owner_id mr) ?cm (tr0 @ [?gcm]) = (b, tr)"
          by simp
        from reconcile_deleted_path [OF this refl got del] False show ?thesis by blast
      qed
    qed
  qed
qed

end

end
