(* ===== verification/Reconciler_Calls.thy ===== *)
theory Reconciler_Calls
  imports Reconciler_Paths
begin

text \<open>
  The whole run of \<open>Reconcile\<close> for a rule that exists: the path of the body, the calls for the event on the
  owner, and the status update. What the calls of a path can be is listed call by call.
\<close>

section \<open>The deferred functions\<close>

text \<open>Calls that change no rule and no config map.\<close>

fun owner_call :: "api_call \<Rightarrow> bool" where
  "owner_call (GetOwner gvk ns name) = True"
| "owner_call (RecordEvent (OnOwner gvk ns name) ty reason msg) = True"
| "owner_call c = False"

lemma notify_owner_calls: "\<exists>zs. notify_owner K p mr tr = tr @ zs \<and> (\<forall>c \<in> set zs. owner_call c)"
  by (auto simp: notify_owner_def create_event_for_object_def Let_def split: option.splits)

lemma notify_owner_quiet:
  assumes "st_state (mr_status mr) = p \<or> st_state (mr_status mr) \<notin> {StateReady, StateError}"
  shows "notify_owner K p mr tr = tr"
  using assms by (auto simp: notify_owner_def Let_def)

lemma notify_owner_failed_event:
  assumes "RecordEvent (OnOwner gvk ns name) Warning reason msg \<in> set (notify_owner K p mr tr)"
    and "RecordEvent (OnOwner gvk ns name) Warning reason msg \<notin> set tr"
  shows "st_state (mr_status mr) = StateError \<and> p \<noteq> StateError"
  using assms
  by (auto simp: notify_owner_def create_event_for_object_def Let_def split: option.splits if_splits)

definition status_calls :: "body_end \<Rightarrow> masquerading_rule \<Rightarrow> trace \<Rightarrow> bool" where
  "status_calls b m us \<longleftrightarrow>
     (case be_err b of
        None \<Rightarrow> m = be_rule b \<and> us = []
      | Some e \<Rightarrow> \<exists>now. m = set_state now (be_rule b) StateError e \<and>
          us = [ReadClock, RecordEvent (OnRule (om_namespace (mr_meta m)) (om_name (mr_meta m))) Warning
                  ''ReconciliationFailed'' e])"

lemma update_status_calls:
  assumes "update_status K b tr0 = ((result, err), tr)"
  shows "if be_skip b then tr = tr0 \<and> result = be_result b \<and> err = be_err b
    else \<exists>m us. tr = tr0 @ us @ [UpdateRuleStatus m] \<and> status_calls b m us \<and>
      (result = be_result b \<and> err = be_err b \<or> result = no_result \<and> err \<noteq> None)"
  using assms
  by (auto simp: update_status_def set_state_now_def status_calls_def Let_def
      split: option.splits sum.splits prod.splits) blast+

definition observed :: "masquerading_rule \<Rightarrow> masquerading_rule" where
  "observed mr = mr\<lparr>mr_status := (mr_status mr)\<lparr>st_observed_generation := om_generation (mr_meta mr)\<rparr>\<rparr>"

lemma observed_simps [simp]:
  "mr_meta (observed mr) = mr_meta mr" "mr_spec (observed mr) = mr_spec mr"
  "st_state (mr_status (observed mr)) = st_state (mr_status mr)" "owner_id (observed mr) = owner_id mr"
  by (simp_all add: observed_def owner_id_def)

section \<open>A whole run\<close>

text \<open>
  The parts of a run: \<open>ys\<close> are the calls of the body, \<open>zs\<close> those for the owner, \<open>us\<close> the calls
  before the status update.
\<close>

definition run_parts ::
  "kube \<Rightarrow> lib \<Rightarrow> reconciler \<Rightarrow> string \<Rightarrow> string \<Rightarrow> masquerading_rule \<Rightarrow> body_end \<Rightarrow>
    trace \<Rightarrow> trace \<Rightarrow> (ctrl_result \<times> string option) \<times> trace \<Rightarrow> bool"
where
  "run_parts K L R ns name mr b ys zs out \<longleftrightarrow>
     body_path K L R (observed mr) [GetRule ns name] b ys \<and>
     notify_owner K (st_state (mr_status mr)) (be_rule b) (GetRule ns name # ys) = GetRule ns name # ys @ zs \<and>
     (\<forall>c \<in> set zs. owner_call c) \<and>
     (if be_skip b then out = ((be_result b, be_err b), GetRule ns name # ys @ zs)
      else \<exists>m us result err. out = ((result, err), GetRule ns name # ys @ zs @ us @ [UpdateRuleStatus m]) \<and>
        status_calls b m us \<and> (result = be_result b \<and> err = be_err b \<or> result = no_result \<and> err \<noteq> None))"

context go_lib
begin

lemma reconcile_run_parts:
  assumes "k_get_rule K [] ns name = Inr mr"
  shows "\<exists>b ys zs. run_parts K L R ns name mr b ys zs (reconcile_rule K L R ns name)"
proof -
  obtain b tr1 where b: "reconcile_body K L R (observed mr) [GetRule ns name] = (b, tr1)" by fastforce
  from reconcile_body_path [OF this] obtain ys where tr1: "tr1 = [GetRule ns name] @ ys"
    and path: "body_path K L R (observed mr) [GetRule ns name] b ys" by blast
  from notify_owner_calls obtain zs where
    z: "notify_owner K (st_state (mr_status mr)) (be_rule b) (GetRule ns name # ys) =
      (GetRule ns name # ys) @ zs" "\<forall>c \<in> set zs. owner_call c" by blast
  obtain result err tr where
    u: "update_status K b (GetRule ns name # ys @ zs) = ((result, err), tr)" by (metis prod.exhaust)
  have "reconcile_rule K L R ns name = ((result, err), tr)"
    using assms b tr1 z(1) u
    by (simp add: reconcile_rule_def webhook_default_def observed_def Let_def)
  moreover from update_status_calls [OF u] path z
  have "run_parts K L R ns name mr b ys zs ((result, err), tr)"
    by (auto simp: run_parts_def split: if_splits)
  ultimately show ?thesis by auto
qed

end

section \<open>The calls of a path\<close>

text \<open>What the server promises for the update of the finalizers: spec and status stay as they are.\<close>

definition update_keeps :: "kube \<Rightarrow> bool" where
  "update_keeps K \<longleftrightarrow>
     (\<forall>tr m m'. k_update_rule K tr m = Inr m' \<longrightarrow>
        mr_spec m' = mr_spec m \<and> st_state (mr_status m') = st_state (mr_status m))"

lemma finalized_keeps:
  "update_keeps K \<Longrightarrow> finalized K mr tr fs mr' \<Longrightarrow>
    mr_spec mr' = mr_spec mr \<and> st_state (mr_status mr') = st_state (mr_status mr)"
  by (auto simp: finalized_def update_keeps_def)

lemma finalized_calls:
  "finalized K mr tr fs mr' \<Longrightarrow> fs = [] \<and> finalizer \<in> set (om_finalizers (mr_meta mr)) \<or>
    (\<exists>m. fs = [UpdateRule m] \<and> finalizer \<in> set (om_finalizers (mr_meta m)) \<and>
      k_update_rule K tr m = Inr mr')"
  by (auto simp: finalized_def)

lemma check_active_calls:
  assumes "check_active K mr tr0 = (b, tr0 @ ys)"
  shows "\<forall>c \<in> set ys. (\<exists>h t. c = CheckRecord h t) \<or> c = ReadClock \<or>
    (\<exists>ns name ty reason msg. c = RecordEvent (OnRule ns name) ty reason msg)"
  using check_active_spec [OF assms] by (auto split: option.splits)

text \<open>The plain ends and the ends of the check, seen from the error and the state.\<close>

lemma plain_end_cases:
  assumes "plain_end mr d b"
  shows "be_rule b = mr \<and> \<not> be_skip b \<and>
    (be_err b = None \<longrightarrow> be_result b = requeue_after (seconds d)) \<and>
    (be_err b \<noteq> None \<longrightarrow> be_result b = no_result)"
  using assms by (auto simp: plain_end_def ended_def failed_def)

lemma ended_simps [simp]:
  "be_rule (ended mr r) = mr" "be_err (ended mr r) = None" "be_skip (ended mr r) = False"
  "be_result (ended mr r) = r" "be_rule (failed mr e) = mr" "be_err (failed mr e) = Some e"
  "be_skip (failed mr e) = False" "be_result (failed mr e) = no_result"
  by (simp_all add: ended_def failed_def)

inductive_cases body_path_elim: "body_path K L R mr tr0 b ys"

lemma finalized_not [simp]:
  assumes "finalized K mr tr fs mr'"
  shows "UpdateConfigMap x \<notin> set fs" "CreateConfigMap x \<notin> set fs" "CheckRecord h t \<notin> set fs"
  using assms by (auto simp: finalized_def)

lemma check_active_not [simp]:
  assumes "check_active K mr tr0 = (b, tr0 @ ys)"
  shows "UpdateConfigMap x \<notin> set ys" "CreateConfigMap x \<notin> set ys" "UpdateRule m \<notin> set ys"
  using check_active_calls [OF assms] by auto

lemma check_active_append_not [simp]:
  assumes "check_active K mr (tr0 @ c # fs) = (b, tr0 @ c # fs @ ys)"
  shows "UpdateConfigMap x \<notin> set ys" "CreateConfigMap x \<notin> set ys" "UpdateRule m \<notin> set ys"
  using check_active_not [of K mr "tr0 @ c # fs" b ys] assms by simp_all

lemma path_config_update:
  assumes "body_path K L R mr tr0 b ys" and "UpdateConfigMap cm' \<in> set ys"
  shows "\<exists>cm rs0 rs t. k_get_config_map K tr0 (rc_cm_namespace R) (rc_cm_name R) = Inr cm \<and>
    parse_rewrite_rule_set L (opt_index (cm_data cm) (rc_cm_key R)) = Inr rs0 \<and>
    cm' = stored_map K L R cm rs t \<and> delay_over K R cm t \<and>
    (if deletion_is_zero (mr_meta mr) then
       \<exists>tr fs mr' rule. finalized K mr tr fs mr' \<and>
         new_rewrite_rule (owner_id mr) (sp_from (mr_spec mr')) (sp_to (mr_spec mr')) = Inr rule \<and>
         add_rule L rs0 rule = (Inr True, rs)
     else remove_rule rs0 (owner_id mr) = (True, rs))"
  using assms(1)
proof (cases rule: body_path.cases)
  case (changed gcm cm fs mr' rule rs0 rs now ws t)
  with assms(2) have "cm' = stored_map K L R cm rs t" "delay_over K R cm t" by auto
  moreover have "\<exists>tr fs mr' rule. finalized K mr tr fs mr' \<and>
      new_rewrite_rule (owner_id mr) (sp_from (mr_spec mr')) (sp_to (mr_spec mr')) = Inr rule \<and>
      add_rule L rs0 rule = (Inr True, rs)" using changed(5,6,8) by blast
  ultimately show ?thesis
    using changed(3,4,7) by (intro exI [of _ cm] exI [of _ rs0] exI [of _ rs] exI [of _ t]) simp
next
  case (removed gcm cm rs0 rs now msg ws t)
  with assms(2) show ?thesis by auto
next
  case (checked gcm cm fs mr' rule rs0 rs zs)
  with assms(2) show ?thesis by auto
qed (use assms(2) in auto)

text \<open>The time of an update is what the clock showed right before it.\<close>

lemma path_config_clock:
  assumes "body_path K L R mr tr0 b ys" and "UpdateConfigMap cm' \<in> set ys"
  shows "\<exists>cm rs pre post. k_get_config_map K tr0 (rc_cm_namespace R) (rc_cm_name R) = Inr cm \<and>
    ys = pre @ ReadClock # UpdateConfigMap cm' # post \<and>
    cm' = stored_map K L R cm rs (k_now K (tr0 @ pre)) \<and> delay_over K R cm (k_now K (tr0 @ pre))"
  using assms(1)
proof (cases rule: body_path.cases)
  case (changed gcm cm fs mr' rule rs0 rs now ws t)
  with assms(2) have "ws = [UpdateConfigMap cm']" "cm' = stored_map K L R cm rs t" "delay_over K R cm t"
    "t = k_now K (tr0 @ gcm # fs @ [ReadClock])" by auto
  with changed(1,3) show ?thesis
    by (intro exI [of _ cm] exI [of _ rs] exI [of _ "gcm # fs @ [ReadClock]"] exI [of _ "[]"]) simp
next
  case (removed gcm cm rs0 rs now msg ws t)
  with assms(2) have "ws = [UpdateConfigMap cm']" "cm' = stored_map K L R cm rs t" "delay_over K R cm t"
    "t = k_now K (tr0 @ [gcm, ReadClock])" by auto
  with removed(1,3) show ?thesis
    by (intro exI [of _ cm] exI [of _ rs] exI [of _ "[gcm, ReadClock]"] exI [of _ "[]"]) simp
next
  case (checked gcm cm fs mr' rule rs0 rs zs)
  with assms(2) show ?thesis by auto
qed (use assms(2) in auto)

lemma path_config_create:
  assumes "body_path K L R mr tr0 b ys" and "CreateConfigMap cm' \<in> set ys"
  shows "\<exists>tr fs mr' rule ch rs txt.
    k_get_config_map K tr0 (rc_cm_namespace R) (rc_cm_name R) = Inl (NotFound txt) \<and>
    deletion_is_zero (mr_meta mr) \<and> finalized K mr tr fs mr' \<and>
    new_rewrite_rule (owner_id mr) (sp_from (mr_spec mr')) (sp_to (mr_spec mr')) = Inr rule \<and>
    add_rule L new_rewrite_rule_set rule = (Inr ch, rs) \<and> cm' = new_config_map L R rs"
  using assms(1)
proof (cases rule: body_path.cases)
  case (created gcm e0 fs mr' rule ch rs now)
  with assms(2) have "cm' = new_config_map L R rs" by auto
  with created(3-7) show ?thesis by blast
next
  case (checked gcm cm fs mr' rule rs0 rs zs)
  with assms(2) show ?thesis by auto
qed (use assms(2) in auto)

lemma path_rule_update:
  assumes "body_path K L R mr tr0 b ys" and "UpdateRule m \<in> set ys"
    and "finalizer \<notin> set (om_finalizers (mr_meta m))"
  shows "\<not> deletion_is_zero (mr_meta mr) \<and> set (om_finalizers (mr_meta mr)) \<subseteq> {finalizer} \<and>
    ((\<exists>txt. k_get_config_map K tr0 (rc_cm_namespace R) (rc_cm_name R) = Inl (NotFound txt)) \<or>
     (\<exists>cm rs0. k_get_config_map K tr0 (rc_cm_namespace R) (rc_cm_name R) = Inr cm \<and>
        parse_rewrite_rule_set L (opt_index (cm_data cm) (rc_cm_key R)) = Inr rs0 \<and>
        get_rule rs0 (owner_id mr) = None))"
  using assms(1)
proof (cases rule: body_path.cases)
  case (checked gcm cm fs mr' rule rs0 rs zs)
  with assms(2,3) finalized_calls [OF checked(5)] show ?thesis by auto
qed (use assms(2,3) in \<open>auto dest!: finalized_calls\<close>)

lemma path_ready:
  assumes "body_path K L R mr tr0 b ys"
    and "be_err b = None" and "\<not> be_skip b" and "st_state (mr_status (be_rule b)) = StateReady"
  shows "\<exists>cm tr fs mr' rule rs0 rs. k_get_config_map K tr0 (rc_cm_namespace R) (rc_cm_name R) = Inr cm \<and>
    deletion_is_zero (mr_meta mr) \<and> finalized K mr tr fs mr' \<and>
    new_rewrite_rule (owner_id mr) (sp_from (mr_spec mr')) (sp_to (mr_spec mr')) = Inr rule \<and>
    parse_rewrite_rule_set L (opt_index (cm_data cm) (rc_cm_key R)) = Inr rs0 \<and>
    add_rule L rs0 rule = (Inr False, rs) \<and> mr_spec (be_rule b) = mr_spec mr' \<and>
    CheckRecord (replace_wildcard (sp_from (mr_spec mr'))) (sp_to (mr_spec mr')) \<in> set ys \<and>
    (\<exists>tr'. k_check_record K tr' (replace_wildcard (sp_from (mr_spec mr'))) (sp_to (mr_spec mr')) = (True, None))"
  using assms(1)
proof (cases rule: body_path.cases)
  case (checked gcm cm fs mr' rule rs0 rs zs)
  from check_active_spec [OF checked(9)] assms(2,4) have
    "k_check_record K (tr0 @ gcm # fs) (replace_wildcard (sp_from (mr_spec mr'))) (sp_to (mr_spec mr')) = (True, None)"
    "CheckRecord (replace_wildcard (sp_from (mr_spec mr'))) (sp_to (mr_spec mr')) \<in> set ys"
    "mr_spec (be_rule b) = mr_spec mr'"
    by (auto simp: checked(1) split: option.splits if_splits)
  with checked(3-8) show ?thesis by blast
qed (use assms(2-4) in \<open>auto dest!: plain_end_cases\<close>)

definition config_write :: "api_call \<Rightarrow> bool" where
  "config_write c \<longleftrightarrow> (\<exists>cm. c = UpdateConfigMap cm \<or> c = CreateConfigMap cm)"

lemma finalized_before:
  assumes "finalized K mr tr fs mr'" and "gcm # fs @ rest = pre @ w # post" and "config_write w"
    and "\<not> config_write gcm"
  shows "finalizer \<in> set (om_finalizers (mr_meta mr)) \<or>
    (\<exists>m tr m'. UpdateRule m \<in> set pre \<and> finalizer \<in> set (om_finalizers (mr_meta m)) \<and>
      k_update_rule K tr m = Inr m')"
proof -
  have "w \<notin> set (gcm # fs)" using assms by (auto simp: finalized_def config_write_def)
  with prefix_of_split [of "gcm # fs" rest pre w post] assms(2) obtain B' where "pre = gcm # fs @ B'" by auto
  then have "m \<in> set fs \<Longrightarrow> m \<in> set pre" for m by simp
  with finalized_calls [OF assms(1)] show ?thesis by (metis list.set_intros(1))
qed

lemma path_finalizer_first:
  assumes "body_path K L R mr tr0 b ys" and "ys = pre @ w # post" and "config_write w"
    and "deletion_is_zero (mr_meta mr)"
  shows "finalizer \<in> set (om_finalizers (mr_meta mr)) \<or>
    (\<exists>m tr m'. UpdateRule m \<in> set pre \<and> finalizer \<in> set (om_finalizers (mr_meta m)) \<and>
      k_update_rule K tr m = Inr m')"
proof -
  have in_ys: "w \<in> set ys" using assms(2) by simp
  show ?thesis
    using assms(1)
  proof (cases rule: body_path.cases)
    case (rejected gcm fs mr' e)
    with in_ys assms(3) show ?thesis by (auto simp: config_write_def)
  next
    case (created gcm e0 fs mr' rule ch rs now)
    have "gcm # fs @ [ReadClock, CreateConfigMap (new_config_map L R rs)] = pre @ w # post"
      using created(1) assms(2) by simp
    from finalized_before [OF created(5) this assms(3)] created(2) show ?thesis by (simp add: config_write_def)
  next
    case (changed gcm cm fs mr' rule rs0 rs now ws t)
    have "gcm # fs @ [ReadClock, ReadClock] @ ws = pre @ w # post" using changed(1) assms(2) by simp
    from finalized_before [OF changed(5) this assms(3)] changed(2) show ?thesis by (simp add: config_write_def)
  next
    case (checked gcm cm fs mr' rule rs0 rs zs)
    have "gcm # fs @ zs = pre @ w # post" using checked(1) assms(2) by simp
    from finalized_before [OF checked(5) this assms(3)] checked(2) show ?thesis by (simp add: config_write_def)
  qed (use in_ys assms(3,4) in \<open>auto simp: config_write_def\<close>)
qed

text \<open>How a run ends: an error comes with the empty result, and no error with a requeue.\<close>

lemma path_result:
  assumes "body_path K L R mr tr0 b ys"
  shows "if be_err b \<noteq> None then be_result b = no_result \<and> \<not> be_skip b
    else if be_skip b then be_result b = no_result \<and> \<not> deletion_is_zero (mr_meta mr)
    else res_requeue (be_result b) \<or> 0 < res_requeue_after (be_result b)"
  using assms
proof (cases rule: body_path.cases)
  case (checked gcm cm fs mr' rule rs0 rs zs)
  from check_active_spec [OF checked(9)] show ?thesis
    by (auto simp: requeue_after_def seconds_def no_result_def split: option.splits if_splits)
qed (auto simp: requeue_after_def seconds_def no_result_def dest!: plain_end_cases)

lemma path_state:
  assumes "body_path K L R mr tr0 b ys" and "be_err b = None" and "\<not> be_skip b"
  shows "st_state (mr_status (be_rule b)) \<noteq> StateError \<and> st_state (mr_status (be_rule b)) \<noteq> StateUnset"
  using assms(1)
proof (cases rule: body_path.cases)
  case (checked gcm cm fs mr' rule rs0 rs zs)
  from check_active_spec [OF checked(9)] assms(2) show ?thesis
    by (auto split: option.splits if_splits)
qed (use assms(2,3) in \<open>auto dest!: plain_end_cases\<close>)

end
