(* ===== verification/Reconciler_Demo.thy ===== *)
theory Reconciler_Demo
  imports Reconciler_Calls Rewrite_Properties
begin

text \<open>
  A concrete environment of \<open>Reconcile\<close>, on which its properties are evaluated: one rule, and an answer
  for the read of the config map; every write succeeds and returns what was sent.
\<close>

definition demo_kube :: "masquerading_rule \<Rightarrow> api_error + config_map \<Rightarrow> kube" where
  "demo_kube mr cm =
     \<lparr>k_get_rule = (\<lambda>tr ns name. Inr mr), k_get_config_map = (\<lambda>tr ns name. cm),
      k_get_owner = (\<lambda>tr gvk ns name. None), k_list_rules = (\<lambda>tr ns uid. Inr []),
      k_create_rule = (\<lambda>tr m. Inr m), k_update_rule = (\<lambda>tr m. Inr m),
      k_update_status = (\<lambda>tr m. Inr m), k_delete_rule = (\<lambda>tr m. None),
      k_update_source = (\<lambda>tr obj. Inr obj), k_create_config_map = (\<lambda>tr c. Inr c),
      k_update_config_map = (\<lambda>tr c. Inr c), k_check_record = (\<lambda>tr host expected. (True, None)),
      k_scheme_new = (\<lambda>gvk. None), k_parse_time = (\<lambda>s. Inr 0), k_format_time = (\<lambda>t. ''now''),
      k_now = (\<lambda>tr. 100), k_wrap = (\<lambda>err msg. msg @ err), k_aggregate = (\<lambda>e f. f)\<rparr>"

definition demo_reconciler :: reconciler where
  "demo_reconciler = \<lparr>rc_cm_namespace = ''kube-system'', rc_cm_name = ''coredns'', rc_cm_key = ''k'',
     rc_update_delay = 60\<rparr>"

definition demo_cm :: config_map where
  "demo_cm = \<lparr>cm_namespace = ''kube-system'', cm_name = ''coredns'', cm_resource_version = ''1'',
     cm_annotations = Some (fmupd annotation_last_updated_at ''then'' fmempty),
     cm_data = Some (fmupd ''k'' (rule_set_string std_lib demo_set) (fmupd ''x'' ''y'' fmempty))\<rparr>"

definition demo_mr ::
  "string \<Rightarrow> string \<Rightarrow> string \<Rightarrow> string list \<Rightarrow> time option \<Rightarrow> masquerading_rule"
where
  "demo_mr uid frm to fins del =
     \<lparr>mr_meta = \<lparr>om_name = ''a'', om_namespace = ''ns'', om_generate_name = '''', om_uid = uid, om_resource_version = ''1'',
        om_generation = 1, om_deletion_timestamp = del, om_finalizers = fins, om_labels = fmempty,
        om_annotations = None\<rparr>,
      mr_spec = \<lparr>sp_from = frm, sp_to = to\<rparr>,
      mr_status = \<lparr>st_observed_generation = 0, st_conditions = [], st_state = StateNew\<rparr>\<rparr>"

lemma demo_kube_simps [simp]:
  "k_get_rule (demo_kube mr cm) tr ns name = Inr mr"
  "k_get_config_map (demo_kube mr cm) tr ns name = cm"
  "k_update_rule (demo_kube mr cm) tr m = Inr m"
  "k_update_status (demo_kube mr cm) tr m = Inr m"
  "k_create_config_map (demo_kube mr cm) tr c = Inr c"
  "k_update_config_map (demo_kube mr cm) tr c = Inr c"
  "k_check_record (demo_kube mr cm) tr host expected = (True, None)"
  "k_parse_time (demo_kube mr cm) s = Inr 0" "k_now (demo_kube mr cm) tr = 100"
  by (simp_all add: demo_kube_def)

lemma demo_reconciler_simps [simp]:
  "rc_cm_namespace demo_reconciler = ''kube-system''" "rc_cm_name demo_reconciler = ''coredns''"
  "rc_cm_key demo_reconciler = ''k''" "rc_update_delay demo_reconciler = 60"
  by (simp_all add: demo_reconciler_def)

lemma demo_mr_simps [simp]:
  "mr_spec (demo_mr uid frm to fins del) = \<lparr>sp_from = frm, sp_to = to\<rparr>"
  "om_finalizers (mr_meta (demo_mr uid frm to fins del)) = fins"
  "om_deletion_timestamp (mr_meta (demo_mr uid frm to fins del)) = del"
  "om_labels (mr_meta (demo_mr uid frm to fins del)) = fmempty"
  "st_state (mr_status (demo_mr uid frm to fins del)) = StateNew"
  "owner_id (demo_mr uid frm to fins del) = uid @ '' (ns/a)''"
  "om_namespace (mr_meta (demo_mr uid frm to fins del)) = ''ns''"
  "om_name (mr_meta (demo_mr uid frm to fins del)) = ''a''"
  by (simp_all add: demo_mr_def owner_id_def)

lemma demo_update_keeps: "update_keeps (demo_kube mr cm)"
  by (simp add: update_keeps_def)

lemma demo_cm_load: "parse_rewrite_rule_set std_lib (opt_index (cm_data demo_cm) ''k'') = Inr demo_set"
  using go_lib.parse_string [OF std.go_lib_axioms demo_wf] by (simp add: demo_cm_def)

lemma demo_cm_stamp [simp]: "opt_lookup (cm_annotations demo_cm) annotation_last_updated_at = Some ''then''"
  by (simp add: demo_cm_def)

lemmas reconcile_defs =
  reconcile_rule_def webhook_default_def reconcile_body_def set_state_now_def
  reconcile_present_def set_finalizer_def apply_rule_def check_active_def update_config_map_def
  store_config_map_def create_config_map_def reconcile_deleted_def clear_finalizer_def
  notify_owner_def update_status_def Let_def deletion_is_zero_def

section \<open>Runs\<close>

text \<open>The rule is in the config map already, and the check succeeds.\<close>

definition ready_mr :: masquerading_rule where
  "ready_mr = demo_mr ''1'' ''db.org'' ''10.0.0.7'' [finalizer] None"

lemma ready_rule: "new_rewrite_rule ''1 (ns/a)'' ''db.org'' ''10.0.0.7'' = Inr demo_ip"
  using demo_printable(1) by (simp add: printable_def valid_rule_def demo_ip_def)

lemma ready_add: "add_rule std_lib demo_set demo_ip = (Inr False, demo_set)"
  using demo_no_clash(2) by (intro std.rules.put_present [OF demo_consistent])
    (auto simp: demo_get demo_owners split: if_splits)

lemma ready_run:
  "\<exists>m. UpdateRuleStatus m \<in> set (snd (reconcile_rule (demo_kube ready_mr (Inr demo_cm)) std_lib
      demo_reconciler ''ns'' ''a'')) \<and> st_state (mr_status m) = StateReady"
  by (simp add: reconcile_defs ready_mr_def demo_mr_def demo_cm_load ready_rule ready_add owner_id_def)

text \<open>A rule that is not in the config map yet and has no finalizer; the config map may not exist.\<close>

definition other_mr :: masquerading_rule where
  "other_mr = demo_mr ''3'' ''x.org'' ''y.org'' [] None"

definition demo_other :: rewrite_rule where
  "demo_other = \<lparr>rr_owner = ''3 (ns/a)'', rr_from = ''x.org'', rr_to = ''y.org''\<rparr>"

lemma other_rule: "new_rewrite_rule ''3 (ns/a)'' ''x.org'' ''y.org'' = Inr demo_other"
  by code_simp

lemma other_no_clash: "\<not> clash demo_ip demo_other" "\<not> clash demo_name demo_other"
  by code_simp+

lemma other_add: "\<exists>rs. add_rule std_lib demo_set demo_other = (Inr True, rs)"
proof -
  have "\<forall>k t. get_rule demo_set k = Some t \<longrightarrow> k \<noteq> rr_owner demo_other \<longrightarrow> \<not> clash t demo_other"
    using other_no_clash by (simp add: demo_get)
  with std.rules.put_iff [OF demo_consistent, of demo_other] obtain ch rs where
    a: "add_rule std_lib demo_set demo_other = (Inr ch, rs)" by blast
  from std.add_rule_ok [OF demo_consistent a] have ch by (simp add: demo_get demo_other_def)
  with a show ?thesis by simp
qed

lemma other_add_new: "\<exists>rs. add_rule std_lib new_rewrite_rule_set demo_other = (Inr True, rs)"
proof -
  obtain ch rs where a: "add_rule std_lib new_rewrite_rule_set demo_other = (Inr ch, rs)"
    using std.rules.put_iff [OF consistent_empty, of demo_other] by auto
  from std.add_rule_ok [OF consistent_empty a] have ch by simp
  with a show ?thesis by simp
qed

lemma update_run:
  "\<exists>cm. UpdateConfigMap cm \<in> set (snd (reconcile_rule (demo_kube other_mr (Inr demo_cm)) std_lib
      demo_reconciler ''ns'' ''a''))"
proof -
  obtain rs where "add_rule std_lib demo_set demo_other = (Inr True, rs)" using other_add by blast
  then show ?thesis
    by (simp add: reconcile_defs other_mr_def demo_mr_def demo_cm_load other_rule owner_id_def)
qed

lemma create_run:
  "\<exists>cm. CreateConfigMap cm \<in> set (snd (reconcile_rule (demo_kube other_mr (Inl (NotFound ''''))) std_lib
      demo_reconciler ''ns'' ''a''))"
proof -
  obtain rs where "add_rule std_lib new_rewrite_rule_set demo_other = (Inr True, rs)"
    using other_add_new by blast
  then show ?thesis
    by (simp add: reconcile_defs other_mr_def demo_mr_def other_rule owner_id_def)
qed

text \<open>A rule that is being deleted and has no entry any more.\<close>

definition gone_mr :: masquerading_rule where
  "gone_mr = demo_mr ''3'' ''x.org'' ''y.org'' [finalizer] (Some 50)"

lemma clear_run:
  "\<exists>m. UpdateRule m \<in> set (snd (reconcile_rule (demo_kube gone_mr (Inr demo_cm)) std_lib
      demo_reconciler ''ns'' ''a'')) \<and> finalizer \<notin> set (om_finalizers (mr_meta m))"
proof -
  have "remove_rule demo_set ''3 (ns/a)'' = (False, demo_set)"
    by (simp add: remove_rule_def demo_set_def)
  then show ?thesis
    by (simp add: reconcile_defs gone_mr_def demo_mr_def demo_cm_load owner_id_def)
qed

text \<open>A rule whose source another owner has already.\<close>

definition clashing_mr :: masquerading_rule where
  "clashing_mr = demo_mr ''3'' ''db.org'' ''y.org'' [finalizer] None"

lemma clashing_rule:
  "new_rewrite_rule ''3 (ns/a)'' ''db.org'' ''y.org'' =
    Inr \<lparr>rr_owner = ''3 (ns/a)'', rr_from = ''db.org'', rr_to = ''y.org''\<rparr>"
  by code_simp

lemma clashing: "clash demo_ip \<lparr>rr_owner = ''3 (ns/a)'', rr_from = ''db.org'', rr_to = ''y.org''\<rparr>"
  by code_simp

end
