(* ===== verification/Reconciler_Properties.thy ===== *)
theory Reconciler_Properties
  imports Reconciler_Demo
begin

text \<open>
  The properties of \<open>Reconcile\<close>: what a run writes into the config map, in which order and when, when a
  rule becomes Ready, when its finalizer goes, and how a run ends. The environment of the
  witnesses serves a rule and a config map that holds the concrete rule set.
\<close>

section \<open>Where the calls of a run come from\<close>

lemma path_no_status: "body_path K L R mr tr0 b ys \<Longrightarrow> UpdateRuleStatus m \<notin> set ys"
proof (induction rule: body_path.induct)
  case (checked gcm cm fs mr' rule rs0 rs b ys)
  from check_active_calls [OF checked.hyps(8)[folded append_assoc append_Cons], simplified]
  have "UpdateRuleStatus m \<notin> set ys" by auto
  with checked show ?case by (auto dest: finalized_calls)
qed (auto dest: finalized_calls)

lemma owner_call_not:
  "\<forall>c \<in> set zs. owner_call c \<Longrightarrow> \<not> owner_call c \<Longrightarrow> c \<notin> set zs"
  by blast

text \<open>Calls that only the body makes.\<close>

fun body_call :: "api_call \<Rightarrow> bool" where
  "body_call (UpdateConfigMap cm) = True"
| "body_call (CreateConfigMap cm) = True"
| "body_call (UpdateRule m) = True"
| "body_call (CheckRecord h t) = True"
| "body_call c = False"

lemma body_not_owner: "owner_call c \<Longrightarrow> \<not> body_call c"
  by (cases c) auto

lemma config_write_body: "config_write c \<Longrightarrow> body_call c"
  by (auto simp: config_write_def)

lemma run_tail:
  assumes "run_parts K L R ns name mr b ys zs out"
  shows "\<exists>rest. snd out = (GetRule ns name # ys) @ rest \<and>
    (\<forall>c \<in> set rest. \<not> body_call c)"
proof -
  have z: "\<not> body_call c"
    if "c \<in> set zs" for c
    using that assms body_not_owner by (auto simp: run_parts_def)
  show ?thesis
  proof (cases "be_skip b")
    case True
    with assms z show ?thesis by (intro exI [of _ zs]) (simp add: run_parts_def)
  next
    case False
    with assms obtain m us where "snd out = (GetRule ns name # ys) @ zs @ us @ [UpdateRuleStatus m]"
      and u: "status_calls b m us" by (auto simp: run_parts_def)
    moreover have "\<not> body_call c"
      if "c \<in> set us" for c
      using that u by (auto simp: status_calls_def split: option.splits)
    ultimately show ?thesis
      using z by (intro exI [of _ "zs @ us @ [UpdateRuleStatus m]"]) auto
  qed
qed

lemma run_body_call:
  assumes "run_parts K L R ns name mr b ys zs out" and "c \<in> set (snd out)"
    and "body_call c"
  shows "c \<in> set ys"
  using run_tail [OF assms(1)] assms(2,3) by auto

lemma run_split:
  assumes "run_parts K L R ns name mr b ys zs out" and "snd out = pre @ w # post" and "config_write w"
  shows "\<exists>pre' post'. pre = GetRule ns name # pre' \<and> ys = pre' @ w # post'"
proof -
  from run_tail [OF assms(1)] obtain rest where
    eq: "(GetRule ns name # ys) @ rest = pre @ w # post" and r: "\<forall>c \<in> set rest. \<not> body_call c"
    using assms(2) by auto
  from r config_write_body [OF assms(3)] have "w \<notin> set rest" by blast
  from split_before [OF eq this] obtain post' where "GetRule ns name # ys = pre @ w # post'" ..
  moreover have "w \<noteq> GetRule ns name" using assms(3) by (auto simp: config_write_def)
  ultimately show ?thesis by (cases pre) auto
qed

lemma run_status:
  assumes "run_parts K L R ns name mr b ys zs out" and "UpdateRuleStatus m \<in> set (snd out)"
  shows "\<not> be_skip b \<and> (\<exists>us. status_calls b m us)"
proof -
  have n: "UpdateRuleStatus m \<notin> set ys" "UpdateRuleStatus m \<notin> set zs"
    using assms(1) path_no_status owner_call_not [of zs "UpdateRuleStatus m"]
    by (auto simp: run_parts_def)
  show ?thesis
  proof (cases "be_skip b")
    case True
    with assms n show ?thesis by (simp add: run_parts_def)
  next
    case False
    with assms(1) obtain m' us where "snd out = (GetRule ns name # ys) @ zs @ us @ [UpdateRuleStatus m']"
      and u: "status_calls b m' us" by (auto simp: run_parts_def)
    moreover have "UpdateRuleStatus m \<notin> set us"
      using u by (auto simp: status_calls_def split: option.splits)
    ultimately have "m = m'" using assms(2) n by simp
    with False u show ?thesis by blast
  qed
qed

lemma path_no_owner_event:
  "body_path K L R mr tr0 b ys \<Longrightarrow> RecordEvent (OnOwner gvk n m) ty reason msg \<notin> set ys"
proof (induction rule: body_path.induct)
  case (checked gcm cm fs mr' rule rs0 rs b ys)
  from check_active_calls [OF checked.hyps(8)[folded append_assoc append_Cons], simplified]
  have "RecordEvent (OnOwner gvk n m) ty reason msg \<notin> set ys" by auto
  with checked show ?case by (auto dest: finalized_calls)
qed (auto dest: finalized_calls)

lemma path_no_error_state:
  assumes "body_path K L R mr tr0 b ys" and u: "update_keeps K"
    and "st_state (mr_status (be_rule b)) = StateError"
  shows "st_state (mr_status mr) = StateError"
  using assms(1)
proof (cases rule: body_path.cases)
  case (checked gcm cm fs mr' rule rs0 rs zs)
  from check_active_spec [OF checked(9)] finalized_keeps [OF u checked(5)] assms(3) show ?thesis
    by (auto split: option.splits if_splits)
next
  case (rejected gcm fs mr' e)
  with finalized_keeps [OF u rejected(5)] assms(3) show ?thesis by simp
next
  case (cleared gcm fs m)
  with u assms(3) show ?thesis by (auto simp: update_keeps_def)
qed (use assms(3) in \<open>auto dest!: plain_end_cases\<close>)

section \<open>What is written\<close>

lemma stored_map_fields:
  "cm_namespace (stored_map K L R cm rs t) = cm_namespace cm"
  "cm_name (stored_map K L R cm rs t) = cm_name cm"
  "opt_index (cm_data (stored_map K L R cm rs t)) (rc_cm_key R) = rule_set_string L rs"
  "k \<noteq> rc_cm_key R \<Longrightarrow> opt_lookup (cm_data (stored_map K L R cm rs t)) k = opt_lookup (cm_data cm) k"
  "k \<noteq> annotation_last_updated_at \<Longrightarrow>
    opt_lookup (cm_annotations (stored_map K L R cm rs t)) k = opt_lookup (cm_annotations cm) k"
  "opt_lookup (cm_annotations (stored_map K L R cm rs t)) annotation_last_updated_at = Some (k_format_time K t)"
  by (simp_all add: stored_map_def split: option.splits)

lemma owner_id_ok: "newline \<notin> set (owner_id mr) \<Longrightarrow> owner_ok (owner_id mr)"
  by (simp add: owner_ok_def owner_id_def)

lemma owner_rule_printable:
  "owner_ok k \<Longrightarrow> new_rewrite_rule k f t = Inr r \<Longrightarrow>
    printable r \<and> r = \<lparr>rr_owner = k, rr_from = f, rr_to = t\<rparr>"
  using new_rewrite_rule_printable new_rewrite_rule_Inr by blast

context go_lib
begin

lemma stored_map_parse:
  "rule_set_wf rs \<Longrightarrow>
    parse_rewrite_rule_set L (opt_index (cm_data (stored_map K L R cm rs t)) (rc_cm_key R)) = Inr rs"
  by (simp add: stored_map_fields parse_string)

lemma added_rule_wf:
  assumes "parse_rewrite_rule_set L s = Inr rs0" and "owner_ok k" and "new_rewrite_rule k f t = Inr rule"
    and "add_rule L rs0 rule = (Inr ch, rs)"
  shows "rule_set_wf rs \<and> get_rule rs = (get_rule rs0)(k := Some \<lparr>rr_owner = k, rr_from = f, rr_to = t\<rparr>) \<and>
    (ch \<longleftrightarrow> get_rule rs0 k \<noteq> Some \<lparr>rr_owner = k, rr_from = f, rr_to = t\<rparr>)"
proof -
  from parse_wf [OF assms(1)] have wf: "rule_set_wf rs0" .
  then have c: "consistent rs0" by (simp add: rule_set_wf_def)
  from owner_rule_printable [OF assms(2,3)] have p: "printable rule"
    and r: "rule = \<lparr>rr_owner = k, rr_from = f, rr_to = t\<rparr>" by auto
  from add_rule_wf [OF wf p assms(4)] add_rule_ok [OF c assms(4)] show ?thesis by (simp add: r)
qed

text \<open>A rule that clashes with what the config map holds.\<close>

lemma path_clash:
  assumes u: "update_keeps K" and p: "body_path K L R mr tr0 b ys"
    and st: "st_state (mr_status mr) \<noteq> StateUnset" "deletion_is_zero (mr_meta mr)"
    and got: "k_get_config_map K tr0 (rc_cm_namespace R) (rc_cm_name R) = Inr cm"
    and rs: "parse_rewrite_rule_set L (opt_index (cm_data cm) (rc_cm_key R)) = Inr rs"
    and t: "get_rule rs k = Some t" "k \<noteq> owner_id mr"
    and cl: "clash t \<lparr>rr_owner = owner_id mr, rr_from = sp_from (mr_spec mr), rr_to = sp_to (mr_spec mr)\<rparr>"
  shows "be_err b \<noteq> None \<and> (\<forall>c \<in> set ys. \<not> config_write c \<and> (\<forall>h e. c \<noteq> CheckRecord h e))"
proof -
  have no: False if fin: "finalized K mr tr fs mr'"
    and rule: "new_rewrite_rule (owner_id mr) (sp_from (mr_spec mr')) (sp_to (mr_spec mr')) = Inr rule"
    and add: "add_rule L rs rule = (Inr ch, rs')" for tr fs mr' rule ch rs'
  proof -
    from new_rewrite_rule_Inr [OF rule] finalized_keeps [OF u fin]
    have r: "rule = \<lparr>rr_owner = owner_id mr, rr_from = sp_from (mr_spec mr), rr_to = sp_to (mr_spec mr)\<rparr>"
      by simp
    have "consistent rs" using parse_wf [OF rs] by (simp add: rule_set_wf_def)
    from add_rule_ok [OF this add] t cl show False by (auto simp: r)
  qed
  show ?thesis
    using p
  proof (cases rule: body_path.cases)
    case (changed gcm cm' fs mr' rule rs0 rs' now ws t')
    then have "rs0 = rs" using got rs by simp
    with no [OF changed(5,6)] changed(8) show ?thesis by blast
  next
    case (checked gcm cm' fs mr' rule rs0 rs' zs)
    then have "rs0 = rs" using got rs by simp
    with no [OF checked(5,6)] checked(8) show ?thesis by blast
  next
    case (rejected gcm fs mr' e)
    with finalized_calls [OF rejected(5)] show ?thesis by (auto simp: config_write_def)
  qed (use st got in \<open>auto simp: config_write_def\<close>)
qed

text \<open>One update of the config map, on the rules it holds.\<close>

lemma config_update_exact:
  assumes k: "owner_ok (owner_id mr)" and u: "update_keeps K"
    and p: "body_path K L R mr tr0 b ys" and w: "UpdateConfigMap cm' \<in> set ys"
  shows "\<exists>cm rs0 rs t. k_get_config_map K tr0 (rc_cm_namespace R) (rc_cm_name R) = Inr cm \<and>
    parse_rewrite_rule_set L (opt_index (cm_data cm) (rc_cm_key R)) = Inr rs0 \<and>
    cm' = stored_map K L R cm rs t \<and> delay_over K R cm t \<and> rule_set_wf rs \<and> rs \<noteq> rs0 \<and>
    get_rule rs = (get_rule rs0)(owner_id mr :=
      (if deletion_is_zero (mr_meta mr) then
         Some \<lparr>rr_owner = owner_id mr, rr_from = sp_from (mr_spec mr), rr_to = sp_to (mr_spec mr)\<rparr>
       else None))"
proof -
  from path_config_update [OF p w] obtain cm rs0 rs t where
    got: "k_get_config_map K tr0 (rc_cm_namespace R) (rc_cm_name R) = Inr cm"
    and parse: "parse_rewrite_rule_set L (opt_index (cm_data cm) (rc_cm_key R)) = Inr rs0"
    and cm': "cm' = stored_map K L R cm rs t" "delay_over K R cm t"
    and ch: "if deletion_is_zero (mr_meta mr) then
       \<exists>tr fs mr' rule. finalized K mr tr fs mr' \<and>
         new_rewrite_rule (owner_id mr) (sp_from (mr_spec mr')) (sp_to (mr_spec mr')) = Inr rule \<and>
         add_rule L rs0 rule = (Inr True, rs)
     else remove_rule rs0 (owner_id mr) = (True, rs)" by blast
  have "rule_set_wf rs \<and> rs \<noteq> rs0 \<and> get_rule rs = (get_rule rs0)(owner_id mr :=
      (if deletion_is_zero (mr_meta mr) then
         Some \<lparr>rr_owner = owner_id mr, rr_from = sp_from (mr_spec mr), rr_to = sp_to (mr_spec mr)\<rparr>
       else None))"
  proof (cases "deletion_is_zero (mr_meta mr)")
    case True
    with ch obtain tr fs mr' rule where fin: "finalized K mr tr fs mr'"
      and rule: "new_rewrite_rule (owner_id mr) (sp_from (mr_spec mr')) (sp_to (mr_spec mr')) = Inr rule"
      and add: "add_rule L rs0 rule = (Inr True, rs)" by auto
    from added_rule_wf [OF parse k rule add] finalized_keeps [OF u fin] True show ?thesis
      by (auto dest: fun_cong [of _ _ "owner_id mr"])
  next
    case False
    with ch have rm: "remove_rule rs0 (owner_id mr) = (True, rs)" by simp
    from parse_wf [OF parse] have wf: "rule_set_wf rs0" .
    then have "consistent rs0" by (simp add: rule_set_wf_def)
    from remove_rule_spec [OF this rm] have g: "get_rule rs = (get_rule rs0)(owner_id mr := None)"
      and "get_rule rs0 (owner_id mr) \<noteq> None" by auto
    then have "rs \<noteq> rs0" by (metis fun_upd_same)
    with g remove_rule_wf [OF wf rm] False show ?thesis by simp
  qed
  with got parse cm' show ?thesis by blast
qed

end

section \<open>Properties\<close>

text \<open>
  C18: an update of the config map changes exactly what it should: the new text holds the
  rules of the old text, except that the owner has its own rule now, or none where it is being
  deleted; it differs from the old one; every other data key and annotation stays as it was. The names in the
  owner identifier hold no newline, and the update of the finalizer keeps the spec.
\<close>

theorem config_map_update_exact:
  assumes "go_lib L" and "update_keeps K" and "k_get_rule K [] ns name = Inr mr"
    and "newline \<notin> set (owner_id mr)"
    and "UpdateConfigMap cm' \<in> set (snd (reconcile_rule K L R ns name))"
  shows "\<exists>cm rs rs'.
    k_get_config_map K [GetRule ns name] (rc_cm_namespace R) (rc_cm_name R) = Inr cm \<and>
    parse_rewrite_rule_set L (opt_index (cm_data cm) (rc_cm_key R)) = Inr rs \<and>
    parse_rewrite_rule_set L (opt_index (cm_data cm') (rc_cm_key R)) = Inr rs' \<and> rs' \<noteq> rs \<and>
    get_rule rs' = (get_rule rs)(owner_id mr :=
      (if deletion_is_zero (mr_meta mr) then
         Some \<lparr>rr_owner = owner_id mr, rr_from = sp_from (mr_spec mr), rr_to = sp_to (mr_spec mr)\<rparr>
       else None)) \<and>
    (\<forall>k. k \<noteq> rc_cm_key R \<longrightarrow> opt_lookup (cm_data cm') k = opt_lookup (cm_data cm) k) \<and>
    (\<forall>k. k \<noteq> annotation_last_updated_at \<longrightarrow>
       opt_lookup (cm_annotations cm') k = opt_lookup (cm_annotations cm) k) \<and>
    cm_namespace cm' = cm_namespace cm \<and> cm_name cm' = cm_name cm"
proof -
  from go_lib.reconcile_run_parts [OF assms(1,3)] obtain b ys zs where
    run: "run_parts K L R ns name mr b ys zs (reconcile_rule K L R ns name)" by blast
  from run_body_call [OF run assms(5)] have w: "UpdateConfigMap cm' \<in> set ys" by simp
  from run have p: "body_path K L R (observed mr) [GetRule ns name] b ys" by (simp add: run_parts_def)
  have k: "owner_ok (owner_id (observed mr))" using assms(4) owner_id_ok by simp
  from go_lib.config_update_exact [OF assms(1) k assms(2) p w] obtain cm rs0 rs t where
    c: "k_get_config_map K [GetRule ns name] (rc_cm_namespace R) (rc_cm_name R) = Inr cm"
    "parse_rewrite_rule_set L (opt_index (cm_data cm) (rc_cm_key R)) = Inr rs0"
    and cm': "cm' = stored_map K L R cm rs t" and wf: "rule_set_wf rs" "rs \<noteq> rs0"
    and g: "get_rule rs = (get_rule rs0)(owner_id mr :=
      (if deletion_is_zero (mr_meta mr) then
         Some \<lparr>rr_owner = owner_id mr, rr_from = sp_from (mr_spec mr), rr_to = sp_to (mr_spec mr)\<rparr>
       else None))" by auto
  from go_lib.stored_map_parse [OF assms(1) wf(1)]
  have "parse_rewrite_rule_set L (opt_index (cm_data cm') (rc_cm_key R)) = Inr rs" by (simp add: cm')
  with c wf(2) g show ?thesis
    by (intro exI [of _ cm] exI [of _ rs0] exI [of _ rs]) (simp add: cm' stored_map_fields)
qed

theorem config_map_update_exact_witness:
  "\<exists>cm' rs'. UpdateConfigMap cm' \<in> set (snd (reconcile_rule (demo_kube other_mr (Inr demo_cm)) std_lib
      demo_reconciler ''ns'' ''a'')) \<and>
    parse_rewrite_rule_set std_lib (opt_index (cm_data cm') ''k'') = Inr rs' \<and>
    get_rule rs' = (get_rule demo_set)(''3 (ns/a)'' \<mapsto> demo_other)"
proof -
  from update_run obtain cm' where u: "UpdateConfigMap cm' \<in> set (snd (reconcile_rule
      (demo_kube other_mr (Inr demo_cm)) std_lib demo_reconciler ''ns'' ''a''))" by blast
  have n: "newline \<notin> set (owner_id other_mr)" by (simp add: other_mr_def)
  from config_map_update_exact [OF std.go_lib_axioms demo_update_keeps demo_kube_simps(1) n u] u
  show ?thesis
    by (auto simp: demo_cm_load other_mr_def deletion_is_zero_def demo_other_def)
qed

text \<open>
  C19: the config map is created only if it does not exist and the rule is not being deleted;
  it then holds one key, with exactly the rule.
\<close>

theorem config_map_create_exact:
  assumes "go_lib L" and "update_keeps K" and "k_get_rule K [] ns name = Inr mr"
    and "newline \<notin> set (owner_id mr)"
    and "CreateConfigMap cm' \<in> set (snd (reconcile_rule K L R ns name))"
  shows "(\<exists>e. k_get_config_map K [GetRule ns name] (rc_cm_namespace R) (rc_cm_name R) = Inl (NotFound e)) \<and>
    deletion_is_zero (mr_meta mr) \<and>
    cm_namespace cm' = rc_cm_namespace R \<and> cm_name cm' = rc_cm_name R \<and>
    (\<exists>text rs'. cm_data cm' = Some (fmupd (rc_cm_key R) text fmempty) \<and>
      parse_rewrite_rule_set L text = Inr rs' \<and>
      get_rule rs' = [owner_id mr \<mapsto>
        \<lparr>rr_owner = owner_id mr, rr_from = sp_from (mr_spec mr), rr_to = sp_to (mr_spec mr)\<rparr>])"
proof -
  from go_lib.reconcile_run_parts [OF assms(1,3)] obtain b ys zs where
    run: "run_parts K L R ns name mr b ys zs (reconcile_rule K L R ns name)" by blast
  from run_body_call [OF run assms(5)] have w: "CreateConfigMap cm' \<in> set ys" by simp
  from run have p: "body_path K L R (observed mr) [GetRule ns name] b ys" by (simp add: run_parts_def)
  from path_config_create [OF p w] obtain tr fs mr' rule ch rs e where
    c: "k_get_config_map K [GetRule ns name] (rc_cm_namespace R) (rc_cm_name R) = Inl (NotFound e)"
    "deletion_is_zero (mr_meta mr)" and fin: "finalized K (observed mr) tr fs mr'"
    and rule: "new_rewrite_rule (owner_id mr) (sp_from (mr_spec mr')) (sp_to (mr_spec mr')) = Inr rule"
    and add: "add_rule L new_rewrite_rule_set rule = (Inr ch, rs)" and cm': "cm' = new_config_map L R rs"
    by auto
  have e: "parse_rewrite_rule_set L [] = Inr new_rewrite_rule_set" by (simp add: parse_rewrite_rule_set_def)
  from go_lib.added_rule_wf [OF assms(1) e _ rule add] owner_id_ok assms(4) finalized_keeps [OF assms(2) fin]
  have "rule_set_wf rs" "get_rule rs = [owner_id mr \<mapsto>
      \<lparr>rr_owner = owner_id mr, rr_from = sp_from (mr_spec mr), rr_to = sp_to (mr_spec mr)\<rparr>]"
    by (auto simp: fun_eq_iff)
  with c go_lib.parse_string [OF assms(1), of rs] show ?thesis
    by (simp add: cm' new_config_map_def exI [of _ "rule_set_string L rs"])
qed

theorem config_map_create_exact_witness:
  "\<exists>cm'. CreateConfigMap cm' \<in> set (snd (reconcile_rule (demo_kube other_mr (Inl (NotFound ''''))) std_lib
      demo_reconciler ''ns'' ''a'')) \<and> cm_name cm' = ''coredns''"
proof -
  from create_run obtain cm' where c: "CreateConfigMap cm' \<in> set (snd (reconcile_rule
      (demo_kube other_mr (Inl (NotFound ''''))) std_lib demo_reconciler ''ns'' ''a''))" by blast
  have n: "newline \<notin> set (owner_id other_mr)" by (simp add: other_mr_def)
  from config_map_create_exact [OF std.go_lib_axioms demo_update_keeps demo_kube_simps(1) n c] c
  show ?thesis by auto
qed

text \<open>
  C20: a run that writes the state Ready has read a config map whose rules include
  exactly this rule for its owner, and the record check for the source (with a star replaced)
  and the target answered true, without error.
\<close>

theorem ready_is_sound:
  assumes "go_lib L" and "update_keeps K" and "k_get_rule K [] ns name = Inr mr"
    and "UpdateRuleStatus m \<in> set (snd (reconcile_rule K L R ns name))"
    and "st_state (mr_status m) = StateReady"
  shows "deletion_is_zero (mr_meta mr) \<and>
    (\<exists>cm rs. k_get_config_map K [GetRule ns name] (rc_cm_namespace R) (rc_cm_name R) = Inr cm \<and>
      parse_rewrite_rule_set L (opt_index (cm_data cm) (rc_cm_key R)) = Inr rs \<and>
      get_rule rs (owner_id mr) = Some
        \<lparr>rr_owner = owner_id mr, rr_from = sp_from (mr_spec mr), rr_to = sp_to (mr_spec mr)\<rparr>) \<and>
    (\<exists>tr. k_check_record K tr (replace_wildcard (sp_from (mr_spec mr))) (sp_to (mr_spec mr)) = (True, None))"
proof -
  from go_lib.reconcile_run_parts [OF assms(1,3)] obtain b ys zs where
    run: "run_parts K L R ns name mr b ys zs (reconcile_rule K L R ns name)" by blast
  from run have p: "body_path K L R (observed mr) [GetRule ns name] b ys" by (simp add: run_parts_def)
  from run_status [OF run assms(4)] obtain us where s: "\<not> be_skip b" "status_calls b m us" by blast
  with assms(5) have b: "be_err b = None" "st_state (mr_status (be_rule b)) = StateReady"
    by (auto simp: status_calls_def split: option.splits)
  from path_ready [OF p b(1) s(1) b(2), unfolded observed_simps] obtain cm tr fs mr' rule rs0 rs where
    c: "k_get_config_map K [GetRule ns name] (rc_cm_namespace R) (rc_cm_name R) = Inr cm"
      "deletion_is_zero (mr_meta mr)"
    and fin: "finalized K (observed mr) tr fs mr'"
    and rule: "new_rewrite_rule (owner_id mr) (sp_from (mr_spec mr')) (sp_to (mr_spec mr')) = Inr rule"
    and parse: "parse_rewrite_rule_set L (opt_index (cm_data cm) (rc_cm_key R)) = Inr rs0"
    and add: "add_rule L rs0 rule = (Inr False, rs)"
    and chk: "\<exists>tr'. k_check_record K tr' (replace_wildcard (sp_from (mr_spec mr'))) (sp_to (mr_spec mr')) =
      (True, None)" by blast
  have "consistent rs0" using go_lib.parse_wf [OF assms(1) parse] by (simp add: rule_set_wf_def)
  from go_lib.add_rule_ok [OF assms(1) this add] new_rewrite_rule_Inr [OF rule]
  have "get_rule rs0 (owner_id mr) = Some
      \<lparr>rr_owner = owner_id mr, rr_from = sp_from (mr_spec mr'), rr_to = sp_to (mr_spec mr')\<rparr>" by auto
  with c parse chk finalized_keeps [OF assms(2) fin] show ?thesis by auto
qed

theorem ready_is_sound_witness:
  "get_rule demo_set (owner_id ready_mr) = Some demo_ip"
proof -
  from ready_run obtain m where m: "UpdateRuleStatus m \<in> set (snd (reconcile_rule
      (demo_kube ready_mr (Inr demo_cm)) std_lib demo_reconciler ''ns'' ''a''))"
    "st_state (mr_status m) = StateReady" by blast
  from ready_is_sound [OF std.go_lib_axioms demo_update_keeps demo_kube_simps(1) m]
  show ?thesis by (auto simp: demo_cm_load ready_mr_def demo_ip_def)
qed

text \<open>
  C21: no rule is written to the config map before its finalizer is stored: at the time of the
  write the rule had the finalizer when it was read, or an update that adds it has succeeded
  earlier in the run.
\<close>

theorem finalizer_before_write:
  assumes "go_lib L" and "k_get_rule K [] ns name = Inr mr" and "deletion_is_zero (mr_meta mr)"
    and "snd (reconcile_rule K L R ns name) = pre @ w # post"
    and "(\<exists>cm. w = UpdateConfigMap cm) \<or> (\<exists>cm. w = CreateConfigMap cm)"
  shows "finalizer \<in> set (om_finalizers (mr_meta mr)) \<or>
    (\<exists>m tr m'. UpdateRule m \<in> set pre \<and> finalizer \<in> set (om_finalizers (mr_meta m)) \<and>
      k_update_rule K tr m = Inr m')"
proof -
  from go_lib.reconcile_run_parts [OF assms(1,2)] obtain b ys zs where
    run: "run_parts K L R ns name mr b ys zs (reconcile_rule K L R ns name)" by blast
  have w: "config_write w" using assms(5) by (auto simp: config_write_def)
  from run_split [OF run assms(4) w] obtain pre' post' where
    pre: "pre = GetRule ns name # pre'" and ys: "ys = pre' @ w # post'" by blast
  from run have p: "body_path K L R (observed mr) [GetRule ns name] b ys" by (simp add: run_parts_def)
  from path_finalizer_first [OF p ys w] assms(3) pre show ?thesis by auto
qed

theorem finalizer_before_write_witness:
  "\<exists>pre cm post m. snd (reconcile_rule (demo_kube other_mr (Inr demo_cm)) std_lib
      demo_reconciler ''ns'' ''a'') = pre @ UpdateConfigMap cm # post \<and> UpdateRule m \<in> set pre"
proof -
  from update_run obtain cm where "UpdateConfigMap cm \<in> set (snd (reconcile_rule
      (demo_kube other_mr (Inr demo_cm)) std_lib demo_reconciler ''ns'' ''a''))" by blast
  then obtain pre post where s: "snd (reconcile_rule (demo_kube other_mr (Inr demo_cm)) std_lib
      demo_reconciler ''ns'' ''a'') = pre @ UpdateConfigMap cm # post" by (meson split_list)
  have "deletion_is_zero (mr_meta other_mr)" "om_finalizers (mr_meta other_mr) = []"
    by (simp_all add: other_mr_def deletion_is_zero_def)
  with finalizer_before_write [OF std.go_lib_axioms demo_kube_simps(1) _ s] s show ?thesis by auto
qed

text \<open>
  C22: the finalizer is taken off only from a rule that is being deleted, that has no foreign
  finalizers, and whose entry is gone: the config map does not exist, or what it holds has no
  rule of the owner.
\<close>

theorem finalizer_removed_last:
  assumes "go_lib L" and "k_get_rule K [] ns name = Inr mr"
    and "UpdateRule m \<in> set (snd (reconcile_rule K L R ns name))"
    and "finalizer \<notin> set (om_finalizers (mr_meta m))"
  shows "\<not> deletion_is_zero (mr_meta mr) \<and> set (om_finalizers (mr_meta mr)) \<subseteq> {finalizer} \<and>
    (case k_get_config_map K [GetRule ns name] (rc_cm_namespace R) (rc_cm_name R) of
       Inl (NotFound e) \<Rightarrow> True
     | Inl (ApiError e) \<Rightarrow> False
     | Inr cm \<Rightarrow> \<exists>rs. parse_rewrite_rule_set L (opt_index (cm_data cm) (rc_cm_key R)) = Inr rs \<and>
         get_rule rs (owner_id mr) = None)"
proof -
  from go_lib.reconcile_run_parts [OF assms(1,2)] obtain b ys zs where
    run: "run_parts K L R ns name mr b ys zs (reconcile_rule K L R ns name)" by blast
  from run_body_call [OF run assms(3)] have w: "UpdateRule m \<in> set ys" by simp
  from run have p: "body_path K L R (observed mr) [GetRule ns name] b ys" by (simp add: run_parts_def)
  from path_rule_update [OF p w assms(4)] show ?thesis by auto
qed

theorem finalizer_removed_last_witness:
  "get_rule demo_set (owner_id gone_mr) = None"
proof -
  from clear_run obtain m where m: "UpdateRule m \<in> set (snd (reconcile_rule
      (demo_kube gone_mr (Inr demo_cm)) std_lib demo_reconciler ''ns'' ''a''))"
    "finalizer \<notin> set (om_finalizers (mr_meta m))" by blast
  from finalizer_removed_last [OF std.go_lib_axioms demo_kube_simps(1) m]
  show ?thesis by (auto simp: demo_cm_load)
qed

text \<open>
  C23: updates of the config map keep the configured distance: the clock is read right before an update, its time is stamped on
  the update, and where the map carried a stamp before, the update comes at least the delay after it.
\<close>

theorem update_delay_kept:
  assumes "go_lib L" and "k_get_rule K [] ns name = Inr mr"
    and "UpdateConfigMap cm' \<in> set (snd (reconcile_rule K L R ns name))"
  shows "\<exists>cm now pre post. k_get_config_map K [GetRule ns name] (rc_cm_namespace R) (rc_cm_name R) = Inr cm \<and>
    snd (reconcile_rule K L R ns name) = pre @ ReadClock # UpdateConfigMap cm' # post \<and> now = k_now K pre \<and>
    opt_lookup (cm_annotations cm') annotation_last_updated_at = Some (k_format_time K now) \<and>
    (\<forall>val. opt_lookup (cm_annotations cm) annotation_last_updated_at = Some val \<longrightarrow>
      (\<exists>last. k_parse_time K val = Inr last \<and> last + rc_update_delay R \<le> now))"
proof -
  from go_lib.reconcile_run_parts [OF assms(1,2)] obtain b ys zs where
    run: "run_parts K L R ns name mr b ys zs (reconcile_rule K L R ns name)" by blast
  from run_body_call [OF run assms(3)] have w: "UpdateConfigMap cm' \<in> set ys" by simp
  from run have p: "body_path K L R (observed mr) [GetRule ns name] b ys" by (simp add: run_parts_def)
  from path_config_clock [OF p w] obtain cm rs pre post where
    c: "k_get_config_map K [GetRule ns name] (rc_cm_namespace R) (rc_cm_name R) = Inr cm"
      "ys = pre @ ReadClock # UpdateConfigMap cm' # post"
      "cm' = stored_map K L R cm rs (k_now K (GetRule ns name # pre))" "delay_over K R cm (k_now K (GetRule ns name # pre))" by auto
  moreover from run_tail [OF run] c(2) obtain rest where
    "snd (reconcile_rule K L R ns name) = (GetRule ns name # pre) @ ReadClock # UpdateConfigMap cm' # post @ rest" by auto
  ultimately show ?thesis
    by (intro exI [of _ cm] exI [of _ "k_now K (GetRule ns name # pre)"] exI [of _ "GetRule ns name # pre"]
        exI [of _ "post @ rest"]) (simp add: stored_map_fields delay_over_def)
qed

theorem update_delay_kept_witness:
  "\<exists>cm'. UpdateConfigMap cm' \<in> set (snd (reconcile_rule (demo_kube other_mr (Inr demo_cm)) std_lib
      demo_reconciler ''ns'' ''a'')) \<and>
    opt_lookup (cm_annotations cm') annotation_last_updated_at = Some ''now''"
proof -
  from update_run obtain cm' where u: "UpdateConfigMap cm' \<in> set (snd (reconcile_rule
      (demo_kube other_mr (Inr demo_cm)) std_lib demo_reconciler ''ns'' ''a''))" by blast
  from update_delay_kept [OF std.go_lib_axioms demo_kube_simps(1) u] u show ?thesis
    by (auto simp: demo_kube_def)
qed

text \<open>
  A run never ends in silence: an error comes with the empty result (the queue retries),
  and a run without error asks for another one, unless the rule is being deleted and has been
  released, or does not exist.
\<close>

lemma reconcile_result:
  assumes "go_lib L" and "reconcile_rule K L R ns name = ((result, err), tr)"
  shows "(err \<noteq> None \<longrightarrow> result = no_result) \<and>
    (err = None \<longrightarrow> res_requeue result \<or> 0 < res_requeue_after result \<or>
      (\<exists>e. k_get_rule K [] ns name = Inl (NotFound e)) \<or>
      (\<exists>mr. k_get_rule K [] ns name = Inr mr \<and> \<not> deletion_is_zero (mr_meta mr)))"
proof (cases "k_get_rule K [] ns name")
  case (Inl e)
  with assms(2) show ?thesis
    by (auto simp: reconcile_rule_def ignore_not_found_def Let_def split: api_error.splits)
next
  case (Inr mr)
  from go_lib.reconcile_run_parts [OF assms(1) Inr] obtain b ys zs where
    run: "run_parts K L R ns name mr b ys zs ((result, err), tr)" using assms(2) by metis
  then have p: "body_path K L R (observed mr) [GetRule ns name] b ys" by (simp add: run_parts_def)
  from run Inr path_result [OF p] show ?thesis
    by (auto simp: run_parts_def split: if_splits)
qed

text \<open>
  C24: the status is written once, as the last call of a run; its state is never empty, and is Error
  only if the run reports an error. The one exception is a run that writes no status: it belongs to a rule that is being
  deleted, and ends without error and without asking for another run.
\<close>

theorem status_written_last:
  assumes "go_lib L" and "k_get_rule K [] ns name = Inr mr"
  shows "(\<exists>m pre. snd (reconcile_rule K L R ns name) = pre @ [UpdateRuleStatus m] \<and>
      (\<forall>m'. UpdateRuleStatus m' \<notin> set pre) \<and> st_state (mr_status m) \<noteq> StateUnset \<and>
      (st_state (mr_status m) = StateError \<longrightarrow> snd (fst (reconcile_rule K L R ns name)) \<noteq> None)) \<or>
    ((\<forall>m'. UpdateRuleStatus m' \<notin> set (snd (reconcile_rule K L R ns name))) \<and>
      fst (reconcile_rule K L R ns name) = (no_result, None) \<and> \<not> deletion_is_zero (mr_meta mr))"
proof -
  from go_lib.reconcile_run_parts [OF assms] obtain b ys zs where
    run: "run_parts K L R ns name mr b ys zs (reconcile_rule K L R ns name)" by blast
  then have p: "body_path K L R (observed mr) [GetRule ns name] b ys"
    and z: "\<forall>c \<in> set zs. owner_call c" by (simp_all add: run_parts_def)
  from path_no_status [OF p] owner_call_not [OF z]
  have n: "UpdateRuleStatus m' \<notin> set (GetRule ns name # ys @ zs)" for m' by simp
  show ?thesis
  proof (cases "be_skip b")
    case True
    with run path_result [OF p] n show ?thesis by (auto simp: run_parts_def split: if_splits)
  next
    case False
    with run obtain m us result err where
      out: "reconcile_rule K L R ns name = ((result, err), GetRule ns name # ys @ zs @ us @ [UpdateRuleStatus m])"
      and s: "status_calls b m us" and e: "result = be_result b \<and> err = be_err b \<or> result = no_result \<and> err \<noteq> None"
      by (auto simp: run_parts_def)
    have u: "UpdateRuleStatus m' \<notin> set us" for m'
      using s by (auto simp: status_calls_def split: option.splits)
    have "st_state (mr_status m) \<noteq> StateUnset \<and> (st_state (mr_status m) = StateError \<longrightarrow> err \<noteq> None)"
      using s e path_state [OF p _ False] by (auto simp: status_calls_def split: option.splits)
    with out n u show ?thesis
      by (intro disjI1 exI [of _ m] exI [of _ "GetRule ns name # ys @ zs @ us"]) simp
  qed
qed

theorem status_written_last_witness:
  "\<exists>m pre. snd (reconcile_rule (demo_kube other_mr (Inr demo_cm)) std_lib demo_reconciler ''ns'' ''a'') =
    pre @ [UpdateRuleStatus m]"
proof -
  have "deletion_is_zero (mr_meta other_mr)" by (simp add: other_mr_def deletion_is_zero_def)
  with status_written_last [OF std.go_lib_axioms demo_kube_simps(1), of other_mr "Inr demo_cm"]
  show ?thesis by blast
qed

text \<open>
  C25: a rule whose source clashes with the rule of another owner in the config map is refused: the run
  reports an error, leaves the config map alone and does not check the record.
\<close>

theorem clash_is_refused:
  assumes "go_lib L" and "update_keeps K" and "k_get_rule K [] ns name = Inr mr"
    and "st_state (mr_status mr) \<noteq> StateUnset" and "deletion_is_zero (mr_meta mr)"
    and "k_get_config_map K [GetRule ns name] (rc_cm_namespace R) (rc_cm_name R) = Inr cm"
    and "parse_rewrite_rule_set L (opt_index (cm_data cm) (rc_cm_key R)) = Inr rs"
    and "get_rule rs k = Some t" and "k \<noteq> owner_id mr"
    and "clash t \<lparr>rr_owner = owner_id mr, rr_from = sp_from (mr_spec mr), rr_to = sp_to (mr_spec mr)\<rparr>"
  shows "snd (fst (reconcile_rule K L R ns name)) \<noteq> None \<and>
    (\<forall>c \<in> set (snd (reconcile_rule K L R ns name)).
      (\<forall>cm. c \<noteq> UpdateConfigMap cm \<and> c \<noteq> CreateConfigMap cm) \<and> (\<forall>h e. c \<noteq> CheckRecord h e))"
proof -
  from go_lib.reconcile_run_parts [OF assms(1,3)] obtain b ys zs where
    run: "run_parts K L R ns name mr b ys zs (reconcile_rule K L R ns name)" by blast
  then have p: "body_path K L R (observed mr) [GetRule ns name] b ys" by (simp add: run_parts_def)
  have r: "be_err b \<noteq> None \<and> (\<forall>c \<in> set ys. \<not> config_write c \<and> (\<forall>h e. c \<noteq> CheckRecord h e))"
    by (rule go_lib.path_clash [OF assms(1,2) p]) (use assms(4-10) in simp_all)
  have "snd (fst (reconcile_rule K L R ns name)) \<noteq> None"
    using run r by (auto simp: run_parts_def split: if_splits)
  with r run_body_call [OF run] show ?thesis by (fastforce simp: config_write_def)
qed

theorem clash_is_refused_witness:
  "snd (fst (reconcile_rule (demo_kube clashing_mr (Inr demo_cm)) std_lib demo_reconciler ''ns'' ''a'')) \<noteq> None"
proof -
  have "st_state (mr_status clashing_mr) \<noteq> StateUnset" "deletion_is_zero (mr_meta clashing_mr)"
    by (simp_all add: clashing_mr_def deletion_is_zero_def)
  moreover have "get_rule demo_set ''1 (ns/a)'' = Some demo_ip" by (simp add: demo_get)
  moreover have "''1 (ns/a)'' \<noteq> owner_id clashing_mr" by (simp add: clashing_mr_def)
  moreover have "clash demo_ip \<lparr>rr_owner = owner_id clashing_mr,
      rr_from = sp_from (mr_spec clashing_mr), rr_to = sp_to (mr_spec clashing_mr)\<rparr>"
    using clashing by (simp add: clashing_mr_def)
  ultimately show ?thesis
    using clash_is_refused [OF std.go_lib_axioms demo_update_keeps demo_kube_simps(1), of clashing_mr
        "Inr demo_cm" "''ns''" "''a''" demo_reconciler demo_cm demo_set "''1 (ns/a)''" demo_ip]
    by (simp add: demo_cm_load)
qed

text \<open>
  C26: no run records a warning on the object that controls the rule, although the code means to
  do so on a failure: the function that does it runs before the state Error is set.
\<close>

theorem owner_never_warned:
  assumes "go_lib L" and "update_keeps K"
  shows "RecordEvent (OnOwner gvk ons oname) Warning reason msg \<notin> set (snd (reconcile_rule K L R ns name))"
proof (cases "k_get_rule K [] ns name")
  case (Inl e)
  then show ?thesis by (simp add: reconcile_rule_def)
next
  case (Inr mr)
  let ?c = "RecordEvent (OnOwner gvk ons oname) Warning reason msg"
  from go_lib.reconcile_run_parts [OF assms(1) Inr] obtain b ys zs where
    run: "run_parts K L R ns name mr b ys zs (reconcile_rule K L R ns name)" by blast
  then have p: "body_path K L R (observed mr) [GetRule ns name] b ys"
    and n: "notify_owner K (st_state (mr_status mr)) (be_rule b) (GetRule ns name # ys) =
      GetRule ns name # ys @ zs" by (simp_all add: run_parts_def)
  have y: "?c \<notin> set ys" using path_no_owner_event [OF p] .
  have "?c \<notin> set zs"
  proof
    assume "?c \<in> set zs"
    with notify_owner_failed_event [of gvk ons oname reason msg K "st_state (mr_status mr)" "be_rule b"
        "GetRule ns name # ys"] n y
    have "st_state (mr_status (be_rule b)) = StateError" "st_state (mr_status mr) \<noteq> StateError" by auto
    with path_no_error_state [OF p assms(2)] show False by simp
  qed
  with y run show ?thesis
    by (auto simp: run_parts_def status_calls_def split: if_splits option.splits)
qed

theorem owner_never_warned_witness:
  "RecordEvent (OnOwner \<lparr>gvk_group = '''', gvk_version = ''v1'', gvk_kind = ''Service''\<rparr> ''ns'' ''svc'') Warning ''ReconciliationFailed'' ''failed'' \<notin>
    set (snd (reconcile_rule (demo_kube clashing_mr (Inr demo_cm)) std_lib demo_reconciler ''ns'' ''a''))"
  by (rule owner_never_warned [OF std.go_lib_axioms demo_update_keeps])

end
