(* ===== verification/Dependents.thy ===== *)
theory Dependents
  imports Kube
begin

text \<open>
  \<^verbatim>\<open>internal/controllers/common.go\<close>: the masquerading rules that belong to a service, an ingress
  or a gateway. \<open>manage_dependents\<close> compares the rules that carry the uid of the object with the
  hosts that are wanted, creates and deletes, and keeps the finalizer of the object. The loops
  of the code are recursive functions; they return the first error.
\<close>

section \<open>The code\<close>

definition build_masquerading_rule ::
  "string \<Rightarrow> string \<Rightarrow> group_version_kind \<Rightarrow> string \<Rightarrow> string \<Rightarrow> string \<Rightarrow> string \<Rightarrow>
    masquerading_rule"
where
  "build_masquerading_rule namespace namePrefix ownerGVK ownerName ownerUid frm to =
     \<lparr>mr_meta =
        \<lparr>om_name = '''', om_namespace = namespace, om_generate_name = namePrefix @ ''-'',
         om_uid = '''', om_resource_version = '''', om_generation = 0, om_deletion_timestamp = None, om_finalizers = [],
         om_labels = fmap_of_list
           [(label_controller_group, gvk_group ownerGVK),
            (label_controller_version, gvk_version ownerGVK),
            (label_controller_kind, gvk_kind ownerGVK),
            (label_controller_name, ownerName),
            (label_controller_uid, ownerUid)],
         om_annotations = None\<rparr>,
      mr_spec = \<lparr>sp_from = frm, sp_to = to\<rparr>,
      mr_status = \<lparr>st_observed_generation = 0, st_conditions = [], st_state = StateUnset\<rparr>\<rparr>"

text \<open>The target of an object: its annotation, or the legacy one where that is empty.\<close>

definition masquerade_to :: "object_meta \<Rightarrow> string" where
  "masquerade_to obj =
     (let to = opt_index (om_annotations obj) annotation_masquerade_to in
      if to = '''' then opt_index (om_annotations obj) annotation_masquerade_to_legacy else to)"

definition matching_rule :: "string \<Rightarrow> string \<Rightarrow> masquerading_rule \<Rightarrow> bool" where
  "matching_rule frm to mr \<longleftrightarrow> sp_from (mr_spec mr) = frm \<and> sp_to (mr_spec mr) = to"

text \<open>
  The loop over the hosts. \<open>kept\<close> is the slice \<^verbatim>\<open>masqueradingRules\<close>, \<open>n\<close> is \<^verbatim>\<open>numDependents\<close>.
\<close>

fun create_loop ::
  "kube \<Rightarrow> source_object \<Rightarrow> string \<Rightarrow> masquerading_rule list \<Rightarrow> string list \<Rightarrow>
    masquerading_rule list \<Rightarrow> int \<Rightarrow> trace \<Rightarrow>
    (string + masquerading_rule list \<times> int) \<times> trace"
where
  "create_loop K obj to items [] kept n tr = (Inr (kept, n), tr)"
| "create_loop K obj to items (frm # hosts) kept n tr =
     (case find (matching_rule frm to) items of
        Some mr \<Rightarrow> create_loop K obj to items hosts (kept @ [mr]) n tr
      | None \<Rightarrow>
          let mr = build_masquerading_rule (om_namespace (so_meta obj)) (om_name (so_meta obj))
                     (so_gvk obj) (om_name (so_meta obj)) (om_uid (so_meta obj)) frm to;
              tr' = tr @ [CreateRule mr]
          in
          (case k_create_rule K tr mr of
             Inl err \<Rightarrow>
               (Inl (k_wrap K (error_text err) (''failed to create masquerading rule for host '' @ frm)), tr')
           | Inr mr' \<Rightarrow> create_loop K obj to items hosts (kept @ [mr']) (n + 1) tr'))"

definition delete_error :: "kube \<Rightarrow> masquerading_rule \<Rightarrow> api_error \<Rightarrow> string" where
  "delete_error K mr err =
     k_wrap K (error_text err) (''failed to delete masquerading rule '' @ om_namespace (mr_meta mr) @ ''/''
       @ om_name (mr_meta mr))"

text \<open>
  The loop over the items that deletes what is not in \<open>kept\<close>; where the object itself is being
  deleted, \<open>kept\<close> is empty.
\<close>

fun delete_loop ::
  "kube \<Rightarrow> masquerading_rule list \<Rightarrow> masquerading_rule list \<Rightarrow> int \<Rightarrow> trace \<Rightarrow> (string + int) \<times> trace"
where
  "delete_loop K kept [] n tr = (Inr n, tr)"
| "delete_loop K kept (mr # items) n tr =
     (if \<exists>k \<in> set kept. om_uid (mr_meta k) = om_uid (mr_meta mr) then delete_loop K kept items n tr
      else if deletion_is_zero (mr_meta mr) then
        (case k_delete_rule K tr mr of
           Some err \<Rightarrow> (Inl (delete_error K mr err), tr @ [DeleteRule mr])
         | None \<Rightarrow> delete_loop K kept items (n - 1) (tr @ [DeleteRule mr]))
      else delete_loop K kept items (n - 1) tr)"

text \<open>\<^verbatim>\<open>controllerutil.AddFinalizer\<close> and the update, and the same for the removal.\<close>

definition ensure_finalizer ::
  "kube \<Rightarrow> lib \<Rightarrow> source_object \<Rightarrow> trace \<Rightarrow> (string + source_object) \<times> trace"
where
  "ensure_finalizer K L obj tr =
     (let (fs, added) = lib_add_finalizer L (om_finalizers (so_meta obj)) finalizer;
          obj1 = obj\<lparr>so_meta := (so_meta obj)\<lparr>om_finalizers := fs\<rparr>\<rparr>
      in
      if added then
        (case k_update_source K tr obj1 of
           Inl err \<Rightarrow> (Inl (k_wrap K (error_text err) ''failed to add finalizer''), tr @ [UpdateSource obj1])
         | Inr obj2 \<Rightarrow> (Inr obj2, tr @ [UpdateSource obj1]))
      else (Inr obj1, tr))"

definition drop_finalizer ::
  "kube \<Rightarrow> lib \<Rightarrow> source_object \<Rightarrow> trace \<Rightarrow> string option \<times> trace"
where
  "drop_finalizer K L obj tr =
     (let (fs, removed) = lib_remove_finalizer L (om_finalizers (so_meta obj)) finalizer;
          obj1 = obj\<lparr>so_meta := (so_meta obj)\<lparr>om_finalizers := fs\<rparr>\<rparr>
      in
      if removed then
        (case k_update_source K tr obj1 of
           Inl err \<Rightarrow> (Some (k_wrap K (error_text err) ''failed to remove finalizer''), tr @ [UpdateSource obj1])
         | Inr obj2 \<Rightarrow> (None, tr @ [UpdateSource obj1]))
      else (None, tr))"

text \<open>
  The part of an object that is not being deleted: its result is the object as the last
  update returned it, and the number of dependents that are left.
\<close>

definition manage_live ::
  "kube \<Rightarrow> lib \<Rightarrow> source_object \<Rightarrow> string list \<Rightarrow> masquerading_rule list \<Rightarrow> trace \<Rightarrow>
    (string + source_object \<times> int) \<times> trace"
where
  "manage_live K L obj hosts items tr =
     (let to = masquerade_to (so_meta obj) in
      if to \<noteq> '''' then
        (case ensure_finalizer K L obj tr of
           (Inl err, tr1) \<Rightarrow> (Inl err, tr1)
         | (Inr obj1, tr1) \<Rightarrow>
        (case create_loop K obj1 to items hosts [] (int (length items)) tr1 of
           (Inl err, tr2) \<Rightarrow> (Inl err, tr2)
         | (Inr (kept, n), tr2) \<Rightarrow>
        (case delete_loop K kept items n tr2 of
           (Inl err, tr3) \<Rightarrow> (Inl err, tr3)
         | (Inr n', tr3) \<Rightarrow> (Inr (obj1, n'), tr3))))
      else
        (case delete_loop K [] items (int (length items)) tr of
           (Inl err, tr3) \<Rightarrow> (Inl err, tr3)
         | (Inr n', tr3) \<Rightarrow> (Inr (obj, n'), tr3)))"

definition manage_dependents ::
  "kube \<Rightarrow> lib \<Rightarrow> source_object \<Rightarrow> string list \<Rightarrow> trace \<Rightarrow> string option \<times> trace"
where
  "manage_dependents K L obj hosts tr =
     (let ns = om_namespace (so_meta obj);
          uid = om_uid (so_meta obj);
          tr0 = tr @ [ListRules ns uid]
      in
      case k_list_rules K tr ns uid of
        Inl err \<Rightarrow> (Some (k_wrap K (error_text err) ''failed to list dependent masquerading rules''), tr0)
      | Inr items \<Rightarrow>
          (case
             (if deletion_is_zero (so_meta obj) then manage_live K L obj hosts items tr0
              else
                (case delete_loop K [] items (int (length items)) tr0 of
                   (Inl err, tr3) \<Rightarrow> (Inl err, tr3)
                 | (Inr n, tr3) \<Rightarrow> (Inr (obj, n), tr3)))
           of
             (Inl err, tr3) \<Rightarrow> (Some err, tr3)
           | (Inr (obj', n), tr3) \<Rightarrow>
               if n = 0 then drop_finalizer K L obj' tr3 else (None, tr3)))"

end
