(* ===== verification/Sources.thy ===== *)
theory Sources
  imports Dependents
begin

text \<open>
  The controllers of services, ingresses and istio gateways
  (\<^verbatim>\<open>internal/controllers/service_controller.go\<close>, \<^verbatim>\<open>ingress_controller.go\<close>,
  \<^verbatim>\<open>istiogateway_controller.go\<close>): which hosts an object masquerades, the event predicates of the
  service controller, and the three reconcilers, which hand the hosts to \<open>manage_dependents\<close>.
\<close>

section \<open>Hosts\<close>

definition annotation_external_dns :: string where
  "annotation_external_dns = ''external-dns.alpha.kubernetes.io/hostname''"
definition annotation_gardener_dns :: string where
  "annotation_gardener_dns = ''dns.gardener.cloud/dnsnames''"

text \<open>The hosts of one annotation; a missing annotation has none.\<close>

definition annotated_hosts :: "object_meta \<Rightarrow> string \<Rightarrow> string fset" where
  "annotated_hosts obj key =
     (case opt_lookup (om_annotations obj) key of
        None \<Rightarrow> {||}
      | Some v \<Rightarrow> fset_of_list (split_on CHR '','' v))"

definition get_hosts_from_service :: "lib \<Rightarrow> object_meta \<Rightarrow> string list" where
  "get_hosts_from_service L service =
     lib_keys L
       (annotated_hosts service annotation_masquerade_from
        |\<union>| annotated_hosts service annotation_external_dns
        |\<union>| annotated_hosts service annotation_gardener_dns)"

text \<open>The argument is the host of every rule of the ingress.\<close>

definition get_hosts_from_ingress :: "lib \<Rightarrow> string list \<Rightarrow> string list" where
  "get_hosts_from_ingress L rules = lib_keys L (fset_of_list (filter (\<lambda>h. h \<noteq> '''') rules))"

text \<open>The argument is the host list of every server of the gateway.\<close>

definition get_hosts_from_gateway :: "lib \<Rightarrow> string list list \<Rightarrow> string list" where
  "get_hosts_from_gateway L servers = lib_keys L (fset_of_list (concat servers))"

section \<open>Event predicates\<close>

text \<open>The predicates see the object of the event, for an update the new one. An object that is
  not a service has no service type.\<close>

definition service_type_predicate :: "string \<Rightarrow> string option \<Rightarrow> bool" where
  "service_type_predicate serviceType ty = (case ty of None \<Rightarrow> True | Some t \<Rightarrow> t = serviceType)"

definition annotation_predicate :: "string \<Rightarrow> object_meta \<Rightarrow> bool" where
  "annotation_predicate key obj = (opt_lookup (om_annotations obj) key \<noteq> None)"

text \<open>\<^verbatim>\<open>SetupWithManager\<close>: a service event is handled when either predicate holds.\<close>

definition service_event_handled :: "string option \<Rightarrow> object_meta \<Rightarrow> bool" where
  "service_event_handled ty obj =
     (service_type_predicate ''LoadBalancer'' ty \<or>
      annotation_predicate annotation_masquerade_from obj)"

section \<open>The reconcilers\<close>

text \<open>
  A service whose hosts are annotated without a target gets its in-cluster name as target. The
  code writes into the annotation map only if a value was read from it, so the map is not nil.
\<close>

definition default_service_target :: "object_meta \<Rightarrow> object_meta" where
  "default_service_target service =
     (let a = om_annotations service in
      if opt_index a annotation_masquerade_from \<noteq> '''' \<and> opt_index a annotation_masquerade_to = ''''
         \<and> opt_index a annotation_masquerade_to_legacy = ''''
      then service\<lparr>om_annotations := map_option
             (fmupd annotation_masquerade_to
               (om_name service @ ''.'' @ om_namespace service @ ''.svc.cluster.local'')) a\<rparr>
      else service)"

text \<open>
  The three reconcilers get what the read of the object returns; the result of \<^verbatim>\<open>Reconcile\<close> is
  the empty one in every case, and its error is here.
\<close>

definition reconcile_service ::
  "kube \<Rightarrow> lib \<Rightarrow> string \<Rightarrow> string \<Rightarrow> api_error + source_object \<Rightarrow> string option \<times> trace"
where
  "reconcile_service K L ns name got =
     (let tr = [GetSource ns name] in
      case got of
        Inl err \<Rightarrow> (map_option (\<lambda>e. k_wrap K e ''unexpected get error'') (ignore_not_found err), tr)
      | Inr service \<Rightarrow>
          let service' = service\<lparr>so_meta := default_service_target (so_meta service)\<rparr> in
          manage_dependents K L service' (get_hosts_from_service L (so_meta service')) tr)"

definition reconcile_ingress ::
  "kube \<Rightarrow> lib \<Rightarrow> string \<Rightarrow> string \<Rightarrow> api_error + source_object \<times> string list \<Rightarrow>
    string option \<times> trace"
where
  "reconcile_ingress K L ns name got =
     (let tr = [GetSource ns name] in
      case got of
        Inl err \<Rightarrow> (map_option (\<lambda>e. k_wrap K e ''unexpected get error'') (ignore_not_found err), tr)
      | Inr (ingress, rules) \<Rightarrow>
          manage_dependents K L ingress (get_hosts_from_ingress L rules) tr)"

definition reconcile_gateway ::
  "kube \<Rightarrow> lib \<Rightarrow> string \<Rightarrow> string \<Rightarrow> api_error + source_object \<times> string list list \<Rightarrow>
    string option \<times> trace"
where
  "reconcile_gateway K L ns name got =
     (let tr = [GetSource ns name] in
      case got of
        Inl err \<Rightarrow> (map_option (\<lambda>e. k_wrap K e ''unexpected get error'') (ignore_not_found err), tr)
      | Inr (gateway, servers) \<Rightarrow>
          manage_dependents K L gateway (get_hosts_from_gateway L servers) tr)"

end
