(* ===== verification/Cluster.thy ===== *)
theory Cluster
  imports Reconciler_Properties Sources
begin

text \<open>
  Many runs of the controllers against one cluster. A system state holds the stored rules, the config map,
  and the runs that are under way: of the controller of the rules, and of the controllers of services, ingresses and
  gateways. A step starts a run, carries out its next call, ends it
  (also early, as a crash does), or is something that users and other controllers do. The
  runs interleave call by call; the queue never gives the same rule to two workers.

  The server is not code of the repository. What it promises is the relation \<open>served\<close>: reads
  answer from the store (the manager's cache is disabled for rules and config maps), an update
  is carried out only if the object still has the resource version that was read, every write
  gives a version that was never used before, a create needs the object to be absent and gives it a
  uid that no other has, a list has the rules with the label, and an
  object that is being deleted is removed with its last finalizer. A call that
  reports an error may have been carried out or not. Services, ingresses and gateways are not in the
  store; what a read of them returns is given with the run.
\<close>

section \<open>The store\<close>

declare split_paired_All [simp del] split_paired_Ex [simp del]

type_synonym rule_key = "string \<times> string"

record cluster =
  cl_rules :: "rule_key \<Rightarrow> masquerading_rule option"
  cl_config :: "config_map option"
  cl_versions :: "string set" \<comment> \<open>the resource versions given out so far\<close>

abbreviation version :: "masquerading_rule \<Rightarrow> string" where
  "version ob \<equiv> om_resource_version (mr_meta ob)"

abbreviation alive :: "masquerading_rule \<Rightarrow> bool" where
  "alive ob \<equiv> deletion_is_zero (mr_meta ob)"

abbreviation held :: "masquerading_rule \<Rightarrow> bool" where
  "held ob \<equiv> finalizer \<in> set (om_finalizers (mr_meta ob))"

text \<open>Names and uids hold none of the characters that the owner identifier puts between them.\<close>

definition plain :: "string \<Rightarrow> bool" where
  "plain s \<longleftrightarrow> set s \<inter> {CHR '' '', CHR ''/'', CHR '')'', newline} = {}"

definition stored_as :: "rule_key \<Rightarrow> masquerading_rule \<Rightarrow> bool" where
  "stored_as key ob \<longleftrightarrow> (om_namespace (mr_meta ob), om_name (mr_meta ob)) = key \<and>
     plain (fst key) \<and> plain (snd key) \<and> plain (om_uid (mr_meta ob))"

text \<open>No two stored objects have the same uid.\<close>

definition fresh_uid :: "cluster \<Rightarrow> string \<Rightarrow> bool" where
  "fresh_uid cl u \<longleftrightarrow> (\<forall>key ob. cl_rules cl key = Some ob \<longrightarrow> om_uid (mr_meta ob) \<noteq> u)"

definition unique_uids :: "cluster \<Rightarrow> bool" where
  "unique_uids cl \<longleftrightarrow> (\<forall>key ob key' ob'. cl_rules cl key = Some ob \<longrightarrow> cl_rules cl key' = Some ob' \<longrightarrow>
     om_uid (mr_meta ob) = om_uid (mr_meta ob') \<longrightarrow> key = key')"

text \<open>The rules that the config map holds.\<close>

definition installed :: "lib \<Rightarrow> reconciler \<Rightarrow> cluster \<Rightarrow> string \<Rightarrow> rewrite_rule option" where
  "installed L R cl =
     (case cl_config cl of
        None \<Rightarrow> Map.empty
      | Some cm \<Rightarrow>
          (case parse_rewrite_rule_set L (opt_index (cm_data cm) (rc_cm_key R)) of
             Inl _ \<Rightarrow> Map.empty
           | Inr rs \<Rightarrow> get_rule rs))"

definition put_rule :: "rule_key \<Rightarrow> masquerading_rule \<Rightarrow> cluster \<Rightarrow> cluster" where
  "put_rule key ob cl =
     cl\<lparr>cl_rules := (cl_rules cl)(key := if alive ob \<or> om_finalizers (mr_meta ob) \<noteq> [] then Some ob else None),
        cl_versions := insert (version ob) (cl_versions cl)\<rparr>"

definition put_config :: "config_map \<Rightarrow> cluster \<Rightarrow> cluster" where
  "put_config cm cl =
     cl\<lparr>cl_config := Some cm, cl_versions := insert (cm_resource_version cm) (cl_versions cl)\<rparr>"

section \<open>Users and other controllers\<close>

text \<open>
  They create, edit and delete rules, but leave the finalizer of the operator and the identity of an
  object alone; of the config map they may change other keys, or delete it. With a deletion other finalizers may come,
  such as the one for deletion in the foreground.
\<close>

inductive user_step :: "lib \<Rightarrow> reconciler \<Rightarrow> rule_key \<Rightarrow> cluster \<Rightarrow> cluster \<Rightarrow> bool" for L R key cl where
  create: "cl_rules cl key = None \<Longrightarrow> stored_as key ob \<Longrightarrow> alive ob \<Longrightarrow> version ob \<notin> cl_versions cl \<Longrightarrow>
    fresh_uid cl (om_uid (mr_meta ob)) \<Longrightarrow> user_step L R key cl (put_rule key ob cl)"
| edit: "cl_rules cl key = Some ob \<Longrightarrow> stored_as key ob' \<Longrightarrow> om_uid (mr_meta ob') = om_uid (mr_meta ob) \<Longrightarrow>
    om_deletion_timestamp (mr_meta ob') = om_deletion_timestamp (mr_meta ob) \<Longrightarrow> held ob' = held ob \<Longrightarrow>
    version ob' \<notin> cl_versions cl \<Longrightarrow> user_step L R key cl (put_rule key ob' cl)"
| delete: "cl_rules cl key = Some ob \<Longrightarrow> alive ob \<Longrightarrow> v \<notin> cl_versions cl \<Longrightarrow> finalizer \<in> set fs \<longleftrightarrow> held ob \<Longrightarrow>
    ob' = ob\<lparr>mr_meta := (mr_meta ob)
      \<lparr>om_deletion_timestamp := Some t, om_finalizers := fs, om_resource_version := v\<rparr>\<rparr> \<Longrightarrow>
    user_step L R key cl (put_rule key ob' cl)"
| config: "cl_config cl = Some cm \<Longrightarrow> opt_index (cm_data cm') (rc_cm_key R) = opt_index (cm_data cm) (rc_cm_key R) \<Longrightarrow>
    cm_resource_version cm' \<notin> cl_versions cl \<Longrightarrow> user_step L R key cl (put_config cm' cl)"
| unset: "user_step L R key cl (cl\<lparr>cl_config := None\<rparr>)"

section \<open>The server\<close>

fun silent_call :: "api_call \<Rightarrow> bool" where
  "silent_call (CheckRecord h t) = True"
| "silent_call (RecordEvent s ty r m) = True"
| "silent_call (GetOwner gvk ns n) = True"
| "silent_call ReadClock = True"
| "silent_call c = False"

text \<open>The rules of a namespace with a uid in their label.\<close>

definition labelled :: "cluster \<Rightarrow> string \<Rightarrow> string \<Rightarrow> masquerading_rule set" where
  "labelled cl ns u = {ob. \<exists>n. cl_rules cl (ns, n) = Some ob \<and>
     fmlookup (om_labels (mr_meta ob)) label_controller_uid = Some u}"

text \<open>What a create stores: the name is generated where there is none, and the webhook changes nothing.\<close>

definition created_as :: "masquerading_rule \<Rightarrow> string \<Rightarrow> string \<Rightarrow> string \<Rightarrow> int \<Rightarrow> masquerading_rule" where
  "created_as m n u v g = m\<lparr>mr_meta := (mr_meta m)
     \<lparr>om_name := (if om_name (mr_meta m) = '''' then n else om_name (mr_meta m)), om_uid := u,
      om_resource_version := v, om_generation := g\<rparr>\<rparr>"

inductive served :: "kube \<Rightarrow> trace \<Rightarrow> api_call \<Rightarrow> cluster \<Rightarrow> cluster \<Rightarrow> bool" for K tr where
  get_rule: "(case k_get_rule K tr ns n of
       Inr ob \<Rightarrow> cl_rules cl (ns, n) = Some ob
     | Inl (NotFound e) \<Rightarrow> cl_rules cl (ns, n) = None
     | Inl (ApiError e) \<Rightarrow> True) \<Longrightarrow> served K tr (GetRule ns n) cl cl"
| get_config: "(case k_get_config_map K tr ns n of
       Inr cm \<Rightarrow> cl_config cl = Some cm
     | Inl (NotFound e) \<Rightarrow> cl_config cl = None
     | Inl (ApiError e) \<Rightarrow> True) \<Longrightarrow> served K tr (GetConfigMap ns n) cl cl"
| update_rule: "key = (om_namespace (mr_meta m), om_name (mr_meta m)) \<Longrightarrow>
    cl_rules cl key = Some ob \<Longrightarrow> om_uid (mr_meta m) = om_uid (mr_meta ob) \<Longrightarrow> version m = version ob \<Longrightarrow>
    v \<notin> cl_versions cl \<Longrightarrow>
    ob' = m\<lparr>mr_status := mr_status ob, mr_meta := (mr_meta m)
      \<lparr>om_deletion_timestamp := om_deletion_timestamp (mr_meta ob), om_resource_version := v\<rparr>\<rparr> \<Longrightarrow>
    (\<forall>m'. k_update_rule K tr m = Inr m' \<longrightarrow> mr_meta m' = mr_meta ob' \<and> mr_spec m' = mr_spec ob') \<Longrightarrow>
    served K tr (UpdateRule m) cl (put_rule key ob' cl)"
| update_rule_failed: "k_update_rule K tr m = Inl e \<Longrightarrow> served K tr (UpdateRule m) cl cl"
| update_status: "key = (om_namespace (mr_meta m), om_name (mr_meta m)) \<Longrightarrow>
    cl_rules cl key = Some ob \<Longrightarrow> om_uid (mr_meta m) = om_uid (mr_meta ob) \<Longrightarrow> version m = version ob \<Longrightarrow>
    v \<notin> cl_versions cl \<Longrightarrow>
    ob' = ob\<lparr>mr_status := mr_status m, mr_meta := (mr_meta ob)\<lparr>om_resource_version := v\<rparr>\<rparr> \<Longrightarrow>
    (\<forall>m'. k_update_status K tr m = Inr m' \<longrightarrow> mr_meta m' = mr_meta ob' \<and> mr_spec m' = mr_spec ob') \<Longrightarrow>
    served K tr (UpdateRuleStatus m) cl (put_rule key ob' cl)"
| update_status_failed: "k_update_status K tr m = Inl e \<Longrightarrow> served K tr (UpdateRuleStatus m) cl cl"
| create_config: "cl_config cl = None \<Longrightarrow> v \<notin> cl_versions cl \<Longrightarrow>
    served K tr (CreateConfigMap cm) cl (put_config (cm\<lparr>cm_resource_version := v\<rparr>) cl)"
| create_config_failed: "k_create_config_map K tr cm = Inl e \<Longrightarrow> served K tr (CreateConfigMap cm) cl cl"
| update_config: "cl_config cl = Some cm0 \<Longrightarrow> cm_resource_version cm0 = cm_resource_version cm \<Longrightarrow>
    v \<notin> cl_versions cl \<Longrightarrow>
    served K tr (UpdateConfigMap cm) cl (put_config (cm\<lparr>cm_resource_version := v\<rparr>) cl)"
| update_config_failed: "k_update_config_map K tr cm = Inl e \<Longrightarrow> served K tr (UpdateConfigMap cm) cl cl"
| silent: "silent_call c \<Longrightarrow> served K tr c cl cl"
| get_source: "served K tr (GetSource ns n) cl cl"
| update_source: "(\<forall>obj'. k_update_source K tr obj = Inr obj' \<longrightarrow>
      om_namespace (so_meta obj') = om_namespace (so_meta obj) \<and> om_uid (so_meta obj') = om_uid (so_meta obj)) \<Longrightarrow>
    served K tr (UpdateSource obj) cl cl"
| list_rules: "(case k_list_rules K tr ns u of
       Inr items \<Rightarrow> distinct items \<and> set items = labelled cl ns u
     | Inl e \<Rightarrow> True) \<Longrightarrow> served K tr (ListRules ns u) cl cl"
| create_rule: "ob = created_as m n u v g \<Longrightarrow> key = (om_namespace (mr_meta ob), om_name (mr_meta ob)) \<Longrightarrow>
    cl_rules cl key = None \<Longrightarrow> stored_as key ob \<Longrightarrow> alive ob \<Longrightarrow> v \<notin> cl_versions cl \<Longrightarrow>
    fresh_uid cl u \<Longrightarrow>
    (\<forall>m'. k_create_rule K tr m = Inr m' \<longrightarrow> m' = ob) \<Longrightarrow>
    served K tr (CreateRule m) cl (put_rule key ob cl)"
| create_rule_failed: "k_create_rule K tr m = Inl e \<Longrightarrow> served K tr (CreateRule m) cl cl"
| delete_rule: "key = (om_namespace (mr_meta m), om_name (mr_meta m)) \<Longrightarrow>
    cl_rules cl key = Some ob \<Longrightarrow> alive ob \<Longrightarrow> v \<notin> cl_versions cl \<Longrightarrow> finalizer \<in> set fs \<longleftrightarrow> held ob \<Longrightarrow>
    ob' = ob\<lparr>mr_meta := (mr_meta ob)
      \<lparr>om_deletion_timestamp := Some t, om_finalizers := fs, om_resource_version := v\<rparr>\<rparr> \<Longrightarrow>
    served K tr (DeleteRule m) cl (put_rule key ob' cl)"
| delete_rule_again: "cl_rules cl (om_namespace (mr_meta m), om_name (mr_meta m)) = Some ob \<Longrightarrow> \<not> alive ob \<Longrightarrow>
    served K tr (DeleteRule m) cl cl"
| delete_rule_failed: "k_delete_rule K tr m = Some e \<Longrightarrow> served K tr (DeleteRule m) cl cl"

section \<open>The system\<close>

text \<open>
  A run is given by the answers it is going to get, and the calls it has made. Its next call is
  the one the code makes after those answers. Fixing the answers in advance loses no behaviour:
  the code looks at no answer before the call, and a step is possible only if the answer agrees with
  the store.
\<close>

text \<open>A run of one of the three other controllers, with what its read of the object returns.\<close>

datatype source_job =
    Service_Job string string "api_error + source_object"
  | Ingress_Job string string "api_error + source_object \<times> string list"
  | Gateway_Job string string "api_error + source_object \<times> string list list"

fun reconcile_source :: "kube \<Rightarrow> lib \<Rightarrow> source_job \<Rightarrow> string option \<times> trace" where
  "reconcile_source K L (Service_Job ns n got) = reconcile_service K L ns n got"
| "reconcile_source K L (Ingress_Job ns n got) = reconcile_ingress K L ns n got"
| "reconcile_source K L (Gateway_Job ns n got) = reconcile_gateway K L ns n got"

record system =
  sy_cluster :: cluster
  sy_runs :: "rule_key \<Rightarrow> (kube \<times> trace) option"
  sy_sources :: "nat \<Rightarrow> (source_job \<times> kube \<times> trace) option"

definition run_trace :: "lib \<Rightarrow> reconciler \<Rightarrow> rule_key \<Rightarrow> kube \<Rightarrow> trace" where
  "run_trace L R key K = snd (reconcile_rule K L R (fst key) (snd key))"

inductive sys_step :: "lib \<Rightarrow> reconciler \<Rightarrow> system \<Rightarrow> system \<Rightarrow> bool" for L R s where
  start_run: "sy_runs s key = None \<Longrightarrow> update_keeps K \<Longrightarrow>
    sys_step L R s (s\<lparr>sy_runs := (sy_runs s)(key \<mapsto> (K, []))\<rparr>)"
| call: "sy_runs s key = Some (K, tr) \<Longrightarrow> run_trace L R key K = tr @ c # rest \<Longrightarrow>
    served K tr c (sy_cluster s) cl \<Longrightarrow>
    sys_step L R s (s\<lparr>sy_cluster := cl, sy_runs := (sy_runs s)(key \<mapsto> (K, tr @ [c]))\<rparr>)"
| end_run: "sys_step L R s (s\<lparr>sy_runs := (sy_runs s)(key := None)\<rparr>)"
| start_source: "sy_sources s i = None \<Longrightarrow> sys_step L R s (s\<lparr>sy_sources := (sy_sources s)(i \<mapsto> (job, K, []))\<rparr>)"
| source_call: "sy_sources s i = Some (job, K, tr) \<Longrightarrow> snd (reconcile_source K L job) = tr @ c # rest \<Longrightarrow>
    served K tr c (sy_cluster s) cl \<Longrightarrow>
    sys_step L R s (s\<lparr>sy_cluster := cl, sy_sources := (sy_sources s)(i \<mapsto> (job, K, tr @ [c]))\<rparr>)"
| end_source: "sys_step L R s (s\<lparr>sy_sources := (sy_sources s)(i := None)\<rparr>)"
| user: "user_step L R key (sy_cluster s) cl \<Longrightarrow> sys_step L R s (s\<lparr>sy_cluster := cl\<rparr>)"

text \<open>At the start no run is under way, nothing is installed, no rule has the finalizer, and uids are unique.\<close>

definition sys_init :: "lib \<Rightarrow> reconciler \<Rightarrow> system \<Rightarrow> bool" where
  "sys_init L R s \<longleftrightarrow>
     sy_runs s = Map.empty \<and> sy_sources s = Map.empty \<and> unique_uids (sy_cluster s) \<and>
     (\<forall>key ob. cl_rules (sy_cluster s) key = Some ob \<longrightarrow> stored_as key ob \<and>
        version ob \<in> cl_versions (sy_cluster s) \<and> alive ob \<and> \<not> held ob) \<and>
     (\<forall>cm. cl_config (sy_cluster s) = Some cm \<longrightarrow> cm_resource_version cm \<in> cl_versions (sy_cluster s) \<and>
        (\<exists>rs. parse_rewrite_rule_set L (opt_index (cm_data cm) (rc_cm_key R)) = Inr rs \<and>
          get_rule rs = Map.empty))"

inductive reachable :: "lib \<Rightarrow> reconciler \<Rightarrow> system \<Rightarrow> bool" for L R where
  init: "sys_init L R s \<Longrightarrow> reachable L R s"
| step: "reachable L R s \<Longrightarrow> sys_step L R s s' \<Longrightarrow> reachable L R s'"

end
