(* ===== verification/Cluster_Steps.thy ===== *)
theory Cluster_Steps
  imports Cluster
begin

text \<open>
  What a step can do to the cluster. \<open>effect\<close> lists the changes that a run makes on behalf of one
  rule; \<open>cluster_ok\<close> is the invariant of the store, and the facts that a run relies on
  (\<open>snap\<close>, \<open>config_snap\<close>, \<open>holds\<close>) are kept by everything that others do.
\<close>

lemma put_rule_simps [simp]:
  "cl_rules (put_rule key ob cl) = (cl_rules cl)
     (key := if alive ob \<or> om_finalizers (mr_meta ob) \<noteq> [] then Some ob else None)"
  "cl_config (put_rule key ob cl) = cl_config cl"
  "cl_versions (put_rule key ob cl) = insert (version ob) (cl_versions cl)"
  by (simp_all add: put_rule_def)

lemma put_config_simps [simp]:
  "cl_rules (put_config cm cl) = cl_rules cl" "cl_config (put_config cm cl) = Some cm"
  "cl_versions (put_config cm cl) = insert (cm_resource_version cm) (cl_versions cl)"
  by (simp_all add: put_config_def)

lemma installed_put_rule [simp]: "installed L R (put_rule key ob cl) = installed L R cl"
  by (simp add: installed_def)

lemma installed_put_config:
  "parse_rewrite_rule_set L (opt_index (cm_data cm) (rc_cm_key R)) = Inr rs \<Longrightarrow>
    installed L R (put_config cm cl) = get_rule rs"
  by (simp add: installed_def)

lemma installed_config:
  "cl_config cl = Some cm \<Longrightarrow> parse_rewrite_rule_set L (opt_index (cm_data cm) (rc_cm_key R)) = Inr rs \<Longrightarrow>
    installed L R cl = get_rule rs"
  by (simp add: installed_def)

lemma installed_None: "cl_config cl = None \<Longrightarrow> installed L R cl = Map.empty"
  by (simp add: installed_def)

section \<open>Owner identifiers\<close>

text \<open>The identifier of an owner determines uid, namespace and name.\<close>

lemma plain_split:
  assumes "plain a" and "plain b" and "a @ c # x = b @ c # y" and "c \<in> {CHR '' '', CHR ''/'', CHR '')'', newline}"
  shows "a = b \<and> x = y"
proof -
  have "c \<notin> set a" "c \<notin> set b" using assms by (auto simp: plain_def)
  with assms(3) show ?thesis
  proof (induction a arbitrary: b)
    case Nil
    then show ?case by (cases b) auto
  next
    case (Cons d a)
    then show ?case by (cases b) auto
  qed
qed

lemma owner_id_inj:
  assumes "stored_as key ob" and "stored_as key' ob'" and "owner_id ob = owner_id ob'"
  shows "key = key' \<and> om_uid (mr_meta ob) = om_uid (mr_meta ob')"
proof -
  obtain ns n ns' n' where key: "key = (ns, n)" "key' = (ns', n')" by fastforce
  from assms(1,2) key have p: "plain ns" "plain n" "plain ns'" "plain n'"
    "plain (om_uid (mr_meta ob))" "plain (om_uid (mr_meta ob'))" by (auto simp: stored_as_def)
  from assms key have "om_uid (mr_meta ob) @ CHR '' '' # CHR ''('' # ns @ CHR ''/'' # n @ '')'' =
      om_uid (mr_meta ob') @ CHR '' '' # CHR ''('' # ns' @ CHR ''/'' # n' @ '')''"
    by (simp add: owner_id_def stored_as_def)
  from plain_split [OF p(5,6) this] have "om_uid (mr_meta ob) = om_uid (mr_meta ob')"
    and "ns @ CHR ''/'' # n @ '')'' = ns' @ CHR ''/'' # n' @ '')''" by auto
  moreover from plain_split [OF p(1,3) this(2)] plain_split [OF p(2,4), of "CHR '')''" "[]" "[]"]
  have "ns = ns'" "n = n'" by auto
  ultimately show ?thesis by (simp add: key)
qed

lemma stored_owner_ok: "stored_as key ob \<Longrightarrow> owner_ok (owner_id ob)"
  by (rule owner_id_ok) (auto simp: stored_as_def owner_id_def plain_def)

section \<open>The invariant of the store\<close>

definition cluster_ok :: "lib \<Rightarrow> reconciler \<Rightarrow> cluster \<Rightarrow> bool" where
  "cluster_ok L R cl \<longleftrightarrow>
     (\<forall>key ob. cl_rules cl key = Some ob \<longrightarrow> stored_as key ob \<and> version ob \<in> cl_versions cl \<and>
        (alive ob \<or> om_finalizers (mr_meta ob) \<noteq> [])) \<and>
     (\<forall>cm. cl_config cl = Some cm \<longrightarrow> cm_resource_version cm \<in> cl_versions cl \<and>
        (\<exists>rs. parse_rewrite_rule_set L (opt_index (cm_data cm) (rc_cm_key R)) = Inr rs)) \<and>
     (\<forall>k. installed L R cl k \<noteq> None \<longrightarrow>
        (\<exists>key ob. cl_rules cl key = Some ob \<and> held ob \<and> owner_id ob = k))"

lemma cluster_ok_rule:
  "cluster_ok L R cl \<Longrightarrow> cl_rules cl key = Some ob \<Longrightarrow>
    stored_as key ob \<and> version ob \<in> cl_versions cl \<and> (alive ob \<or> om_finalizers (mr_meta ob) \<noteq> [])"
  unfolding cluster_ok_def by blast

lemma cluster_ok_config:
  assumes "cluster_ok L R cl" and "cl_config cl = Some cm"
  obtains rs where "parse_rewrite_rule_set L (opt_index (cm_data cm) (rc_cm_key R)) = Inr rs"
    and "installed L R cl = get_rule rs" and "cm_resource_version cm \<in> cl_versions cl"
  using assms unfolding cluster_ok_def by (metis installed_config)

text \<open>What a run does on behalf of the rule stored under \<open>key\<close>.\<close>

inductive effect :: "lib \<Rightarrow> reconciler \<Rightarrow> rule_key \<Rightarrow> cluster \<Rightarrow> cluster \<Rightarrow> bool" for L R key cl where
  nothing: "effect L R key cl cl"
| update: "cl_rules cl key = Some ob \<Longrightarrow> stored_as key ob' \<Longrightarrow> om_uid (mr_meta ob') = om_uid (mr_meta ob) \<Longrightarrow>
    om_deletion_timestamp (mr_meta ob') = om_deletion_timestamp (mr_meta ob) \<Longrightarrow> held ob \<longrightarrow> held ob' \<Longrightarrow>
    held ob' \<longrightarrow> held ob \<or> alive ob \<Longrightarrow> version ob' \<notin> cl_versions cl \<Longrightarrow>
    effect L R key cl (put_rule key ob' cl)"
| release: "cl_rules cl key = Some ob \<Longrightarrow> \<not> alive ob \<Longrightarrow> installed L R cl (owner_id ob) = None \<Longrightarrow>
    om_finalizers (mr_meta ob') = [] \<Longrightarrow> \<not> alive ob' \<Longrightarrow> version ob' \<notin> cl_versions cl \<Longrightarrow>
    effect L R key cl (put_rule key ob' cl)"
| set_config: "cl_rules cl key = Some ob \<Longrightarrow> held ob \<Longrightarrow> x = None \<longrightarrow> \<not> alive ob \<Longrightarrow>
    parse_rewrite_rule_set L (opt_index (cm_data cm) (rc_cm_key R)) = Inr rs \<Longrightarrow>
    get_rule rs = (installed L R cl)(owner_id ob := x) \<Longrightarrow> cm_resource_version cm \<notin> cl_versions cl \<Longrightarrow>
    effect L R key cl (put_config cm cl)"

lemma owner_id_cong:
  "stored_as key ob \<Longrightarrow> stored_as key ob' \<Longrightarrow> om_uid (mr_meta ob') = om_uid (mr_meta ob) \<Longrightarrow>
    owner_id ob' = owner_id ob"
  by (auto simp: stored_as_def owner_id_def)

lemma alive_cong:
  "om_deletion_timestamp (mr_meta ob') = om_deletion_timestamp (mr_meta ob) \<Longrightarrow> alive ob' = alive ob"
  by (simp add: deletion_is_zero_def)

text \<open>An update that keeps the holder, and the removal of a rule that has nothing installed.\<close>

lemma cluster_ok_put_rule:
  assumes ok: "cluster_ok L R cl" and new: "alive ob' \<or> om_finalizers (mr_meta ob') \<noteq> [] \<longrightarrow> stored_as key ob'"
    and keep: "\<And>ob. cl_rules cl key = Some ob \<Longrightarrow> held ob \<Longrightarrow> installed L R cl (owner_id ob) \<noteq> None \<Longrightarrow>
      held ob' \<and> owner_id ob' = owner_id ob"
  shows "cluster_ok L R (put_rule key ob' cl)"
proof -
  have "\<exists>key1 ob1. cl_rules (put_rule key ob' cl) key1 = Some ob1 \<and> held ob1 \<and> owner_id ob1 = k"
    if "installed L R cl k \<noteq> None" for k
  proof -
    from ok that obtain key1 ob1 where o1: "cl_rules cl key1 = Some ob1" "held ob1" "owner_id ob1 = k"
      unfolding cluster_ok_def by blast
    show ?thesis
    proof (cases "key1 = key")
      case True
      with keep [of ob1] o1 that have "held ob'" "owner_id ob' = k" by auto
      then show ?thesis by (intro exI [of _ key] exI [of _ ob']) auto
    next
      case False
      with o1 show ?thesis by (intro exI [of _ key1] exI [of _ ob1]) simp
    qed
  qed
  with ok new show ?thesis by (auto simp: cluster_ok_def split: if_splits)
qed

lemma cluster_ok_put_config:
  assumes ok: "cluster_ok L R cl"
    and parse: "parse_rewrite_rule_set L (opt_index (cm_data cm) (rc_cm_key R)) = Inr rs"
    and new: "\<And>k. get_rule rs k \<noteq> None \<Longrightarrow> installed L R cl k = None \<Longrightarrow>
      \<exists>key ob. cl_rules cl key = Some ob \<and> held ob \<and> owner_id ob = k"
  shows "cluster_ok L R (put_config cm cl)"
  using ok new unfolding cluster_ok_def installed_put_config [OF parse] by (auto simp: parse) blast

lemma user_cluster_ok:
  assumes "cluster_ok L R cl" and "user_step L R key cl cl'"
  shows "cluster_ok L R cl'"
  using assms(2)
proof cases
  case (create ob)
  then show ?thesis by (auto intro!: cluster_ok_put_rule [OF assms(1)])
next
  case (edit ob ob')
  moreover from cluster_ok_rule [OF assms(1) edit(2)] have "stored_as key ob" by simp
  ultimately show ?thesis by (auto intro!: cluster_ok_put_rule [OF assms(1)] dest: owner_id_cong)
next
  case (delete ob v fs ob' t)
  moreover from cluster_ok_rule [OF assms(1) delete(2)] have "stored_as key ob" by simp
  ultimately show ?thesis
    by (auto intro!: cluster_ok_put_rule [OF assms(1)] simp: stored_as_def owner_id_def)
next
  case (config cm cm')
  from cluster_ok_config [OF assms(1) config(2)] obtain rs where
    "parse_rewrite_rule_set L (opt_index (cm_data cm) (rc_cm_key R)) = Inr rs"
    "installed L R cl = get_rule rs" by blast
  with config show ?thesis by (auto intro!: cluster_ok_put_config [OF assms(1), of cm' rs])
next
  case unset
  with assms(1) show ?thesis by (auto simp: cluster_ok_def installed_None)
qed

lemma effect_cluster_ok:
  assumes "cluster_ok L R cl" and "effect L R key cl cl'"
  shows "cluster_ok L R cl'"
  using assms(2)
proof cases
  case nothing
  with assms(1) show ?thesis by simp
next
  case (update ob ob')
  moreover from cluster_ok_rule [OF assms(1) update(2)] have "stored_as key ob" by simp
  ultimately show ?thesis by (auto intro!: cluster_ok_put_rule [OF assms(1)] dest: owner_id_cong)
next
  case (release ob ob')
  then show ?thesis by (auto intro!: cluster_ok_put_rule [OF assms(1)])
next
  case (set_config ob x cm rs)
  show ?thesis
    unfolding set_config(1)
  proof (rule cluster_ok_put_config [OF assms(1) set_config(5)])
    fix k assume "get_rule rs k \<noteq> None" "installed L R cl k = None"
    with set_config(6) have "k = owner_id ob" by (auto split: if_splits)
    with set_config(2,3) show "\<exists>key ob. cl_rules cl key = Some ob \<and> held ob \<and> owner_id ob = k" by blast
  qed
qed


section \<open>What a run relies on\<close>

text \<open>
  A rule and a config map that were read: if the store still has the version, it has the object. And the
  hold on a rule: it stays in the store, with the finalizer, and where it was being deleted when it was
  read, it is being deleted.
\<close>

definition snap :: "cluster \<Rightarrow> rule_key \<Rightarrow> masquerading_rule \<Rightarrow> bool" where
  "snap cl key mr \<longleftrightarrow> stored_as key mr \<and> version mr \<in> cl_versions cl \<and>
     (\<forall>ob. cl_rules cl key = Some ob \<longrightarrow> version ob = version mr \<longrightarrow> ob = mr)"

definition config_snap :: "cluster \<Rightarrow> config_map \<Rightarrow> bool" where
  "config_snap cl cm \<longleftrightarrow> cm_resource_version cm \<in> cl_versions cl \<and>
     (\<forall>c. cl_config cl = Some c \<longrightarrow> cm_resource_version c = cm_resource_version cm \<longrightarrow> c = cm)"

definition holds :: "cluster \<Rightarrow> rule_key \<Rightarrow> masquerading_rule \<Rightarrow> bool" where
  "holds cl key mr \<longleftrightarrow> (\<exists>ob. cl_rules cl key = Some ob \<and> held ob \<and>
     om_uid (mr_meta ob) = om_uid (mr_meta mr) \<and> (\<not> alive mr \<longrightarrow> \<not> alive ob))"

text \<open>What can happen between two calls of the run for \<open>key\<close>.\<close>

definition others :: "lib \<Rightarrow> reconciler \<Rightarrow> rule_key \<Rightarrow> cluster \<Rightarrow> cluster \<Rightarrow> bool" where
  "others L R key cl cl' \<longleftrightarrow> (\<exists>key'. user_step L R key' cl cl' \<or> key' \<noteq> key \<and> effect L R key' cl cl')"

lemma put_rule_snap:
  assumes "snap cl key mr" and "version ob' \<notin> cl_versions cl"
  shows "snap (put_rule key' ob' cl) key mr"
  using assms by (auto simp: snap_def split: if_splits)

lemma put_config_snap [simp]: "snap cl key mr \<Longrightarrow> snap (put_config cm cl) key mr"
  by (auto simp: snap_def)

lemma others_snap:
  assumes "others L R key cl cl'" and "snap cl key mr"
  shows "snap cl' key mr"
proof -
  from assms(1) obtain key' where "user_step L R key' cl cl' \<or> effect L R key' cl cl'"
    by (auto simp: others_def)
  then show ?thesis
  proof
    assume "user_step L R key' cl cl'"
    then show ?thesis
    proof cases
      case unset
      with assms(2) show ?thesis by (simp add: snap_def)
    qed (use assms(2) in \<open>auto intro: put_rule_snap\<close>)
  next
    assume "effect L R key' cl cl'"
    then show ?thesis by cases (use assms(2) in \<open>auto intro: put_rule_snap\<close>)
  qed
qed

lemma put_rule_config_snap [simp]: "config_snap cl cm \<Longrightarrow> config_snap (put_rule key ob cl) cm"
  by (auto simp: config_snap_def)

lemma put_config_config_snap:
  "config_snap cl cm \<Longrightarrow> cm_resource_version cm' \<notin> cl_versions cl \<Longrightarrow> config_snap (put_config cm' cl) cm"
  by (auto simp: config_snap_def)

lemma others_config_snap:
  assumes "others L R key cl cl'" and "config_snap cl cm"
  shows "config_snap cl' cm"
proof -
  from assms(1) obtain key' where "user_step L R key' cl cl' \<or> effect L R key' cl cl'"
    by (auto simp: others_def)
  then show ?thesis
  proof
    assume "user_step L R key' cl cl'"
    then show ?thesis
    proof cases
      case unset
      with assms(2) show ?thesis by (simp add: config_snap_def)
    qed (use assms(2) in \<open>auto intro: put_config_config_snap\<close>)
  next
    assume "effect L R key' cl cl'"
    then show ?thesis by cases (use assms(2) in \<open>auto intro: put_config_config_snap\<close>)
  qed
qed

lemma put_rule_holds:
  assumes "holds cl key mr" and "key' = key \<Longrightarrow> \<exists>ob. cl_rules cl key = Some ob \<and>
      (held ob \<longrightarrow> held ob' \<and> om_uid (mr_meta ob') = om_uid (mr_meta ob) \<and> (\<not> alive ob \<longrightarrow> \<not> alive ob'))"
  shows "holds (put_rule key' ob' cl) key mr"
  using assms by (auto simp: holds_def split: if_splits)

lemma put_config_holds [simp]: "holds (put_config cm cl) key mr = holds cl key mr"
  by (simp add: holds_def)

lemma others_holds:
  assumes "others L R key cl cl'" and "holds cl key mr"
  shows "holds cl' key mr"
proof -
  from assms(1) obtain key' where "user_step L R key' cl cl' \<or> key' \<noteq> key \<and> effect L R key' cl cl'"
    by (auto simp: others_def)
  then show ?thesis
  proof
    assume "user_step L R key' cl cl'"
    then show ?thesis
    proof cases
      case (create ob)
      with assms(2) show ?thesis by (auto intro!: put_rule_holds simp: holds_def)
    next
      case (edit ob ob')
      with assms(2) alive_cong [OF edit(5)] show ?thesis by (auto intro!: put_rule_holds)
    next
      case (delete ob v fs ob' t)
      then have "\<not> alive ob'" by (simp add: deletion_is_zero_def)
      with assms(2) delete show ?thesis by (auto intro!: put_rule_holds)
    next
      case unset
      with assms(2) show ?thesis by (simp add: holds_def)
    qed (use assms(2) in simp)
  next
    assume "key' \<noteq> key \<and> effect L R key' cl cl'"
    then have "key' \<noteq> key" "effect L R key' cl cl'" by auto
    from this(2) show ?thesis by cases (use assms(2) \<open>key' \<noteq> key\<close> in \<open>auto intro!: put_rule_holds\<close>)
  qed
qed

text \<open>Nobody else installs a rule for the owner.\<close>

lemma others_installed:
  assumes "others L R key cl cl'" and "cluster_ok L R cl" and "stored_as key mr"
    and "installed L R cl (owner_id mr) = None"
  shows "installed L R cl' (owner_id mr) = None"
proof -
  from assms(1) obtain key' where "user_step L R key' cl cl' \<or> key' \<noteq> key \<and> effect L R key' cl cl'"
    by (auto simp: others_def)
  then show ?thesis
  proof
    assume "user_step L R key' cl cl'"
    then show ?thesis
    proof cases
      case (config cm cm')
      from cluster_ok_config [OF assms(2) config(2)] obtain rs where
        "parse_rewrite_rule_set L (opt_index (cm_data cm) (rc_cm_key R)) = Inr rs"
        "installed L R cl = get_rule rs" by blast
      with config assms(4) show ?thesis by (simp add: installed_put_config)
    next
      case unset
      then show ?thesis by (simp add: installed_None)
    qed (use assms(4) in simp_all)
  next
    assume "key' \<noteq> key \<and> effect L R key' cl cl'"
    then have ne: "key' \<noteq> key" and "effect L R key' cl cl'" by auto
    from this(2) show ?thesis
    proof cases
      case (set_config ob x cm rs)
      from cluster_ok_rule [OF assms(2) set_config(2)] have "stored_as key' ob" by simp
      with owner_id_inj [OF assms(3) this] ne have "owner_id mr \<noteq> owner_id ob" by auto
      with set_config(6) assms(4) show ?thesis
        unfolding set_config(1) installed_put_config [OF set_config(5)] by simp
    qed (use assms(4) in simp_all)
  qed
qed

end
