(* ===== verification/Cluster_Runs.thy ===== *)
theory Cluster_Runs
  imports Cluster_Steps
begin

text \<open>
  The phases of one run, by the calls it still has to make. Every call is an \<open>effect\<close> on the cluster
  (or something a user might do as well), and leads to a phase again, whatever others do meanwhile.
\<close>

section \<open>Phases\<close>

text \<open>Calls at the end of a run; the update of the status is one that users can make, too.\<close>

definition calm :: "trace \<Rightarrow> bool" where
  "calm us \<longleftrightarrow> (\<forall>c \<in> set us. silent_call c \<or> (\<exists>m. c = UpdateRuleStatus m))"

definition all_silent :: "trace \<Rightarrow> bool" where
  "all_silent zs \<longleftrightarrow> (\<forall>c \<in> set zs. silent_call c)"

text \<open>A write that turns the installed rules, as they were read, into those with \<open>x\<close> for \<open>k\<close>.\<close>

definition config_to ::
  "lib \<Rightarrow> reconciler \<Rightarrow> cluster \<Rightarrow> api_call \<Rightarrow> string \<Rightarrow> rewrite_rule option \<Rightarrow> bool"
where
  "config_to L R cl w k x \<longleftrightarrow>
     (\<exists>cm cm' rs0 rs. w = UpdateConfigMap cm' \<and> cm_resource_version cm' = cm_resource_version cm \<and>
        config_snap cl cm \<and>
        parse_rewrite_rule_set L (opt_index (cm_data cm) (rc_cm_key R)) = Inr rs0 \<and>
        parse_rewrite_rule_set L (opt_index (cm_data cm') (rc_cm_key R)) = Inr rs \<and>
        get_rule rs = (get_rule rs0)(k := x)) \<or>
     (\<exists>cm' rs. w = CreateConfigMap cm' \<and>
        parse_rewrite_rule_set L (opt_index (cm_data cm') (rc_cm_key R)) = Inr rs \<and>
        get_rule rs = Map.empty(k := x))"

inductive run_at :: "lib \<Rightarrow> reconciler \<Rightarrow> cluster \<Rightarrow> rule_key \<Rightarrow> kube \<Rightarrow> trace \<Rightarrow> trace \<Rightarrow> bool"
  for L R cl key K where
  starting: "run_at L R cl key K [] (run_trace L R key K)"
| reading: "k_get_rule K [] (fst key) (snd key) = Inr mr \<Longrightarrow> snap cl key mr \<Longrightarrow>
    held mr \<longrightarrow> holds cl key mr \<Longrightarrow> alive mr \<or> om_finalizers (mr_meta mr) \<noteq> [] \<Longrightarrow>
    body_path K L R (observed mr) [GetRule (fst key) (snd key)] b ys \<Longrightarrow> calm us \<Longrightarrow>
    run_at L R cl key K [GetRule (fst key) (snd key)] (ys @ us)"
| acquiring: "snap cl key mr \<Longrightarrow> alive mr \<Longrightarrow> finalizer \<in> set fins \<Longrightarrow>
    m = with_finalizers fins (observed mr) \<Longrightarrow> all_silent zs \<Longrightarrow> calm us \<Longrightarrow>
    ws = [] \<or> (\<exists>w x m'. ws = [w] \<and> x \<noteq> None \<and> config_to L R cl w (owner_id mr) x \<and>
      k_update_rule K tr m = Inr m') \<Longrightarrow>
    run_at L R cl key K tr (UpdateRule m # zs @ ws @ us)"
| writing: "stored_as key mr \<Longrightarrow> holds cl key mr \<Longrightarrow> x = None \<longrightarrow> \<not> alive mr \<Longrightarrow>
    config_to L R cl w (owner_id mr) x \<Longrightarrow> all_silent zs \<Longrightarrow> calm us \<Longrightarrow>
    run_at L R cl key K tr (zs @ w # us)"
| releasing: "snap cl key mr \<Longrightarrow> \<not> alive mr \<Longrightarrow> installed L R cl (owner_id mr) = None \<Longrightarrow>
    m = with_finalizers [] (observed mr) \<Longrightarrow> calm us \<Longrightarrow>
    run_at L R cl key K tr (UpdateRule m # us)"
| ending: "calm us \<Longrightarrow> run_at L R cl key K tr us"

text \<open>Others do not disturb a run.\<close>

lemma others_config_to:
  "others L R key cl cl' \<Longrightarrow> config_to L R cl w k x \<Longrightarrow> config_to L R cl' w k x"
  unfolding config_to_def using others_config_snap by blast

lemma others_run_at:
  assumes "others L R key cl cl'" and "cluster_ok L R cl" and "run_at L R cl key K tr rest"
  shows "run_at L R cl' key K tr rest"
  using assms(3)
proof cases
  case starting
  then show ?thesis by (auto intro: run_at.starting)
next
  case (reading mr b ys us)
  with others_snap [OF assms(1)] others_holds [OF assms(1)] show ?thesis
    by (metis run_at.reading)
next
  case (acquiring mr fins m zs us ws)
  from others_config_to [OF assms(1)] acquiring(8) have
    "ws = [] \<or> (\<exists>w x m'. ws = [w] \<and> x \<noteq> None \<and> config_to L R cl' w (owner_id mr) x \<and>
      k_update_rule K tr m = Inr m')" by blast
  from run_at.acquiring [OF others_snap [OF assms(1) acquiring(2)] acquiring(3-7) this]
  show ?thesis by (simp add: acquiring(1))
next
  case (writing mr x w zs us)
  from run_at.writing [OF writing(2) others_holds [OF assms(1) writing(3)] writing(4)
      others_config_to [OF assms(1) writing(5)] writing(6,7)]
  show ?thesis by (simp add: writing(1))
next
  case (releasing mr m us)
  from releasing(2) have "stored_as key mr" by (simp add: snap_def)
  from run_at.releasing [OF others_snap [OF assms(1) releasing(2)] releasing(3)
      others_installed [OF assms(1,2) this releasing(4)] releasing(5,6)]
  show ?thesis by (simp add: releasing(1))
next
  case ending
  then show ?thesis by (rule run_at.ending)
qed

lemma observed_held [simp]: "version (observed mr) = version mr"
  by (simp add: observed_def)

section \<open>What the code does\<close>

lemma owner_call_silent: "owner_call c \<Longrightarrow> silent_call c"
  by (induction c rule: owner_call.induct) auto

lemma check_active_silent:
  assumes "check_active K mr tr0 = (b, tr0 @ ys)"
  shows "all_silent ys"
  using check_active_calls [OF assms] by (auto simp: all_silent_def)

lemma calm_simps [simp]:
  "calm []" "calm (c # us) \<longleftrightarrow> (silent_call c \<or> (\<exists>m. c = UpdateRuleStatus m)) \<and> calm us"
  "calm (us @ us') \<longleftrightarrow> calm us \<and> calm us'" "all_silent zs \<Longrightarrow> calm zs"
  "all_silent []" "all_silent (c # zs) \<longleftrightarrow> silent_call c \<and> all_silent zs"
  by (auto simp: calm_def all_silent_def)

context go_lib
begin

lemma run_trace_none:
  "k_get_rule K [] (fst key) (snd key) = Inl e \<Longrightarrow> run_trace L R key K = [GetRule (fst key) (snd key)]"
  by (simp add: run_trace_def reconcile_rule_def Let_def)

lemma run_trace_some:
  assumes "k_get_rule K [] (fst key) (snd key) = Inr mr"
  obtains b ys us where "run_trace L R key K = GetRule (fst key) (snd key) # ys @ us"
    and "body_path K L R (observed mr) [GetRule (fst key) (snd key)] b ys" and "calm us"
proof -
  from reconcile_run_parts [OF assms] obtain b ys zs where
    p: "run_parts K L R (fst key) (snd key) mr b ys zs (reconcile_rule K L R (fst key) (snd key))" by blast
  then have path: "body_path K L R (observed mr) [GetRule (fst key) (snd key)] b ys"
    and z: "calm zs" using owner_call_silent by (auto simp: run_parts_def calm_def)
  show thesis
  proof (cases "be_skip b")
    case True
    with p that [OF _ path z] show thesis by (simp add: run_parts_def run_trace_def)
  next
    case False
    with p obtain m us where "run_trace L R key K = GetRule (fst key) (snd key) # ys @ zs @ us @ [UpdateRuleStatus m]"
      and "status_calls b m us" by (auto simp: run_parts_def run_trace_def)
    moreover from this(2) have "calm us" by (auto simp: status_calls_def split: option.splits)
    ultimately show thesis using that [OF _ path, of "zs @ us @ [UpdateRuleStatus m]"] z by simp
  qed
qed

lemma config_to_update:
  assumes "update_keeps K" and "stored_as key mr" and "cluster_ok L R cl"
    and got: "\<And>cm. k_get_config_map K tr0 (rc_cm_namespace R) (rc_cm_name R) = Inr cm \<Longrightarrow> cl_config cl = Some cm"
    and path: "body_path K L R (observed mr) tr0 b ys" and w: "UpdateConfigMap cm' \<in> set ys"
  shows "\<exists>x. config_to L R cl (UpdateConfigMap cm') (owner_id mr) x \<and> (x = None \<longleftrightarrow> \<not> alive mr)"
proof -
  from stored_owner_ok [OF assms(2)] have k: "owner_ok (owner_id (observed mr))" by simp
  from config_update_exact [OF k assms(1) path w] obtain cm rs0 rs t x where
    g: "k_get_config_map K tr0 (rc_cm_namespace R) (rc_cm_name R) = Inr cm"
    and parse: "parse_rewrite_rule_set L (opt_index (cm_data cm) (rc_cm_key R)) = Inr rs0"
    and cm': "cm' = stored_map K L R cm rs t" and wf: "rule_set_wf rs"
    and rs: "get_rule rs = (get_rule rs0)(owner_id mr := x)" and x: "x = None \<longleftrightarrow> \<not> alive mr"
    by (cases "alive mr") (simp, blast)+
  from got [OF g] cluster_ok_config [OF assms(3)] have "config_snap cl cm"
    by (metis config_snap_def option.inject)
  moreover have "cm_resource_version cm' = cm_resource_version cm" by (simp add: cm' stored_map_def)
  ultimately show ?thesis
    using parse stored_map_parse [OF wf, of K R cm t] rs x unfolding config_to_def cm' by blast
qed

lemma config_to_create:
  assumes "update_keeps K" and "stored_as key mr"
    and path: "body_path K L R (observed mr) tr0 b ys" and w: "CreateConfigMap cm' \<in> set ys"
  shows "\<exists>x. config_to L R cl (CreateConfigMap cm') (owner_id mr) x \<and> x \<noteq> None"
proof -
  from path_config_create [OF path w] obtain mr' :: masquerading_rule and rule ch rs where
    rule: "new_rewrite_rule (owner_id mr) (sp_from (mr_spec mr')) (sp_to (mr_spec mr')) = Inr rule"
    and add: "add_rule L new_rewrite_rule_set rule = (Inr ch, rs)" and cm': "cm' = new_config_map L R rs"
    unfolding observed_simps by blast
  have e: "parse_rewrite_rule_set L [] = Inr new_rewrite_rule_set" by (simp add: parse_rewrite_rule_set_def)
  have "get_rule new_rewrite_rule_set = Map.empty" by (auto simp: get_rule_def new_rewrite_rule_set_def)
  with added_rule_wf [OF e stored_owner_ok [OF assms(2)] rule add] obtain r where
    wf: "rule_set_wf rs" and "get_rule rs = Map.empty(owner_id mr := Some r)" by auto
  with parse_string [OF wf] show ?thesis
    unfolding config_to_def cm' new_config_map_def by (intro exI [of _ "Some r"]) auto
qed

text \<open>After the finalizer is set, a run goes on with silent calls, and with one write of the config map.\<close>

lemma finalized_write:
  assumes s: "snap cl key mr" "alive mr" "held mr \<longrightarrow> holds cl key mr"
    and fin: "finalized K (observed mr) tr fs mr'" and zs: "all_silent zs"
    and w: "config_to L R cl w (owner_id mr) x \<and> x \<noteq> None" and us: "calm us"
  shows "run_at L R cl key K tr (fs @ zs @ w # us)"
proof -
  from fin consider "held mr" "fs = []" | fins where "finalizer \<in> set fins"
    "fs = [UpdateRule (with_finalizers fins (observed mr))]"
    "k_update_rule K tr (with_finalizers fins (observed mr)) = Inr mr'"
    by (auto simp: finalized_def)
  then show ?thesis
  proof cases
    case 1
    with run_at.writing [OF _ _ _ _ zs us, of key mr cl x L R w] s w show ?thesis by (simp add: snap_def)
  next
    case 2
    from 2(3) w have "[w] = [] \<or> (\<exists>w' x m'. [w] = [w'] \<and> x \<noteq> None \<and>
        config_to L R cl w' (owner_id mr) x \<and>
        k_update_rule K tr (with_finalizers fins (observed mr)) = Inr m')" by blast
    from run_at.acquiring [OF s(1,2) 2(1) refl zs us this] 2(2) show ?thesis by simp
  qed
qed

lemma finalized_end:
  assumes s: "snap cl key mr" "alive mr" and fin: "finalized K (observed mr) tr fs mr'"
    and zs: "all_silent zs" and us: "calm us"
  shows "run_at L R cl key K tr (fs @ zs @ us)"
proof -
  from fin consider "fs = []" | fins where "finalizer \<in> set fins"
    "fs = [UpdateRule (with_finalizers fins (observed mr))]" by (auto simp: finalized_def)
  then show ?thesis
  proof cases
    case 1
    with zs us show ?thesis by (simp add: run_at.ending)
  next
    case 2
    with run_at.acquiring [OF s 2(1) refl zs us, of "[]"] show ?thesis by auto
  qed
qed

text \<open>The rest of a run after the read of the config map: first for a live rule, then for one in deletion.\<close>

lemma after_config_alive:
  assumes u: "update_keeps K" and s: "snap cl key mr" and a: "alive mr" and h: "held mr \<longrightarrow> holds cl key mr"
    and ok: "cluster_ok L R cl"
    and got: "\<And>cm. k_get_config_map K tr0 (rc_cm_namespace R) (rc_cm_name R) = Inr cm \<Longrightarrow> cl_config cl = Some cm"
    and path: "body_path K L R (observed mr) tr0 b yy" and yy: "yy = gcm # ys"
    and gcm: "gcm = GetConfigMap (rc_cm_namespace R) (rc_cm_name R)" and us: "calm us"
  shows "run_at L R cl key K (tr0 @ [gcm]) (ys @ us)"
proof -
  from s have sa: "stored_as key mr" by (simp add: snap_def)
  note cu = config_to_update [OF u sa ok got path]
  note cc = config_to_create [OF u sa path]
  note alive_write = finalized_write [OF s _ h _ _ _ us]
  note alive_end = finalized_end [OF s _ _ _ us]
  show ?thesis
    using path
  proof (cases rule: body_path.cases)
    case first_seen
    then show ?thesis by (simp add: gcm yy)
  next
    case (finalizer_failed gcm' fins m e)
    with run_at.acquiring [OF s _ finalizer_failed(5) finalizer_failed(6) _ us, of "[]" "[]"]
    show ?thesis by (simp add: yy)
  next
    case (rejected gcm' fs mr' e)
    with alive_end [where fs = fs and mr' = mr' and zs = "[]"] show ?thesis by (simp add: gcm yy)
  next
    case (created gcm' e0 fs mr' rule ch rs now)
    then have "CreateConfigMap (new_config_map L R rs) \<in> set yy" by simp
    from cc [OF this] obtain x where "config_to L R cl (CreateConfigMap (new_config_map L R rs)) (owner_id mr) x"
      "x \<noteq> None" by blast
    with alive_write [where fs = fs and mr' = mr' and zs = "[ReadClock]"] created show ?thesis by (simp add: gcm yy)
  next
    case (changed gcm' cm fs mr' rule rs0 rs now ws t)
    show ?thesis
    proof (cases "ws = []")
      case True
      with alive_end [where fs = fs and mr' = mr' and zs = "[ReadClock, ReadClock]"] changed show ?thesis by (simp add: gcm yy)
    next
      case False
      with changed(10) obtain cm' where ws: "ws = [UpdateConfigMap cm']" by blast
      with changed(1) have "UpdateConfigMap cm' \<in> set yy" by simp
      from cu [OF _ this] obtain x where "config_to L R cl (UpdateConfigMap cm') (owner_id mr) x"
        "x = None \<longleftrightarrow> \<not> alive mr" by blast
      with alive_write [where fs = fs and mr' = mr' and zs = "[ReadClock, ReadClock]"] changed ws show ?thesis by (simp add: gcm yy)
    qed
  next
    case (checked gcm' cm fs mr' rule rs0 rs zs)
    from check_active_silent [of K mr' "tr0 @ gcm' # fs" b zs] checked have "all_silent zs" by simp
    with alive_end [where fs = fs and mr' = mr' and zs = zs] checked show ?thesis by (simp add: gcm yy)
  qed (use a us yy in \<open>simp_all add: run_at.ending\<close>)
qed

lemma after_config_dying:
  assumes u: "update_keeps K" and s: "snap cl key mr" and a: "\<not> alive mr" and h: "held mr \<longrightarrow> holds cl key mr"
    and d: "om_finalizers (mr_meta mr) \<noteq> []" and ok: "cluster_ok L R cl"
    and got: "\<And>cm. k_get_config_map K tr0 (rc_cm_namespace R) (rc_cm_name R) = Inr cm \<Longrightarrow> cl_config cl = Some cm"
    and none: "\<And>e. k_get_config_map K tr0 (rc_cm_namespace R) (rc_cm_name R) = Inl (NotFound e) \<Longrightarrow>
      cl_config cl = None"
    and path: "body_path K L R (observed mr) tr0 b yy" and yy: "yy = gcm # ys"
    and gcm: "gcm = GetConfigMap (rc_cm_namespace R) (rc_cm_name R)" and us: "calm us"
  shows "run_at L R cl key K (tr0 @ [gcm]) (ys @ us)"
proof -
  from s have sa: "stored_as key mr" by (simp add: snap_def)
  note cu = config_to_update [OF u sa ok got path]
  show ?thesis
    using path
  proof (cases rule: body_path.cases)
    case first_seen
    then show ?thesis by (simp add: gcm yy)
  next
    case (removed gcm' cm rs0 rs now msg ws t)
    show ?thesis
    proof (cases "ws = []")
      case True
      with removed us show ?thesis by (simp add: run_at.ending yy)
    next
      case False
      with removed(9) obtain cm' where ws: "ws = [UpdateConfigMap cm']" by blast
      with removed(1) have "UpdateConfigMap cm' \<in> set yy" by simp
      from cu [OF _ this] obtain x where c: "config_to L R cl (UpdateConfigMap cm') (owner_id mr) x" by blast
      have "held mr" using d removed(4,5) by (cases "om_finalizers (mr_meta mr)") auto
      with run_at.writing [OF sa _ _ c _ us, of "[ReadClock, ReadClock]"] h removed ws
      show ?thesis by (simp add: yy)
    qed
  next
    case (cleared gcm' m fs)
    show ?thesis
    proof (cases "fs = []")
      case True
      with cleared us show ?thesis by (simp add: run_at.ending yy)
    next
      case False
      have "installed L R cl (owner_id mr) = None"
        using cleared(3) none got installed_None installed_config by fastforce
      with run_at.releasing [OF s _ this cleared(6) us] False cleared show ?thesis by (simp add: yy)
    qed
  qed (use a us yy in \<open>simp_all add: run_at.ending\<close>)
qed

lemma after_config:
  assumes u: "update_keeps K" and s: "snap cl key mr" and h: "held mr \<longrightarrow> holds cl key mr"
    and d: "alive mr \<or> om_finalizers (mr_meta mr) \<noteq> []" and ok: "cluster_ok L R cl"
    and got: "\<And>cm. k_get_config_map K tr0 (rc_cm_namespace R) (rc_cm_name R) = Inr cm \<Longrightarrow> cl_config cl = Some cm"
    and none: "\<And>e. k_get_config_map K tr0 (rc_cm_namespace R) (rc_cm_name R) = Inl (NotFound e) \<Longrightarrow>
      cl_config cl = None"
    and path: "body_path K L R (observed mr) tr0 b yy" and yy: "yy = gcm # ys"
    and gcm: "gcm = GetConfigMap (rc_cm_namespace R) (rc_cm_name R)" and us: "calm us"
  shows "run_at L R cl key K (tr0 @ [gcm]) (ys @ us)"
proof (cases "alive mr")
  case True
  from after_config_alive [OF u s True h ok got path yy gcm us] show ?thesis .
next
  case False
  with d have "om_finalizers (mr_meta mr) \<noteq> []" by simp
  from after_config_dying [OF u s False h this ok got none path yy gcm us] show ?thesis .
qed

end

section \<open>One call\<close>

inductive_cases served_get_rule: "served K tr (GetRule ns n) cl cl'"
inductive_cases served_get_config: "served K tr (GetConfigMap ns n) cl cl'"
inductive_cases served_update_rule: "served K tr (UpdateRule m) cl cl'"
inductive_cases served_update_status: "served K tr (UpdateRuleStatus m) cl cl'"
inductive_cases served_create_config: "served K tr (CreateConfigMap cm) cl cl'"
inductive_cases served_update_config: "served K tr (UpdateConfigMap cm) cl cl'"

lemma served_silent: "silent_call c \<Longrightarrow> served K tr c cl cl' \<Longrightarrow> cl' = cl"
  by (erule served.cases) auto

lemma path_head:
  "body_path K L R mr tr0 b ys \<Longrightarrow>
    ys = [ReadClock] \<or> (\<exists>ys'. ys = GetConfigMap (rc_cm_namespace R) (rc_cm_name R) # ys')"
  by (erule body_path.cases) auto

lemma put_rule_config_to [simp]: "config_to L R cl w k x \<Longrightarrow> config_to L R (put_rule key ob cl) w k x"
  unfolding config_to_def using put_rule_config_snap by blast

text \<open>The status update is a change of an object that users can make, too.\<close>

lemma status_user_step:
  assumes "cluster_ok L R cl" and "served K tr (UpdateRuleStatus m) cl cl'"
  shows "cl' = cl \<or> (\<exists>key. user_step L R key cl cl')"
  using assms(2)
proof cases
  case (update_status key ob v ob')
  from cluster_ok_rule [OF assms(1) update_status(3)] have "stored_as key ob" by simp
  then have "stored_as key ob'" by (simp add: update_status(7) stored_as_def)
  from user_step.edit [OF update_status(3) this, of L R] update_status(1,6,7)
  have "user_step L R key cl cl'" by simp
  then show ?thesis by blast
qed simp_all

text \<open>The update of the finalizers, sent for the rule that was read.\<close>

lemma update_finalizers:
  assumes ok: "cluster_ok L R cl" and s: "snap cl key mr"
    and served: "served K tr (UpdateRule (with_finalizers fins (observed mr))) cl cl'"
  obtains (stored) ob' where "cl' = put_rule key ob' cl" and "cl_rules cl key = Some mr" and "stored_as key ob'"
      and "om_uid (mr_meta ob') = om_uid (mr_meta mr)" and "om_finalizers (mr_meta ob') = fins"
      and "om_deletion_timestamp (mr_meta ob') = om_deletion_timestamp (mr_meta mr)"
      and "version ob' \<notin> cl_versions cl"
    | (refused) e where "cl' = cl" and "k_update_rule K tr (with_finalizers fins (observed mr)) = Inl e"
  using served
proof cases
  case (update_rule key' ob v ob')
  with s have "key' = key" by (simp add: snap_def stored_as_def)
  with update_rule s have "ob = mr" by (simp add: snap_def)
  with update_rule s \<open>key' = key\<close> stored [of ob'] show thesis by (simp add: snap_def stored_as_def)
next
  case (update_rule_failed e)
  with refused show thesis by simp
qed simp

text \<open>What a call does to the cluster; and it leads to the rest of the run.\<close>

definition cluster_change :: "lib \<Rightarrow> reconciler \<Rightarrow> rule_key \<Rightarrow> cluster \<Rightarrow> cluster \<Rightarrow> bool" where
  "cluster_change L R key cl cl' \<longleftrightarrow> effect L R key cl cl' \<or> (\<exists>key'. user_step L R key' cl cl')"

definition leads_on ::
  "lib \<Rightarrow> reconciler \<Rightarrow> rule_key \<Rightarrow> kube \<Rightarrow> trace \<Rightarrow> trace \<Rightarrow> cluster \<Rightarrow> cluster \<Rightarrow> bool"
where
  "leads_on L R key K tr rest cl cl' \<longleftrightarrow>
     cluster_change L R key cl cl' \<and> run_at L R cl' key K tr rest"

lemma leads_onI:
  "effect L R key cl cl' \<Longrightarrow> run_at L R cl' key K tr rest \<Longrightarrow> leads_on L R key K tr rest cl cl'"
  "run_at L R cl key K tr rest \<Longrightarrow> leads_on L R key K tr rest cl cl"
  by (auto simp: leads_on_def cluster_change_def intro: effect.nothing)

lemma silent_leads_on:
  "silent_call c \<Longrightarrow> served K tr0 c cl cl' \<Longrightarrow> run_at L R cl key K tr rest \<Longrightarrow> leads_on L R key K tr rest cl cl'"
  using served_silent by (metis leads_onI(2))

context go_lib
begin

lemma first_call:
  assumes ok: "cluster_ok L R cl" and run: "run_trace L R key K = c # rest" and served: "served K [] c cl cl'"
  shows "leads_on L R key K [c] rest cl cl'"
proof (cases "k_get_rule K [] (fst key) (snd key)")
  case (Inl e)
  from run_trace_none [OF this] run served show ?thesis
    by (auto elim: served_get_rule intro!: leads_onI(2) run_at.ending)
next
  case (Inr mr)
  from run_trace_some [OF Inr] obtain b ys us where
    t: "run_trace L R key K = GetRule (fst key) (snd key) # ys @ us"
    and path: "body_path K L R (observed mr) [GetRule (fst key) (snd key)] b ys" and us: "calm us" by metis
  from served run t Inr have cl: "cl' = cl" and mr: "cl_rules cl key = Some mr"
    by (auto elim: served_get_rule)
  from cluster_ok_rule [OF ok mr] mr have "snap cl key mr" "alive mr \<or> om_finalizers (mr_meta mr) \<noteq> []"
    by (auto simp: snap_def)
  moreover from mr have "held mr \<longrightarrow> holds cl key mr" by (auto simp: holds_def)
  ultimately have "run_at L R cl key K [GetRule (fst key) (snd key)] (ys @ us)"
    using run_at.reading [OF Inr _ _ _ path us] by blast
  with cl t run show ?thesis by (simp add: leads_onI(2))
qed

lemma reading_call:
  assumes u: "update_keeps K" and ok: "cluster_ok L R cl"
    and s: "snap cl key mr" "held mr \<longrightarrow> holds cl key mr" "alive mr \<or> om_finalizers (mr_meta mr) \<noteq> []"
    and path: "body_path K L R (observed mr) tr b ys" and us: "calm us"
    and rest: "ys @ us = c # rest" and served: "served K tr c cl cl'"
  shows "leads_on L R key K (tr @ [c]) rest cl cl'"
  using path_head [OF path]
proof
  assume "ys = [ReadClock]"
  with rest have "c = ReadClock" "rest = us" by auto
  with silent_leads_on [OF _ served run_at.ending [OF us]] show ?thesis by simp
next
  assume "\<exists>ys'. ys = GetConfigMap (rc_cm_namespace R) (rc_cm_name R) # ys'"
  then obtain ys' where ys: "ys = GetConfigMap (rc_cm_namespace R) (rc_cm_name R) # ys'" ..
  with rest have c: "c = GetConfigMap (rc_cm_namespace R) (rc_cm_name R)" and r: "rest = ys' @ us" by auto
  from served [unfolded c] have "cl' = cl"
    and "k_get_config_map K tr (rc_cm_namespace R) (rc_cm_name R) = Inr cm \<Longrightarrow> cl_config cl = Some cm"
    and "k_get_config_map K tr (rc_cm_namespace R) (rc_cm_name R) = Inl (NotFound e) \<Longrightarrow> cl_config cl = None"
    for cm e by (auto elim!: served_get_config)
  with after_config [OF u s ok _ _ path ys refl us] c r show ?thesis by (simp add: leads_onI(2))
qed

lemma acquiring_call:
  assumes ok: "cluster_ok L R cl" and s: "snap cl key mr" "alive mr" "finalizer \<in> set fins"
    and zs: "all_silent zs" and us: "calm us"
    and ws: "ws = [] \<or> (\<exists>w x m'. ws = [w] \<and> x \<noteq> None \<and> config_to L R cl w (owner_id mr) x \<and>
      k_update_rule K tr (with_finalizers fins (observed mr)) = Inr m')"
    and served: "served K tr (UpdateRule (with_finalizers fins (observed mr))) cl cl'"
  shows "leads_on L R key K (tr @ [UpdateRule (with_finalizers fins (observed mr))]) (zs @ ws @ us) cl cl'"
proof (cases rule: update_finalizers [OF ok s(1) served])
  case stored: (1 ob')
  with s have eff: "effect L R key cl cl'" by (auto intro: effect.update)
  show ?thesis
  proof (cases "ws = []")
    case True
    with eff zs us show ?thesis by (simp add: leads_onI(1) run_at.ending)
  next
    case False
    with ws obtain w x where w: "ws = [w]" "x \<noteq> None" "config_to L R cl w (owner_id mr) x" by blast
    from s stored have h: "holds cl' key mr" by (auto simp: holds_def)
    from w(3) have "config_to L R cl' w (owner_id mr) x" by (simp add: stored(1))
    from run_at.writing [OF _ h _ this zs us] s(1) w(1,2) eff show ?thesis
      by (simp add: leads_onI(1) snap_def)
  qed
next
  case refused: (2 e)
  with ws have "ws = []" by auto
  with refused zs us show ?thesis by (simp add: leads_onI(2) run_at.ending)
qed

lemma config_write_effect:
  assumes ok: "cluster_ok L R cl" and mr: "stored_as key mr" "holds cl key mr" "x = None \<longrightarrow> \<not> alive mr"
    and w: "config_to L R cl w (owner_id mr) x" and served: "served K tr w cl cl'"
  shows "effect L R key cl cl'"
proof -
  from mr(2) obtain ob where ob: "cl_rules cl key = Some ob" "held ob"
    "om_uid (mr_meta ob) = om_uid (mr_meta mr)" "\<not> alive mr \<longrightarrow> \<not> alive ob" by (auto simp: holds_def)
  from cluster_ok_rule [OF ok ob(1)] owner_id_cong [OF mr(1) _ ob(3)]
  have k: "owner_id ob = owner_id mr" by simp
  from w show ?thesis
    unfolding config_to_def
  proof (elim disjE exE conjE)
    fix cm cm' rs0 rs
    assume w: "w = UpdateConfigMap cm'" "cm_resource_version cm' = cm_resource_version cm"
      "config_snap cl cm" "parse_rewrite_rule_set L (opt_index (cm_data cm) (rc_cm_key R)) = Inr rs0"
      "parse_rewrite_rule_set L (opt_index (cm_data cm') (rc_cm_key R)) = Inr rs"
      "get_rule rs = (get_rule rs0)(owner_id mr := x)"
    from served [unfolded w(1)] show ?thesis
    proof cases
      case (update_config cm0 v)
      with w have "cl_config cl = Some cm" by (auto simp: config_snap_def)
      from installed_config [OF this w(4)] w(5,6) update_config ob mr(3) show ?thesis
        by (auto intro!: effect.set_config simp: k)
    qed (simp_all add: effect.nothing)
  next
    fix cm' rs
    assume w: "w = CreateConfigMap cm'"
      "parse_rewrite_rule_set L (opt_index (cm_data cm') (rc_cm_key R)) = Inr rs"
      "get_rule rs = Map.empty(owner_id mr := x)"
    from served [unfolded w(1)] show ?thesis
    proof cases
      case (create_config v)
      from installed_None [OF create_config(2)] w(2,3) create_config ob mr(3) show ?thesis
        by (auto intro!: effect.set_config simp: k)
    qed (simp_all add: effect.nothing)
  qed
qed

lemma writing_call:
  assumes ok: "cluster_ok L R cl" and mr: "stored_as key mr" "holds cl key mr" "x = None \<longrightarrow> \<not> alive mr"
    "config_to L R cl w (owner_id mr) x" and zs: "all_silent zs" and us: "calm us"
    and rest: "zs @ w # us = c # rest" and served: "served K tr c cl cl'"
  shows "leads_on L R key K (tr @ [c]) rest cl cl'"
proof (cases zs)
  case Nil
  with rest have "c = w" "rest = us" by auto
  with config_write_effect [OF ok mr] served us show ?thesis by (simp add: leads_onI(1) run_at.ending)
next
  case (Cons z zs')
  with rest zs have c: "silent_call c" and r: "rest = zs' @ w # us" and zs': "all_silent zs'" by auto
  from silent_leads_on [OF c served run_at.writing [OF mr zs' us]] r show ?thesis by simp
qed

lemma releasing_call:
  assumes ok: "cluster_ok L R cl" and s: "snap cl key mr" "\<not> alive mr" "installed L R cl (owner_id mr) = None"
    and us: "calm us" and served: "served K tr (UpdateRule (with_finalizers [] (observed mr))) cl cl'"
  shows "leads_on L R key K (tr @ [UpdateRule (with_finalizers [] (observed mr))]) us cl cl'"
proof (cases rule: update_finalizers [OF ok s(1) served])
  case stored: (1 ob')
  with s(2,3) alive_cong [OF stored(6)] have "effect L R key cl cl'" by (auto intro: effect.release)
  with us show ?thesis by (simp add: leads_onI(1) run_at.ending)
next
  case refused: (2 e)
  with us show ?thesis by (simp add: leads_onI(2) run_at.ending)
qed

lemma ending_call:
  assumes "cluster_ok L R cl" and "calm (c # rest)" and "served K tr c cl cl'"
  shows "leads_on L R key K (tr @ [c]) rest cl cl'"
proof -
  from assms(2) have "cl' = cl \<or> (\<exists>key'. user_step L R key' cl cl')"
    using served_silent [OF _ assms(3)] status_user_step [OF assms(1)] assms(3) by fastforce
  moreover from assms(2) have "run_at L R cl' key K (tr @ [c]) rest" by (simp add: run_at.ending)
  ultimately show ?thesis by (auto simp: leads_on_def cluster_change_def intro: effect.nothing)
qed

lemma run_call:
  assumes ok: "cluster_ok L R cl" and u: "update_keeps K" and at: "run_at L R cl key K tr rest0"
    and rest: "rest0 = c # rest" and served: "served K tr c cl cl'"
  shows "leads_on L R key K (tr @ [c]) rest cl cl'"
  using at
proof cases
  case starting
  with first_call [OF ok _ served [unfolded starting(1)]] rest show ?thesis by simp
next
  case (reading mr b ys us)
  from reading_call [OF u ok reading(4-8), of c rest cl'] reading(1,2) rest served show ?thesis by simp
next
  case (acquiring mr fins m zs us ws)
  from acquiring_call [OF ok acquiring(2-4,6-8) [unfolded acquiring(5)], of cl'] acquiring(1,5) rest served
  show ?thesis by simp
next
  case (writing mr x w zs us)
  from writing_call [OF ok writing(2-7) _ served] writing(1) rest show ?thesis by simp
next
  case (releasing mr m us)
  from releasing_call [OF ok releasing(2-4,6), of K tr cl'] releasing(1,5) rest served show ?thesis by simp
next
  case ending
  with ending_call [OF ok _ served] rest show ?thesis by simp
qed

end

end
