(* ===== verification/Dependents_Properties.thy ===== *)
theory Dependents_Properties
  imports Sources
begin

text \<open>
  The properties of \<open>manage_dependents\<close> and of the hosts it is called with. The lemmas give the
  calls of the two loops in closed form.
\<close>

section \<open>The loops in closed form\<close>

definition dependent_rule :: "source_object \<Rightarrow> string \<Rightarrow> string \<Rightarrow> masquerading_rule" where
  "dependent_rule obj to frm =
     build_masquerading_rule (om_namespace (so_meta obj)) (om_name (so_meta obj)) (so_gvk obj)
       (om_name (so_meta obj)) (om_uid (so_meta obj)) frm to"

definition missing_hosts :: "string \<Rightarrow> masquerading_rule list \<Rightarrow> string list \<Rightarrow> string list" where
  "missing_hosts to items hosts = filter (\<lambda>h. find (matching_rule h to) items = None) hosts"

definition uid :: "masquerading_rule \<Rightarrow> string" where
  "uid m = om_uid (mr_meta m)"

lemma missing_hosts_Cons:
  "missing_hosts to items (h # hs) =
    (if find (matching_rule h to) items = None then h # missing_hosts to items hs
     else missing_hosts to items hs)"
  by (simp add: missing_hosts_def)

lemma create_loop_calls:
  assumes "create_loop K obj to items hosts kept n tr = (res, tr')"
  shows "\<exists>hs. tr' = tr @ map (\<lambda>h. CreateRule (dependent_rule obj to h)) hs \<and>
    set hs \<subseteq> set (missing_hosts to items hosts) \<and>
    (\<forall>kept' n'. res = Inr (kept', n') \<longrightarrow> hs = missing_hosts to items hosts \<and> n' = n + int (length hs))"
  using assms
proof (induction hosts arbitrary: kept n tr)
  case Nil
  then show ?case by (auto simp: missing_hosts_def)
next
  case (Cons h hs)
  show ?case
  proof (cases "find (matching_rule h to) items")
    case (Some m)
    with Cons.prems Cons.IH [of "kept @ [m]" n tr] show ?thesis by (auto simp: missing_hosts_Cons)
  next
    case None
    let ?r = "dependent_rule obj to h"
    show ?thesis
    proof (cases "k_create_rule K tr ?r")
      case (Inl e)
      with Cons.prems None have "tr' = tr @ [CreateRule ?r]" "\<exists>e. res = Inl e"
        by (auto simp: dependent_rule_def Let_def)
      with None show ?thesis by (intro exI [of _ "[h]"]) (auto simp: missing_hosts_Cons)
    next
      case (Inr m)
      with Cons.prems None have
        "create_loop K obj to items hs (kept @ [m]) (n + 1) (tr @ [CreateRule ?r]) = (res, tr')"
        by (auto simp: dependent_rule_def Let_def)
      from Cons.IH [OF this] obtain ks where "tr' = (tr @ [CreateRule ?r]) @
          map (\<lambda>h. CreateRule (dependent_rule obj to h)) ks"
        "set ks \<subseteq> set (missing_hosts to items hs)"
        "\<forall>kept' n'. res = Inr (kept', n') \<longrightarrow> ks = missing_hosts to items hs \<and> n' = n + 1 + int (length ks)"
        by blast
      with None show ?thesis by (intro exI [of _ "h # ks"]) (auto simp: missing_hosts_Cons)
    qed
  qed
qed

lemma create_loop_kept:
  assumes "create_loop K obj to items hosts kept n tr = (Inr (kept', n'), tr')"
  shows "\<exists>new. kept' = kept @ new \<and>
    (\<forall>m \<in> set new. (\<exists>h \<in> set hosts. find (matching_rule h to) items = Some m) \<or>
      (\<exists>tr r. k_create_rule K tr r = Inr m)) \<and>
    (\<forall>h \<in> set hosts. \<forall>m. find (matching_rule h to) items = Some m \<longrightarrow> m \<in> set new)"
  using assms
proof (induction hosts arbitrary: kept n tr)
  case Nil
  then show ?case by simp
next
  case (Cons h hs)
  show ?case
  proof (cases "find (matching_rule h to) items")
    case (Some m)
    with Cons.prems have "create_loop K obj to items hs (kept @ [m]) n tr = (Inr (kept', n'), tr')" by simp
    from Cons.IH [OF this] Some show ?thesis by fastforce
  next
    case None
    with Cons.prems obtain m tr1 r where "k_create_rule K tr r = Inr m"
      and "create_loop K obj to items hs (kept @ [m]) (n + 1) tr1 = (Inr (kept', n'), tr')"
      by (auto simp: Let_def split: sum.splits)
    from Cons.IH [OF this(2)] this(1) None show ?thesis by fastforce
  qed
qed

definition unkept :: "masquerading_rule list \<Rightarrow> masquerading_rule \<Rightarrow> bool" where
  "unkept kept m \<longleftrightarrow> uid m \<notin> uid ` set kept"

lemma delete_loop_calls:
  assumes "delete_loop K kept items n tr = (res, tr')"
  shows "\<exists>ds. tr' = tr @ map DeleteRule ds \<and>
    set ds \<subseteq> {m \<in> set items. unkept kept m \<and> deletion_is_zero (mr_meta m)} \<and>
    (\<forall>n'. res = Inr n' \<longrightarrow>
      ds = filter (\<lambda>m. unkept kept m \<and> deletion_is_zero (mr_meta m)) items \<and>
      n' = n - int (length (filter (unkept kept) items)))"
  using assms
proof (induction items arbitrary: n tr)
  case Nil
  then show ?case by auto
next
  case (Cons m items)
  have u: "(\<exists>k \<in> set kept. om_uid (mr_meta k) = om_uid (mr_meta m)) \<longleftrightarrow> \<not> unkept kept m"
    unfolding unkept_def uid_def image_iff by metis
  show ?case
  proof (cases "unkept kept m")
    case False
    with Cons.prems u have "delete_loop K kept items n tr = (res, tr')" by simp
    from Cons.IH [OF this] False show ?thesis by auto
  next
    case True
    show ?thesis
    proof (cases "deletion_is_zero (mr_meta m)")
      case False
      with Cons.prems u True have "delete_loop K kept items (n - 1) tr = (res, tr')" by simp
      from Cons.IH [OF this] False True show ?thesis by auto
    next
      case live: True
      show ?thesis
      proof (cases "k_delete_rule K tr m")
        case (Some e)
        with Cons.prems u True live have "tr' = tr @ [DeleteRule m]" "\<exists>e. res = Inl e" by auto
        with True live show ?thesis by (intro exI [of _ "[m]"]) auto
      next
        case None
        with Cons.prems u True live have
          "delete_loop K kept items (n - 1) (tr @ [DeleteRule m]) = (res, tr')" by simp
        from Cons.IH [OF this] obtain ds where "tr' = (tr @ [DeleteRule m]) @ map DeleteRule ds"
          "set ds \<subseteq> {m \<in> set items. unkept kept m \<and> deletion_is_zero (mr_meta m)}"
          "\<forall>n'. res = Inr n' \<longrightarrow>
            ds = filter (\<lambda>m. unkept kept m \<and> deletion_is_zero (mr_meta m)) items \<and>
            n' = n - 1 - int (length (filter (unkept kept) items))" by blast
        with True live show ?thesis by (intro exI [of _ "m # ds"]) auto
      qed
    qed
  qed
qed

lemma delete_loop_succeeded:
  "delete_loop K kept items n tr = (Inr n', tr') \<Longrightarrow> m \<in> set items \<Longrightarrow> unkept kept m \<Longrightarrow>
    deletion_is_zero (mr_meta m) \<Longrightarrow> \<exists>tr. k_delete_rule K tr m = None"
proof (induction items arbitrary: n tr)
  case (Cons i items)
  have u: "(\<exists>k \<in> set kept. om_uid (mr_meta k) = om_uid (mr_meta i)) \<longleftrightarrow> \<not> unkept kept i"
    unfolding unkept_def uid_def image_iff by metis
  from Cons u show ?case by (auto split: if_splits option.splits)
qed simp

lemma find_matching_Some:
  assumes "find (matching_rule h to) items = Some m"
  shows "m \<in> set items \<and> mr_spec m = \<lparr>sp_from = h, sp_to = to\<rparr>"
proof -
  from assms have m: "m \<in> set items" "matching_rule h to m" by (auto simp: find_Some_iff)
  from m(2) have "mr_spec m = \<lparr>sp_from = h, sp_to = to\<rparr>"
    by (intro rule_spec.equality) (simp_all add: matching_rule_def)
  with m(1) show ?thesis by simp
qed

definition wanted :: "string \<Rightarrow> masquerading_rule list \<Rightarrow> string list \<Rightarrow> masquerading_rule \<Rightarrow> bool" where
  "wanted to items hosts m \<longleftrightarrow> (\<exists>h \<in> set hosts. find (matching_rule h to) items = Some m)"

section \<open>The finalizer of the object\<close>

definition source_finalizers :: "source_object \<Rightarrow> string list" where
  "source_finalizers obj = om_finalizers (so_meta obj)"

context go_lib
begin

lemma ensure_finalizer_spec:
  assumes "ensure_finalizer K L obj tr = (res, tr')"
  shows "\<exists>fs. tr' = tr @ fs \<and>
    (finalizer \<in> set (source_finalizers obj) \<and> fs = [] \<and> res = Inr obj \<or>
     (\<exists>o1. fs = [UpdateSource o1] \<and> finalizer \<in> set (source_finalizers o1) \<and>
        (case res of Inl e \<Rightarrow> True | Inr obj' \<Rightarrow> k_update_source K tr o1 = Inr obj')))"
proof (cases "finalizer \<in> set (source_finalizers obj)")
  case True
  with assms show ?thesis
    by (simp add: ensure_finalizer_def add_finalizer_eq source_finalizers_def)
next
  case False
  with assms show ?thesis
    by (auto simp: ensure_finalizer_def add_finalizer_eq source_finalizers_def Let_def split: sum.splits)
qed

lemma drop_finalizer_spec:
  assumes "drop_finalizer K L obj tr = (err, tr')"
  shows "tr' = tr \<and> err = None \<and> finalizer \<notin> set (source_finalizers obj) \<or>
    (\<exists>o1. tr' = tr @ [UpdateSource o1] \<and> finalizer \<notin> set (source_finalizers o1))"
  using assms
  by (auto simp: drop_finalizer_def remove_finalizer_eq source_finalizers_def Let_def
      split: sum.splits if_splits)

text \<open>All calls of the part for an object with a target.\<close>

lemma manage_live_calls:
  assumes "manage_live K L obj hosts items tr = (Inr (obj', n), tr')"
    and "masquerade_to (so_meta obj) = to" and "to \<noteq> ''''"
  shows "\<exists>fs kept. tr' = tr @ fs
      @ map (\<lambda>h. CreateRule (dependent_rule obj' to h)) (missing_hosts to items hosts)
      @ map DeleteRule (filter (\<lambda>m. unkept kept m \<and> deletion_is_zero (mr_meta m)) items) \<and>
    (finalizer \<in> set (source_finalizers obj) \<and> fs = [] \<and> obj' = obj \<or>
     (\<exists>o1. fs = [UpdateSource o1] \<and> finalizer \<in> set (source_finalizers o1) \<and>
        k_update_source K tr o1 = Inr obj')) \<and>
    (\<forall>m \<in> set kept. wanted to items hosts m \<or> (\<exists>tr r. k_create_rule K tr r = Inr m)) \<and>
    (\<forall>m. wanted to items hosts m \<longrightarrow> m \<in> set kept) \<and>
    n = int (length items) + int (length (missing_hosts to items hosts))
      - int (length (filter (unkept kept) items)) \<and>
    (\<forall>m \<in> set items. unkept kept m \<longrightarrow> deletion_is_zero (mr_meta m) \<longrightarrow>
      (\<exists>tr. k_delete_rule K tr m = None))"
proof -
  from assms obtain obj1 tr1 where e: "ensure_finalizer K L obj tr = (Inr obj1, tr1)"
    by (auto simp: manage_live_def Let_def split: sum.splits prod.splits)
  with assms obtain kept n1 tr2 where
    c: "create_loop K obj1 to items hosts [] (int (length items)) tr1 = (Inr (kept, n1), tr2)"
    by (auto simp: manage_live_def Let_def split: sum.splits prod.splits)
  with assms e have d: "delete_loop K kept items n1 tr2 = (Inr n, tr')" and obj': "obj' = obj1"
    by (auto simp: manage_live_def Let_def split: sum.splits prod.splits)
  from ensure_finalizer_spec [OF e] obtain fs where tr1: "tr1 = tr @ fs"
    and fs: "finalizer \<in> set (source_finalizers obj) \<and> fs = [] \<and> obj' = obj \<or>
     (\<exists>o1. fs = [UpdateSource o1] \<and> finalizer \<in> set (source_finalizers o1) \<and>
        k_update_source K tr o1 = Inr obj')" by (auto simp: obj')
  from create_loop_calls [OF c] have
    tr2: "tr2 = tr1 @ map (\<lambda>h. CreateRule (dependent_rule obj' to h)) (missing_hosts to items hosts)"
    and n1: "n1 = int (length items) + int (length (missing_hosts to items hosts))"
    by (auto simp: obj')
  from delete_loop_calls [OF d] have
    tr': "tr' = tr2 @ map DeleteRule (filter (\<lambda>m. unkept kept m \<and> deletion_is_zero (mr_meta m)) items)"
    and n: "n = n1 - int (length (filter (unkept kept) items))" by auto
  from create_loop_kept [OF c] have
    "\<forall>m \<in> set kept. wanted to items hosts m \<or> (\<exists>tr r. k_create_rule K tr r = Inr m)"
    "\<forall>m. wanted to items hosts m \<longrightarrow> m \<in> set kept" by (auto simp: wanted_def)
  with fs delete_loop_succeeded [OF d] show ?thesis
    unfolding tr' tr2 tr1 n n1 by (intro exI [of _ fs] exI [of _ kept]) auto
qed

end

lemma unkept_wanted:
  assumes "distinct (map uid items)" and fresh: "\<forall>tr r m. k_create_rule K tr r = Inr m \<longrightarrow> uid m \<notin> uid ` set items"
    and "\<forall>m \<in> set kept. wanted to items hosts m \<or> (\<exists>tr r. k_create_rule K tr r = Inr m)"
    and "\<forall>m. wanted to items hosts m \<longrightarrow> m \<in> set kept" and m: "m \<in> set items"
  shows "unkept kept m \<longleftrightarrow> \<not> wanted to items hosts m"
proof -
  have "wanted to items hosts m" if k: "k \<in> set kept" "uid k = uid m" for k
  proof -
    from m have "uid m \<in> uid ` set items" by simp
    with k fresh have "\<not> (\<exists>tr r. k_create_rule K tr r = Inr k)" by metis
    with assms(3) k(1) have w: "wanted to items hosts k" by blast
    then have "k \<in> set items" using find_matching_Some by (auto simp: wanted_def)
    with assms(1) m k(2) have "k = m" by (auto simp: distinct_map dest: inj_onD)
    with w show ?thesis by simp
  qed
  with assms(4) show ?thesis by (auto simp: unkept_def)
qed

section \<open>Whole runs\<close>

definition created_rules :: "trace \<Rightarrow> masquerading_rule list" where
  "created_rules tr = concat (map (\<lambda>c. case c of CreateRule m \<Rightarrow> [m] | _ \<Rightarrow> []) tr)"

definition reads_only :: "trace \<Rightarrow> bool" where
  "reads_only tr \<longleftrightarrow> (\<forall>c \<in> set tr. \<exists>ns name. c = GetSource ns name)"

lemma created_rules_append [simp]: "created_rules (xs @ ys) = created_rules xs @ created_rules ys"
  by (simp add: created_rules_def)

lemma created_rules_Cons [simp]:
  "created_rules (CreateRule m # xs) = m # created_rules xs"
  "created_rules (DeleteRule m # xs) = created_rules xs"
  "created_rules (UpdateSource s # xs) = created_rules xs"
  "created_rules (ListRules ns u # xs) = created_rules xs"
  "created_rules [] = []"
  by (simp_all add: created_rules_def)

lemma created_rules_map [simp]:
  "created_rules (map (\<lambda>h. CreateRule (f h)) hs) = map f hs"
  "created_rules (map DeleteRule ds) = []"
  by (induction hs, simp_all) (induction ds, simp_all)

lemma reads_only_created [simp]: "reads_only tr \<Longrightarrow> created_rules tr = []"
  by (fastforce simp: created_rules_def reads_only_def)

lemma reads_only_not [simp]:
  assumes "reads_only tr"
  shows "CreateRule m \<notin> set tr" "DeleteRule m \<notin> set tr" "UpdateSource s \<notin> set tr"
  using assms by (auto simp: reads_only_def)

text \<open>Deleting everything: the object is being deleted or has no target.\<close>

lemma unkept_Nil [simp]: "unkept [] m"
  by (simp add: unkept_def)

lemma delete_all_calls:
  assumes "delete_loop K [] items (int (length items)) tr = (Inr n, tr')"
  shows "n = 0 \<and> tr' = tr @ map DeleteRule (filter (\<lambda>m. deletion_is_zero (mr_meta m)) items)"
  using delete_loop_calls [OF assms] by auto

lemma manage_unwanted:
  assumes "k_list_rules K tr0 (om_namespace (so_meta obj)) (om_uid (so_meta obj)) = Inr items"
    and "\<not> deletion_is_zero (so_meta obj) \<or> masquerade_to (so_meta obj) = ''''"
  shows "manage_dependents K L obj hosts tr0 =
    (case delete_loop K [] items (int (length items))
        (tr0 @ [ListRules (om_namespace (so_meta obj)) (om_uid (so_meta obj))]) of
       (Inl err, tr3) \<Rightarrow> (Some err, tr3)
     | (Inr n, tr3) \<Rightarrow> if n = 0 then drop_finalizer K L obj tr3 else (None, tr3))"
  using assms
  by (auto simp: manage_dependents_def manage_live_def Let_def split: sum.splits prod.splits)

text \<open>The run for a live object with a target.\<close>

lemma manage_wanted:
  assumes "k_list_rules K tr0 (om_namespace (so_meta obj)) (om_uid (so_meta obj)) = Inr items"
    and "deletion_is_zero (so_meta obj)"
  shows "manage_dependents K L obj hosts tr0 =
    (case manage_live K L obj hosts items
        (tr0 @ [ListRules (om_namespace (so_meta obj)) (om_uid (so_meta obj))]) of
       (Inl err, tr3) \<Rightarrow> (Some err, tr3)
     | (Inr (obj', n), tr3) \<Rightarrow> if n = 0 then drop_finalizer K L obj' tr3 else (None, tr3))"
  using assms by (simp add: manage_dependents_def Let_def)

context go_lib
begin

lemma manage_wanted_calls:
  assumes items: "k_list_rules K tr0 (om_namespace (so_meta obj)) (om_uid (so_meta obj)) = Inr items"
    and live: "deletion_is_zero (so_meta obj)"
    and to: "masquerade_to (so_meta obj) = to" "to \<noteq> ''''"
    and run: "manage_dependents K L obj hosts tr0 = (None, tr)"
  shows "\<exists>fs kept obj' us. tr = tr0 @ ListRules (om_namespace (so_meta obj)) (om_uid (so_meta obj)) # fs
      @ map (\<lambda>h. CreateRule (dependent_rule obj' to h)) (missing_hosts to items hosts)
      @ map DeleteRule (filter (\<lambda>m. unkept kept m \<and> deletion_is_zero (mr_meta m)) items) @ us \<and>
    (fs = [] \<or> (\<exists>s. fs = [UpdateSource s])) \<and> (us = [] \<or> (\<exists>s. us = [UpdateSource s])) \<and>
    (\<forall>m \<in> set kept. wanted to items hosts m \<or> (\<exists>tr r. k_create_rule K tr r = Inr m)) \<and>
    (\<forall>m. wanted to items hosts m \<longrightarrow> m \<in> set kept)"
proof -
  let ?tr1 = "tr0 @ [ListRules (om_namespace (so_meta obj)) (om_uid (so_meta obj))]"
  from run manage_wanted [OF items live] obtain obj' n tr3 where
    m: "manage_live K L obj hosts items ?tr1 = (Inr (obj', n), tr3)"
    and d: "(if n = 0 then drop_finalizer K L obj' tr3 else (None, tr3)) = (None, tr)"
    by (auto split: sum.splits prod.splits)
  have "\<exists>us. tr = tr3 @ us \<and> (us = [] \<or> (\<exists>s. us = [UpdateSource s]))"
    using d drop_finalizer_spec [of K obj' tr3 None tr] by (auto split: if_splits)
  then obtain us where us: "tr = tr3 @ us" "us = [] \<or> (\<exists>s. us = [UpdateSource s])" by blast
  from manage_live_calls [OF m to] obtain fs kept where "tr3 = ?tr1 @ fs
      @ map (\<lambda>h. CreateRule (dependent_rule obj' to h)) (missing_hosts to items hosts)
      @ map DeleteRule (filter (\<lambda>m. unkept kept m \<and> deletion_is_zero (mr_meta m)) items)"
    and "fs = [] \<or> (\<exists>s. fs = [UpdateSource s])"
    and "\<forall>m \<in> set kept. wanted to items hosts m \<or> (\<exists>tr r. k_create_rule K tr r = Inr m)"
    and "\<forall>m. wanted to items hosts m \<longrightarrow> m \<in> set kept" by blast
  with us show ?thesis
    by (intro exI [of _ fs] exI [of _ kept] exI [of _ obj'] exI [of _ us]) simp
qed

end

context go_lib
begin

text \<open>The part for a live object goes on from the finalizer.\<close>

lemma manage_live_prefix:
  assumes "manage_live K L obj hosts items tr = (res, tr')" and "masquerade_to (so_meta obj) \<noteq> ''''"
  shows "\<exists>r1 tr1 ys. ensure_finalizer K L obj tr = (r1, tr1) \<and> tr' = tr1 @ ys \<and>
    (ys \<noteq> [] \<longrightarrow> (\<exists>o1. r1 = Inr o1)) \<and> (\<forall>s. UpdateSource s \<notin> set ys)"
proof -
  obtain r1 tr1 where e: "ensure_finalizer K L obj tr = (r1, tr1)" by fastforce
  show ?thesis
  proof (cases r1)
    case (Inl err)
    with assms e show ?thesis by (auto simp: manage_live_def Let_def)
  next
    case (Inr o1)
    obtain r2 tr2 where c: "create_loop K o1 (masquerade_to (so_meta obj)) items hosts []
        (int (length items)) tr1 = (r2, tr2)" by fastforce
    from create_loop_calls [OF c] obtain hs where
      tr2: "tr2 = tr1 @ map (\<lambda>h. CreateRule (dependent_rule o1 (masquerade_to (so_meta obj)) h)) hs" by blast
    show ?thesis
    proof (cases r2)
      case err: (Inl err)
      with assms e c Inr have "tr' = tr2" by (auto simp: manage_live_def Let_def)
      with e Inr tr2 show ?thesis by auto
    next
      case ok: (Inr kn)
      obtain kept n where kn: "kn = (kept, n)" by (cases kn)
      obtain r3 tr3 where d: "delete_loop K kept items n tr2 = (r3, tr3)" by fastforce
      from delete_loop_calls [OF d] obtain ds where "tr3 = tr2 @ map DeleteRule ds" by blast
      moreover have "tr' = tr3"
        using assms e c d Inr ok kn by (auto simp: manage_live_def Let_def split: sum.splits)
      ultimately show ?thesis using e Inr tr2 by auto
    qed
  qed
qed

lemma drop_finalizer_calls:
  obtains us where "snd (drop_finalizer K L o1 tr) = tr @ us" and "created_rules us = []"
    and "\<forall>m. CreateRule m \<notin> set us"
proof -
  have "\<exists>us. snd (drop_finalizer K L o1 tr) = tr @ us \<and> (us = [] \<or> (\<exists>s. us = [UpdateSource s]))"
    using drop_finalizer_spec [of K o1 tr "fst (drop_finalizer K L o1 tr)"
        "snd (drop_finalizer K L o1 tr)"] by auto
  with that show ?thesis by auto
qed

text \<open>Every run is the part before the release of the finalizer, and then the release or nothing.\<close>

lemma manage_release:
  assumes "k_list_rules K tr0 (om_namespace (so_meta obj)) (om_uid (so_meta obj)) = Inr items"
    and "deletion_is_zero (so_meta obj) \<and> masquerade_to (so_meta obj) \<noteq> ''''"
    and "manage_live K L obj hosts items
      (tr0 @ [ListRules (om_namespace (so_meta obj)) (om_uid (so_meta obj))]) = (res, tr3)"
    and "manage_dependents K L obj hosts tr0 = (err, tr)"
  shows "tr = tr3 \<or> (\<exists>obj'. res = Inr (obj', 0) \<and> drop_finalizer K L obj' tr3 = (err, tr))"
  using assms manage_wanted [OF assms(1), of L hosts] by (auto split: sum.splits if_splits)

lemma manage_release_unwanted:
  assumes "k_list_rules K tr0 (om_namespace (so_meta obj)) (om_uid (so_meta obj)) = Inr items"
    and "\<not> (deletion_is_zero (so_meta obj) \<and> masquerade_to (so_meta obj) \<noteq> '''')"
    and "delete_loop K [] items (int (length items))
      (tr0 @ [ListRules (om_namespace (so_meta obj)) (om_uid (so_meta obj))]) = (res, tr3)"
    and "manage_dependents K L obj hosts tr0 = (err, tr)"
  shows "tr = tr3 \<or> (res = Inr 0 \<and> drop_finalizer K L obj tr3 = (err, tr))"
  using assms manage_unwanted [OF assms(1), of L hosts] by (auto split: sum.splits if_splits)

lemma create_after_finalizer:
  assumes r0: "reads_only tr0"
    and run: "manage_dependents K L obj hosts tr0 = (err, pre @ CreateRule m # post)"
  shows "finalizer \<in> set (source_finalizers obj) \<or>
    (\<exists>s tr s'. UpdateSource s \<in> set pre \<and> finalizer \<in> set (source_finalizers s) \<and>
      k_update_source K tr s = Inr s')"
proof -
  let ?l = "ListRules (om_namespace (so_meta obj)) (om_uid (so_meta obj))"
  let ?c = "CreateRule m"
  obtain items where
    items: "k_list_rules K tr0 (om_namespace (so_meta obj)) (om_uid (so_meta obj)) = Inr items"
  proof (cases "k_list_rules K tr0 (om_namespace (so_meta obj)) (om_uid (so_meta obj))")
    case (Inl e)
    with run have "pre @ ?c # post = tr0 @ [?l]" by (simp add: manage_dependents_def)
    then have "?c \<in> set (tr0 @ [?l])" by (metis in_set_conv_decomp)
    with r0 show ?thesis by simp
  qed (use that in blast)
  show ?thesis
  proof (cases "deletion_is_zero (so_meta obj) \<and> masquerade_to (so_meta obj) \<noteq> ''''")
    case False
    obtain res tr3 where d: "delete_loop K [] items (int (length items)) (tr0 @ [?l]) = (res, tr3)"
      by fastforce
    from delete_loop_calls [OF d] r0 have no: "?c \<notin> set tr3" by auto
    from manage_release_unwanted [OF items False d run] drop_finalizer_calls [of K obj tr3]
    obtain us where "pre @ ?c # post = tr3 @ us" "?c \<notin> set us"
      by (metis append_Nil2 empty_iff list.set(1) snd_conv)
    with no show ?thesis by (metis Un_iff in_set_conv_decomp set_append)
  next
    case True
    obtain res tr3 where m: "manage_live K L obj hosts items (tr0 @ [?l]) = (res, tr3)" by fastforce
    from manage_live_prefix [OF m] True obtain r1 tr1 ys where
      e: "ensure_finalizer K L obj (tr0 @ [?l]) = (r1, tr1)" and tr3: "tr3 = tr1 @ ys"
      and ok: "ys \<noteq> [] \<longrightarrow> (\<exists>o1. r1 = Inr o1)" by blast
    from ensure_finalizer_spec [OF e] obtain fs where tr1: "tr1 = (tr0 @ [?l]) @ fs"
      and fs: "finalizer \<in> set (source_finalizers obj) \<and> fs = [] \<and> r1 = Inr obj \<or>
        (\<exists>o1. fs = [UpdateSource o1] \<and> finalizer \<in> set (source_finalizers o1) \<and>
          (case r1 of Inl e \<Rightarrow> True | Inr obj' \<Rightarrow> k_update_source K (tr0 @ [?l]) o1 = Inr obj'))" by blast
    have no: "?c \<notin> set tr1" using fs r0 by (auto simp: tr1)
    from manage_release [OF items True m run] drop_finalizer_calls
    obtain us where us: "tr3 @ us = pre @ ?c # post" "?c \<notin> set us"
      by (metis append_Nil2 empty_iff list.set(1) snd_conv)
    then have "?c \<in> set tr3" by (metis Un_iff in_set_conv_decomp set_append)
    with no tr3 ok obtain o1 where r1: "r1 = Inr o1" by fastforce
    from us(1) tr3 have "tr1 @ ys @ us = pre @ ?c # post" by simp
    from prefix_of_split [OF this no] obtain B where "pre = tr1 @ B" ..
    with tr1 have pre: "set fs \<subseteq> set pre" by auto
    from fs show ?thesis
    proof (elim disjE exE conjE)
      fix s assume "fs = [UpdateSource s]" "finalizer \<in> set (source_finalizers s)"
        "case r1 of Inl e \<Rightarrow> True | Inr obj' \<Rightarrow> k_update_source K (tr0 @ [?l]) s = Inr obj'"
      with r1 pre show ?thesis by auto
    qed simp
  qed
qed

lemma release_when_clean:
  assumes r0: "reads_only tr0"
    and items: "k_list_rules K tr0 (om_namespace (so_meta obj)) (om_uid (so_meta obj)) = Inr items"
    and run: "manage_dependents K L obj hosts tr0 = (err, tr)"
    and s: "UpdateSource s \<in> set tr" "finalizer \<notin> set (source_finalizers s)"
  shows "created_rules tr = [] \<and>
    (\<forall>m \<in> set items. deletion_is_zero (mr_meta m) \<longrightarrow>
      DeleteRule m \<in> set tr \<and> (\<exists>tr'. k_delete_rule K tr' m = None))"
proof -
  let ?l = "ListRules (om_namespace (so_meta obj)) (om_uid (so_meta obj))"
  show ?thesis
  proof (cases "deletion_is_zero (so_meta obj) \<and> masquerade_to (so_meta obj) \<noteq> ''''")
    case False
    obtain res tr3 where d: "delete_loop K [] items (int (length items)) (tr0 @ [?l]) = (res, tr3)"
      by fastforce
    from delete_loop_calls [OF d] r0 have "UpdateSource s \<notin> set tr3" by auto
    with manage_release_unwanted [OF items False d run] s(1) have n: "res = Inr 0"
      and dr: "drop_finalizer K L obj tr3 = (err, tr)" by auto
    from delete_all_calls [OF d [unfolded n]] have
      tr3: "tr3 = tr0 @ ?l # map DeleteRule (filter (\<lambda>m. deletion_is_zero (mr_meta m)) items)" by auto
    from drop_finalizer_calls [of K obj tr3] dr obtain us where "tr = tr3 @ us" "created_rules us = []"
      by auto
    with tr3 r0 delete_loop_succeeded [OF d [unfolded n]] show ?thesis by auto
  next
    case True
    let ?to = "masquerade_to (so_meta obj)"
    obtain res tr3 where m: "manage_live K L obj hosts items (tr0 @ [?l]) = (res, tr3)" by fastforce
    from manage_live_prefix [OF m] True obtain r1 tr1 ys where
      e: "ensure_finalizer K L obj (tr0 @ [?l]) = (r1, tr1)" and tr3: "tr3 = tr1 @ ys"
      and ys: "\<forall>s. UpdateSource s \<notin> set ys" by blast
    from ensure_finalizer_spec [OF e] r0 ys s(2) have "UpdateSource s \<notin> set tr3"
      by (auto simp: tr3)
    with manage_release [OF items True m run] s(1) obtain obj' where res: "res = Inr (obj', 0)"
      and dr: "drop_finalizer K L obj' tr3 = (err, tr)" by auto
    from manage_live_calls [OF m [unfolded res] refl] True obtain fs kept where
      c: "tr3 = (tr0 @ [?l]) @ fs
        @ map (\<lambda>h. CreateRule (dependent_rule obj' ?to h)) (missing_hosts ?to items hosts)
        @ map DeleteRule (filter (\<lambda>m. unkept kept m \<and> deletion_is_zero (mr_meta m)) items)"
      and fs: "fs = [] \<or> (\<exists>s. fs = [UpdateSource s])"
      and n: "0 = int (length items) + int (length (missing_hosts ?to items hosts))
        - int (length (filter (unkept kept) items))"
      and ok: "\<forall>m \<in> set items. unkept kept m \<longrightarrow> deletion_is_zero (mr_meta m) \<longrightarrow>
        (\<exists>tr. k_delete_rule K tr m = None)" by blast
    have "length (filter (unkept kept) items) \<le> length items" by simp
    with n have l: "length (missing_hosts ?to items hosts) = 0"
      "length (filter (unkept kept) items) = length items" by linarith+
    from l(2) have u: "\<forall>m \<in> set items. unkept kept m"
      by (metis length_filter_less nat_neq_iff)
    from drop_finalizer_calls [of K obj' tr3] dr obtain us where "tr = tr3 @ us" "created_rules us = []"
      by auto
    with c fs l(1) u ok r0 show ?thesis by auto
  qed
qed

lemma cleanup_run:
  assumes r0: "reads_only tr0"
    and un: "\<not> deletion_is_zero (so_meta obj) \<or> masquerade_to (so_meta obj) = ''''"
    and items: "k_list_rules K tr0 (om_namespace (so_meta obj)) (om_uid (so_meta obj)) = Inr items"
    and run: "manage_dependents K L obj hosts tr0 = (None, tr)"
  shows "created_rules tr = [] \<and>
    (\<forall>m. DeleteRule m \<in> set tr \<longleftrightarrow> m \<in> set items \<and> deletion_is_zero (mr_meta m)) \<and>
    (finalizer \<in> set (source_finalizers obj) \<longrightarrow>
      (\<exists>s. UpdateSource s \<in> set tr \<and> finalizer \<notin> set (source_finalizers s)))"
proof -
  let ?l = "ListRules (om_namespace (so_meta obj)) (om_uid (so_meta obj))"
  from run manage_unwanted [OF items un] obtain n tr3 where
    d: "delete_loop K [] items (int (length items)) (tr0 @ [?l]) = (Inr n, tr3)"
    and r: "(if n = 0 then drop_finalizer K L obj tr3 else (None, tr3)) = (None, tr)"
    by (auto split: sum.splits prod.splits)
  from delete_all_calls [OF d] have n: "n = 0"
    and tr3: "tr3 = tr0 @ ?l # map DeleteRule (filter (\<lambda>m. deletion_is_zero (mr_meta m)) items)" by auto
  from r n have "drop_finalizer K L obj tr3 = (None, tr)" by simp
  from drop_finalizer_spec [OF this] show ?thesis
    using r0 by (auto simp: tr3)
qed

end

lemma dependent_rule_spec [simp]: "mr_spec (dependent_rule obj to h) = \<lparr>sp_from = h, sp_to = to\<rparr>"
  by (simp add: dependent_rule_def build_masquerading_rule_def)

text \<open>The rules that are kept and those that are created are the ones that are wanted.\<close>

lemma wanted_and_missing:
  assumes d: "distinct (map uid items)" and h: "distinct hosts"
  shows "distinct (map mr_spec (filter (wanted to items hosts) items @
      map (dependent_rule obj to) (missing_hosts to items hosts))) \<and>
    set (map mr_spec (filter (wanted to items hosts) items @
      map (dependent_rule obj to) (missing_hosts to items hosts))) =
    (\<lambda>h. \<lparr>sp_from = h, sp_to = to\<rparr>) ` set hosts"
proof
  let ?ws = "filter (wanted to items hosts) items" and ?ms = "missing_hosts to items hosts"
  let ?s = "\<lambda>h. \<lparr>sp_from = h, sp_to = to\<rparr>"
  have w: "\<exists>h \<in> set hosts. find (matching_rule h to) items = Some m \<and> mr_spec m = ?s h"
    if "m \<in> set ?ws" for m
    using that find_matching_Some unfolding wanted_def by fastforce
  have "inj_on mr_spec (set ?ws)"
  proof (rule inj_onI)
    fix m m' assume "m \<in> set ?ws" "m' \<in> set ?ws" "mr_spec m = mr_spec m'"
    with w [of m] w [of m'] show "m = m'" by auto
  qed
  moreover have "distinct ?ws" using d by (simp add: distinct_map)
  moreover have "distinct (map mr_spec (map (dependent_rule obj to) ?ms))"
    using h by (simp add: missing_hosts_def comp_def distinct_map inj_on_def)
  moreover have "set (map mr_spec ?ws) \<inter> set (map mr_spec (map (dependent_rule obj to) ?ms)) = {}"
  proof (rule ccontr)
    assume "\<not> ?thesis"
    then obtain m h where m: "m \<in> set ?ws" and h: "h \<in> set ?ms" and "mr_spec m = ?s h" by auto
    with w [OF m] obtain m' where "find (matching_rule h to) items = Some m'" by auto
    with h show False by (simp add: missing_hosts_def)
  qed
  ultimately show "distinct (map mr_spec (?ws @ map (dependent_rule obj to) ?ms))"
    by (simp add: distinct_map)
  show "set (map mr_spec (?ws @ map (dependent_rule obj to) ?ms)) = ?s ` set hosts"
  proof
    show "set (map mr_spec (?ws @ map (dependent_rule obj to) ?ms)) \<subseteq> ?s ` set hosts"
      using w by (auto simp: missing_hosts_def)
    show "?s ` set hosts \<subseteq> set (map mr_spec (?ws @ map (dependent_rule obj to) ?ms))"
    proof
      fix s assume "s \<in> ?s ` set hosts"
      then obtain h where h: "h \<in> set hosts" "s = ?s h" by blast
      show "s \<in> set (map mr_spec (?ws @ map (dependent_rule obj to) ?ms))"
      proof (cases "find (matching_rule h to) items")
        case None
        with h have "h \<in> set ?ms" by (simp add: missing_hosts_def)
        with h show ?thesis by force
      next
        case (Some m)
        with h(1) find_matching_Some [OF Some] have "m \<in> set ?ws" "mr_spec m = s"
          by (auto simp: wanted_def h(2))
        then show ?thesis by force
      qed
    qed
  qed
qed

section \<open>A concrete environment\<close>

text \<open>Every call succeeds; a created rule gets a uid that no listed rule has.\<close>

definition demo_api :: "masquerading_rule list \<Rightarrow> kube" where
  "demo_api items =
     \<lparr>k_get_rule = (\<lambda>tr ns name. Inl (NotFound '''')), k_get_config_map = (\<lambda>tr ns name. Inl (NotFound '''')),
      k_get_owner = (\<lambda>tr gvk ns name. None), k_list_rules = (\<lambda>tr ns uid. Inr items),
      k_create_rule = (\<lambda>tr m. Inr (m\<lparr>mr_meta := (mr_meta m)\<lparr>om_uid := ''new''\<rparr>\<rparr>)),
      k_update_rule = (\<lambda>tr m. Inr m), k_update_status = (\<lambda>tr m. Inr m),
      k_delete_rule = (\<lambda>tr m. None), k_update_source = (\<lambda>tr obj. Inr obj),
      k_create_config_map = (\<lambda>tr c. Inr c), k_update_config_map = (\<lambda>tr c. Inr c),
      k_check_record = (\<lambda>tr host expected. (True, None)), k_scheme_new = (\<lambda>gvk. None),
      k_parse_time = (\<lambda>s. Inr 0), k_format_time = (\<lambda>t. ''now''), k_now = (\<lambda>tr. 100),
      k_wrap = (\<lambda>err msg. msg @ err), k_aggregate = (\<lambda>e f. f)\<rparr>"

definition demo_source :: "string list \<Rightarrow> time option \<Rightarrow> source_object" where
  "demo_source fins del =
     \<lparr>so_gvk = \<lparr>gvk_group = '''', gvk_version = ''v1'', gvk_kind = ''Service''\<rparr>,
      so_meta = \<lparr>om_name = ''svc'', om_namespace = ''ns'', om_generate_name = '''', om_uid = ''9'', om_resource_version = ''1'',
        om_generation = 1, om_deletion_timestamp = del, om_finalizers = fins, om_labels = fmempty,
        om_annotations = Some (fmupd annotation_masquerade_to ''to.org'' fmempty)\<rparr>\<rparr>"

text \<open>A rule of the object, for the host \<open>old.org\<close>.\<close>

definition demo_item :: masquerading_rule where
  "demo_item = (dependent_rule (demo_source [] None) ''to.org'' ''old.org'')
     \<lparr>mr_meta := (mr_meta (dependent_rule (demo_source [] None) ''to.org'' ''old.org''))\<lparr>om_uid := ''1''\<rparr>\<rparr>"

lemma demo_api_simps [simp]:
  "k_list_rules (demo_api items) tr ns u = Inr items"
  "k_create_rule (demo_api items) tr m = Inr (m\<lparr>mr_meta := (mr_meta m)\<lparr>om_uid := ''new''\<rparr>\<rparr>)"
  "k_delete_rule (demo_api items) tr m = None"
  "k_update_source (demo_api items) tr obj = Inr obj"
  by (simp_all add: demo_api_def)

lemma demo_source_simps [simp]:
  "om_namespace (so_meta (demo_source fins del)) = ''ns''" "om_uid (so_meta (demo_source fins del)) = ''9''"
  "om_finalizers (so_meta (demo_source fins del)) = fins"
  "deletion_is_zero (so_meta (demo_source fins del)) = (del = None)"
  "masquerade_to (so_meta (demo_source fins del)) = ''to.org''"
  by (simp_all add: demo_source_def deletion_is_zero_def masquerade_to_def)

lemma demo_item_simps [simp]:
  "uid demo_item = ''1''" "deletion_is_zero (mr_meta demo_item)"
  "om_uid (mr_meta demo_item) = ''1''" "mr_spec demo_item = \<lparr>sp_from = ''old.org'', sp_to = ''to.org''\<rparr>"
  by (simp_all add: demo_item_def uid_def deletion_is_zero_def dependent_rule_def build_masquerading_rule_def)

lemma demo_item_matches [simp]: "matching_rule h t demo_item \<longleftrightarrow> h = ''old.org'' \<and> t = ''to.org''"
  by (auto simp: matching_rule_def)

section \<open>Properties\<close>

text \<open>
  After a run without error for a live object with a target, the rules that are left (listed
  and not deleted, or created) are exactly one rule per host, to the target; so a second run
  has nothing to create or delete. The server gives the listed rules distinct uids and a new rule a
  uid of its own, and no listed rule is being deleted already.
\<close>

lemma dependents_desired_state:
  assumes "go_lib L" and "deletion_is_zero (so_meta obj)" and "masquerade_to (so_meta obj) = to"
    and "to \<noteq> ''''" and "reads_only tr0" and "distinct hosts"
    and "k_list_rules K tr0 (om_namespace (so_meta obj)) (om_uid (so_meta obj)) = Inr items"
    and "distinct (map uid items)" and "\<forall>m \<in> set items. deletion_is_zero (mr_meta m)"
    and "\<forall>tr r m. k_create_rule K tr r = Inr m \<longrightarrow> uid m \<notin> uid ` set items"
    and "manage_dependents K L obj hosts tr0 = (None, tr)"
  shows "let left = filter (\<lambda>m. DeleteRule m \<notin> set tr) items @ created_rules tr in
    distinct (map mr_spec left) \<and>
    set (map mr_spec left) = (\<lambda>h. \<lparr>sp_from = h, sp_to = to\<rparr>) ` set hosts"
proof -
  from go_lib.manage_wanted_calls [OF assms(1,7,2,3,4,11)] obtain fs kept obj' us where
    tr: "tr = tr0 @ ListRules (om_namespace (so_meta obj)) (om_uid (so_meta obj)) # fs
      @ map (\<lambda>h. CreateRule (dependent_rule obj' to h)) (missing_hosts to items hosts)
      @ map DeleteRule (filter (\<lambda>m. unkept kept m \<and> deletion_is_zero (mr_meta m)) items) @ us"
    and fs: "fs = [] \<or> (\<exists>s. fs = [UpdateSource s])" "us = [] \<or> (\<exists>s. us = [UpdateSource s])"
    and kept: "\<forall>m \<in> set kept. wanted to items hosts m \<or> (\<exists>tr r. k_create_rule K tr r = Inr m)"
      "\<forall>m. wanted to items hosts m \<longrightarrow> m \<in> set kept" by blast
  have "created_rules fs = []" "created_rules us = []" "DeleteRule m \<notin> set fs" "DeleteRule m \<notin> set us"
    for m using fs by auto
  with tr assms(5) have c: "created_rules tr = map (dependent_rule obj' to) (missing_hosts to items hosts)"
    and "DeleteRule m \<in> set tr \<longleftrightarrow> m \<in> set items \<and> unkept kept m \<and> deletion_is_zero (mr_meta m)" for m
    by auto
  with unkept_wanted [OF assms(8,10) kept] assms(9)
  have f: "filter (\<lambda>m. DeleteRule m \<notin> set tr) items = filter (wanted to items hosts) items"
    by (auto intro!: filter_cong)
  show ?thesis
    unfolding Let_def f c by (rule wanted_and_missing [OF assms(8,6)])
qed

text \<open>
  C28: no dependent rule is created before the object has the finalizer: it had it when it was read, or an update
  that adds it has succeeded earlier in the run. The finalizer is taken off only if nothing is left to clean
  up: every listed rule has been deleted, or was being deleted already, and no rule was created in the run. Both hold
  also for a run that fails.
\<close>

theorem dependents_finalizer_order:
  assumes "go_lib L" and "reads_only tr0" and "manage_dependents K L obj hosts tr0 = (err, tr)"
  shows "(\<forall>pre m post. tr = pre @ CreateRule m # post \<longrightarrow> finalizer \<in> set (source_finalizers obj) \<or>
      (\<exists>s tr s'. UpdateSource s \<in> set pre \<and> finalizer \<in> set (source_finalizers s) \<and>
        k_update_source K tr s = Inr s')) \<and>
    (\<forall>items s. k_list_rules K tr0 (om_namespace (so_meta obj)) (om_uid (so_meta obj)) = Inr items \<longrightarrow>
      UpdateSource s \<in> set tr \<longrightarrow> finalizer \<notin> set (source_finalizers s) \<longrightarrow>
      created_rules tr = [] \<and>
      (\<forall>m \<in> set items. deletion_is_zero (mr_meta m) \<longrightarrow>
        DeleteRule m \<in> set tr \<and> (\<exists>tr'. k_delete_rule K tr' m = None)))"
  using go_lib.create_after_finalizer [OF assms(1,2)] go_lib.release_when_clean [OF assms(1,2) _ assms(3)] assms(3)
  by blast

text \<open>
  The hosts of a service are the comma-separated parts of its three annotations, those of an
  ingress the nonempty hosts of its rules, and those of a gateway the hosts of its servers; each host
  is in the list once.
\<close>

lemma source_hosts_correct:
  assumes "go_lib L"
  shows "distinct (get_hosts_from_service L service) \<and> distinct (get_hosts_from_ingress L rules) \<and>
    distinct (get_hosts_from_gateway L servers) \<and>
    (h \<in> set (get_hosts_from_service L service) \<longleftrightarrow>
      (\<exists>key \<in> {annotation_masquerade_from, annotation_external_dns, annotation_gardener_dns}. \<exists>v.
        opt_lookup (om_annotations service) key = Some v \<and> h \<in> set (split_on CHR '','' v))) \<and>
    (h \<in> set (get_hosts_from_ingress L rules) \<longleftrightarrow> h \<in> set rules \<and> h \<noteq> '''') \<and>
    (h \<in> set (get_hosts_from_gateway L servers) \<longleftrightarrow> (\<exists>server \<in> set servers. h \<in> set server))"
  using assms
  by (auto simp: get_hosts_from_service_def get_hosts_from_ingress_def get_hosts_from_gateway_def
      go_lib.keys_distinct go_lib.keys_set annotated_hosts_def fset_of_list.rep_eq split: option.splits)

theorem dependents_finalizer_order_witness:
  "\<exists>tr pre m post. snd (manage_dependents (demo_api []) std_lib (demo_source [] None) [''new.org''] []) =
      pre @ CreateRule m # post \<and> (\<exists>s. UpdateSource s \<in> set pre) \<and>
    snd (manage_dependents (demo_api [demo_item]) std_lib (demo_source [finalizer] (Some 7)) [] []) = tr \<and>
    DeleteRule demo_item \<in> set tr"
proof -
  have "\<exists>err pre m post. manage_dependents (demo_api []) std_lib (demo_source [] None) [''new.org''] [] =
      (err, pre @ CreateRule m # post)"
    by (simp add: manage_dependents_def manage_live_def ensure_finalizer_def Let_def
        build_masquerading_rule_def)
      (metis append.simps append_Cons append_Nil)
  then obtain err pre m post where create: "manage_dependents (demo_api []) std_lib (demo_source [] None)
      [''new.org''] [] = (err, pre @ CreateRule m # post)" by blast
  have "\<exists>tr s. manage_dependents (demo_api [demo_item]) std_lib (demo_source [finalizer] (Some 7)) [] [] =
      (None, tr) \<and> UpdateSource s \<in> set tr \<and> finalizer \<notin> set (source_finalizers s)"
    by (simp add: manage_dependents_def drop_finalizer_def source_finalizers_def Let_def)
  then obtain tr s where run: "manage_dependents (demo_api [demo_item]) std_lib
      (demo_source [finalizer] (Some 7)) [] [] = (None, tr)"
    and s: "UpdateSource s \<in> set tr" "finalizer \<notin> set (source_finalizers s)" by blast
  have r: "reads_only []" by (simp add: reads_only_def)
  have "finalizer \<in> set (source_finalizers (demo_source [] None)) \<or>
      (\<exists>s tr s'. UpdateSource s \<in> set pre \<and> finalizer \<in> set (source_finalizers s) \<and>
        k_update_source (demo_api []) tr s = Inr s')"
    using dependents_finalizer_order [OF std.go_lib_axioms r create] by blast
  then have "\<exists>s. UpdateSource s \<in> set pre" by (auto simp: source_finalizers_def)
  moreover have "DeleteRule demo_item \<in> set tr"
    using dependents_finalizer_order [OF std.go_lib_axioms r run] s by simp
  ultimately show ?thesis using create run by auto
qed

end
