(* ===== verification/Cluster_Sources.thy ===== *)
theory Cluster_Sources
  imports Cluster_Steps Dependents_Properties
begin

text \<open>
  The controllers of services, ingresses and gateways in the system: each of their calls does to the store
  nothing that a user may not do.
\<close>

declare split_paired_All [simp del] split_paired_Ex [simp del]

section \<open>The calls of a run\<close>

fun source_call :: "api_call \<Rightarrow> bool" where
  "source_call (GetSource ns n) = True"
| "source_call (UpdateSource obj) = True"
| "source_call (ListRules ns u) = True"
| "source_call (CreateRule m) = alive m"
| "source_call (DeleteRule m) = True"
| "source_call c = False"

abbreviation source_calls :: "trace \<Rightarrow> bool" where
  "source_calls tr \<equiv> \<forall>c \<in> set tr. source_call c"

lemma create_loop_source_calls:
  "source_calls tr \<Longrightarrow> source_calls (snd (create_loop K obj to items hosts kept n tr))"
  using create_loop_calls [of K obj to items hosts kept n tr] 
  by (cases "create_loop K obj to items hosts kept n tr")
    (fastforce simp: dependent_rule_def build_masquerading_rule_def deletion_is_zero_def)

lemma delete_loop_source_calls:
  "source_calls tr \<Longrightarrow> source_calls (snd (delete_loop K kept items n tr))"
  using delete_loop_calls [of K kept items n tr] by (cases "delete_loop K kept items n tr") fastforce

lemma finalizer_source_calls:
  "source_calls tr \<Longrightarrow> source_calls (snd (ensure_finalizer K L obj tr))"
  "source_calls tr \<Longrightarrow> source_calls (snd (drop_finalizer K L obj tr))"
  by (auto simp: ensure_finalizer_def drop_finalizer_def Let_def split: prod.splits sum.splits if_splits)

lemma delete_all_source_calls:
  assumes "source_calls tr"
  shows "source_calls (snd (case delete_loop K kept items n tr of (Inl err, tr3) \<Rightarrow> (Inl err, tr3) | (Inr n', tr3) \<Rightarrow> (Inr (f n'), tr3)))"
proof -
  obtain r tr3 where d: "delete_loop K kept items n tr = (r, tr3)" by fastforce
  with delete_loop_source_calls [OF assms, of K kept items n] show ?thesis by (cases r) simp_all
qed

lemma manage_live_source_calls:
  assumes tr: "source_calls tr"
  shows "source_calls (snd (manage_live K L obj hosts items tr))"
proof (cases "masquerade_to (so_meta obj) = ''''")
  case True
  with delete_all_source_calls [OF tr, of "\<lambda>n. (obj, n)" K "[]" items "int (length items)"]
  show ?thesis by (simp add: manage_live_def)
next
  case False
  obtain r1 tr1 where e: "ensure_finalizer K L obj tr = (r1, tr1)" by fastforce
  with finalizer_source_calls(1) [OF tr, of K L obj] have 1: "source_calls tr1" by simp
  show ?thesis
  proof (cases r1)
    case (Inl err)
    with False e 1 show ?thesis by (simp add: manage_live_def)
  next
    case (Inr obj1)
    obtain r2 tr2 where c: "create_loop K obj1 (masquerade_to (so_meta obj)) items hosts [] (int (length items)) tr1 =
        (r2, tr2)" by fastforce
    with create_loop_source_calls [OF 1, of K obj1 "masquerade_to (so_meta obj)" items hosts "[]" "int (length items)"]
    have 2: "source_calls tr2" by simp
    show ?thesis
    proof (cases r2)
      case (Inl err)
      with False e c 2 Inr show ?thesis by (simp add: manage_live_def)
    next
      case (Inr kn)
      with False e c \<open>r1 = Inr obj1\<close> delete_all_source_calls [OF 2, of "\<lambda>n. (obj1, n)" K "fst kn" items "snd kn"]
      show ?thesis by (cases kn) (simp add: manage_live_def)
    qed
  qed
qed

lemma manage_source_calls:
  assumes "source_calls tr"
  shows "source_calls (snd (manage_dependents K L obj hosts tr))"
proof -
  let ?tr = "tr @ [ListRules (om_namespace (so_meta obj)) (om_uid (so_meta obj))]"
  from assms have 1: "source_calls ?tr" by simp
  show ?thesis
  proof (cases "k_list_rules K tr (om_namespace (so_meta obj)) (om_uid (so_meta obj))")
    case (Inl e)
    with 1 show ?thesis by (simp add: manage_dependents_def Let_def)
  next
    case (Inr items)
    let ?run = "if deletion_is_zero (so_meta obj) then manage_live K L obj hosts items ?tr
      else (case delete_loop K [] items (int (length items)) ?tr of
          (Inl err, tr3) \<Rightarrow> (Inl err, tr3) | (Inr n, tr3) \<Rightarrow> (Inr (obj, n), tr3))"
    obtain r tr3 where r: "?run = (r, tr3)" by fastforce
    have 3: "source_calls tr3"
      using manage_live_source_calls [OF 1, of K L obj hosts items] r
        delete_all_source_calls [OF 1, of "\<lambda>n. (obj, n)" K "[]" items "int (length items)"]
      by (cases "deletion_is_zero (so_meta obj)") simp_all
    have "snd (manage_dependents K L obj hosts tr) =
        snd (case ?run of (Inl err, tr3) \<Rightarrow> (Some err, tr3)
          | (Inr (obj', n), tr3) \<Rightarrow> if n = 0 then drop_finalizer K L obj' tr3 else (None, tr3))"
      by (simp add: manage_dependents_def Inr)
    with r 3 finalizer_source_calls(2) [OF 3, of K L] show ?thesis by (cases r) (auto split: prod.splits)
  qed
qed

lemma reconcile_source_calls: "source_calls (snd (reconcile_source K L job))"
proof (cases job)
  case (Service_Job ns n got)
  show ?thesis
    using manage_source_calls [of "[GetSource ns n]" K L] Service_Job
    by (cases got) (simp_all add: reconcile_service_def Let_def)
next
  case (Ingress_Job ns n got)
  show ?thesis
    using manage_source_calls [of "[GetSource ns n]" K L] Ingress_Job
    by (cases got) (auto simp: reconcile_ingress_def Let_def)
next
  case (Gateway_Job ns n got)
  show ?thesis
    using manage_source_calls [of "[GetSource ns n]" K L] Gateway_Job
    by (cases got) (auto simp: reconcile_gateway_def Let_def)
qed

section \<open>What they do to the store\<close>

inductive_cases served_source:
  "served K tr (GetSource ns n) cl cl'" "served K tr (UpdateSource obj) cl cl'"
  "served K tr (ListRules ns u) cl cl'" "served K tr (CreateRule m) cl cl'" "served K tr (DeleteRule m) cl cl'"

lemma source_user_step:
  assumes "cluster_ok L R cl" and "source_call c" and "served K tr c cl cl'"
  shows "cl' = cl \<or> (\<exists>key. user_step L R key cl cl')"
  using assms(3)
proof cases
  case (create_rule ob m n u v g key)
  then have "version ob \<notin> cl_versions cl" "fresh_uid cl (om_uid (mr_meta ob))" by (simp_all add: created_as_def)
  with create_rule user_step.create [of cl key ob L R] show ?thesis by blast
next
  case (delete_rule key m ob v fs ob' t)
  with user_step.delete [OF delete_rule(4-8), of L R] show ?thesis by blast
qed (use assms(2) in auto)

end
