(* ===== verification/Cluster_Properties.thy ===== *)
theory Cluster_Properties
  imports Cluster_Runs Cluster_Sources
begin

text \<open>
  The whole system refines a small register: a set of owners that are held by the finalizer, those of
  them that are being deleted, and the installed rules. In every reachable state each installed rule has a held
  owner, and no two of them match the same host.
\<close>

section \<open>The invariant of the system\<close>

definition sys_ok :: "lib \<Rightarrow> reconciler \<Rightarrow> system \<Rightarrow> bool" where
  "sys_ok L R s \<longleftrightarrow> cluster_ok L R (sy_cluster s) \<and>
     (\<forall>key K tr. sy_runs s key = Some (K, tr) \<longrightarrow> update_keeps K \<and>
        (\<exists>rest. run_trace L R key K = tr @ rest \<and> run_at L R (sy_cluster s) key K tr rest))"

lemma sys_init_ok:
  assumes "sys_init L R s"
  shows "sys_ok L R s"
proof -
  have "installed L R (sy_cluster s) = Map.empty"
    using assms installed_None installed_config unfolding sys_init_def
    by (cases "cl_config (sy_cluster s)") (blast, metis)
  with assms show ?thesis unfolding sys_init_def sys_ok_def cluster_ok_def by auto
qed

text \<open>Changes of the cluster leave the other runs where they are.\<close>

lemma cluster_change_ok:
  "cluster_ok L R cl \<Longrightarrow> cluster_change L R key cl cl' \<Longrightarrow> cluster_ok L R cl'"
  using effect_cluster_ok user_cluster_ok unfolding cluster_change_def by blast

lemma cluster_change_others:
  "cluster_change L R key cl cl' \<Longrightarrow> key' \<noteq> key \<Longrightarrow> others L R key' cl cl'"
  unfolding cluster_change_def others_def by metis

lemma put_rule_uids:
  assumes "unique_uids cl" and "fresh_uid cl (om_uid (mr_meta ob')) \<or>
    (\<exists>ob. cl_rules cl key = Some ob \<and> om_uid (mr_meta ob') = om_uid (mr_meta ob)) \<or>
    \<not> alive ob' \<and> om_finalizers (mr_meta ob') = []"
  shows "unique_uids (put_rule key ob' cl)"
  unfolding unique_uids_def
proof (intro allI impI)
  fix key1 ob1 key2 ob2
  assume 1: "cl_rules (put_rule key ob' cl) key1 = Some ob1" and 2: "cl_rules (put_rule key ob' cl) key2 = Some ob2"
    and same: "om_uid (mr_meta ob1) = om_uid (mr_meta ob2)"
  have other: "om_uid (mr_meta ob) \<noteq> om_uid (mr_meta ob')"
    if "cl_rules cl k = Some ob" "k \<noteq> key" "alive ob' \<or> om_finalizers (mr_meta ob') \<noteq> []" for k ob
    using assms that unfolding unique_uids_def fresh_uid_def by metis
  show "key1 = key2"
  proof (cases "key1 = key \<or> key2 = key")
    case True
    with 1 2 same other [of key1 ob1] other [of key2 ob2] show ?thesis by (auto split: if_splits)
  next
    case False
    with 1 2 same assms(1) show ?thesis unfolding unique_uids_def by auto
  qed
qed

lemma cluster_change_uids:
  assumes "unique_uids cl" and "cluster_change L R key cl cl'"
  shows "unique_uids cl'"
proof -
  from assms(2) consider "effect L R key cl cl'" | key' where "user_step L R key' cl cl'"
    by (auto simp: cluster_change_def)
  then show ?thesis
  proof cases
    case 1
    then show ?thesis
    proof cases
      case (set_config ob x cm rs)
      with assms(1) show ?thesis by (simp add: unique_uids_def)
    qed (use assms(1) in \<open>auto intro!: put_rule_uids\<close>)
  next
    case 2
    then show ?thesis
    proof cases
      case (config cm cm')
      with assms(1) show ?thesis by (simp add: unique_uids_def)
    next
      case unset
      with assms(1) show ?thesis by (simp add: unique_uids_def)
    qed (use assms(1) in \<open>auto intro!: put_rule_uids\<close>)
  qed
qed

lemma sys_ok_cluster: "sys_ok L R s \<Longrightarrow> cluster_ok L R (sy_cluster s)"
  by (simp add: sys_ok_def)

lemma sys_ok_run:
  "sys_ok L R s \<Longrightarrow> sy_runs s key = Some (K, tr) \<Longrightarrow> update_keeps K \<and>
    (\<exists>rest. run_trace L R key K = tr @ rest \<and> run_at L R (sy_cluster s) key K tr rest)"
  unfolding sys_ok_def by blast

text \<open>What users do keeps the invariant.\<close>

lemma user_sys_ok:
  assumes ok: "sys_ok L R s" and step: "user_step L R key (sy_cluster s) cl"
  shows "sys_ok L R (s\<lparr>sy_cluster := cl\<rparr>)"
proof -
  from ok have cok: "cluster_ok L R (sy_cluster s)" by (simp add: sys_ok_def)
  from step have o: "others L R key' (sy_cluster s) cl" for key' unfolding others_def by blast
  from step have ch: "cluster_change L R key (sy_cluster s) cl" unfolding cluster_change_def by blast
  from ok others_run_at [OF o cok] cluster_change_ok [OF cok ch] show ?thesis
    unfolding sys_ok_def by simp blast
qed

context go_lib
begin

lemma sys_step_change:
  assumes ok: "sys_ok L R s" and step: "sys_step L R s s'"
  shows "sys_ok L R s' \<and> (\<exists>key. cluster_change L R key (sy_cluster s) (sy_cluster s'))"
  using step
proof cases
  case (start_run key K)
  with ok show ?thesis
    by (auto simp: sys_ok_def cluster_change_def intro: effect.nothing run_at.starting)
next
  case (call key K tr c rest cl)
  from sys_ok_run [OF ok call(2)] call(3) have u: "update_keeps K"
    and "run_at L R (sy_cluster s) key K tr (c # rest)" by auto
  note at = this(2) and cok = sys_ok_cluster [OF ok]
  from run_call [OF cok u at refl call(4)] have ch: "cluster_change L R key (sy_cluster s) cl"
    and at: "run_at L R cl key K (tr @ [c]) rest" by (simp_all add: leads_on_def)
  have "\<exists>rest'. run_trace L R key' K' = tr' @ rest' \<and> run_at L R cl key' K' tr' rest'"
    if "sy_runs s key' = Some (K', tr')" "key' \<noteq> key" for key' K' tr'
    using ok that others_run_at [OF cluster_change_others [OF ch that(2)] cok] unfolding sys_ok_def by blast
  with call(1,3) ok u at cluster_change_ok [OF cok ch] ch show ?thesis by (auto simp: sys_ok_def)
next
  case (end_run key)
  with ok show ?thesis by (auto simp: sys_ok_def cluster_change_def intro: effect.nothing)
next
  case (start_source i job K)
  with ok show ?thesis by (auto simp: sys_ok_def cluster_change_def intro: effect.nothing)
next
  case (end_source i)
  with ok show ?thesis by (auto simp: sys_ok_def cluster_change_def intro: effect.nothing)
next
  case (source_call i job K tr c rest cl)
  have cok: "cluster_ok L R (sy_cluster s)" using ok by (simp add: sys_ok_def)
  from reconcile_source_calls [of K L job] source_call(3) have "source_call c" by simp
  with source_user_step [OF cok _ source_call(4)] consider "cl = sy_cluster s"
    | key where "user_step L R key (sy_cluster s) cl" by blast
  then show ?thesis
  proof cases
    case 1
    with ok source_call(1) show ?thesis by (auto simp: sys_ok_def cluster_change_def intro: effect.nothing)
  next
    case 2
    with user_sys_ok [OF ok 2] source_call(1) show ?thesis by (auto simp: sys_ok_def cluster_change_def)
  qed
next
  case (user key cl)
  with user_sys_ok [OF ok user(2)] show ?thesis by (auto simp: cluster_change_def)
qed

lemma reachable_ok: "reachable L R s \<Longrightarrow> sys_ok L R s"
  by (induction rule: reachable.induct) (use sys_init_ok sys_step_change in blast)+

lemma reachable_uids: "reachable L R s \<Longrightarrow> unique_uids (sy_cluster s)"
proof (induction rule: reachable.induct)
  case (step s s')
  from sys_step_change [OF reachable_ok [OF step.hyps(1)] step.hyps(2)] obtain key where
    "cluster_change L R key (sy_cluster s) (sy_cluster s')" by blast
  with cluster_change_uids step.IH show ?case by blast
qed (simp add: sys_init_def)

lemma installed_consistent:
  assumes "cluster_ok L R cl" and "installed L R cl k = Some r"
  shows "rr_owner r = k \<and> (\<forall>k' r'. installed L R cl k' = Some r' \<longrightarrow> k' \<noteq> k \<longrightarrow> \<not> clash r' r)"
proof -
  obtain cm where cm: "cl_config cl = Some cm" using assms(2) installed_None by (cases "cl_config cl") auto
  from cluster_ok_config [OF assms(1) cm] obtain rs where
    p: "parse_rewrite_rule_set L (opt_index (cm_data cm) (rc_cm_key R)) = Inr rs"
    and i: "installed L R cl = get_rule rs" by blast
  from parse_wf [OF p] have "consistent rs" by (simp add: rule_set_wf_def)
  with assms(2) show ?thesis unfolding i consistent_def by blast
qed

end

section \<open>The register\<close>

record register =
  rg_held :: "string set"
  rg_dying :: "string set"
  rg_rules :: "string \<Rightarrow> rewrite_rule option"

inductive register_step :: "register \<Rightarrow> register \<Rightarrow> bool" for g where
  stutter: "register_step g g"
| acquire: "register_step g (g\<lparr>rg_held := insert k (rg_held g)\<rparr>)"
| doom: "k \<in> rg_held g \<Longrightarrow> register_step g (g\<lparr>rg_dying := insert k (rg_dying g)\<rparr>)"
| install: "k \<in> rg_held g \<Longrightarrow> rr_owner r = k \<Longrightarrow>
    \<forall>l t. rg_rules g l = Some t \<longrightarrow> l \<noteq> k \<longrightarrow> \<not> clash t r \<Longrightarrow>
    register_step g (g\<lparr>rg_rules := (rg_rules g)(k \<mapsto> r)\<rparr>)"
| uninstall: "k \<in> rg_dying g \<Longrightarrow> register_step g (g\<lparr>rg_rules := (rg_rules g)(k := None)\<rparr>)"
| release: "k \<in> rg_dying g \<Longrightarrow> rg_rules g k = None \<Longrightarrow>
    register_step g (g\<lparr>rg_held := rg_held g - {k}, rg_dying := rg_dying g - {k}\<rparr>)"
| unset: "register_step g (g\<lparr>rg_rules := Map.empty\<rparr>)"

definition owner_at :: "(masquerading_rule \<Rightarrow> bool) \<Rightarrow> cluster \<Rightarrow> string \<Rightarrow> rule_key \<Rightarrow> bool" where
  "owner_at P cl k key \<longleftrightarrow> (\<exists>ob. cl_rules cl key = Some ob \<and> held ob \<and> P ob \<and> owner_id ob = k)"

definition owners :: "(masquerading_rule \<Rightarrow> bool) \<Rightarrow> cluster \<Rightarrow> string set" where
  "owners P cl = {k. \<exists>key. owner_at P cl k key}"

definition register_of :: "lib \<Rightarrow> reconciler \<Rightarrow> cluster \<Rightarrow> register" where
  "register_of L R cl = \<lparr>rg_held = owners (\<lambda>ob. True) cl, rg_dying = owners (\<lambda>ob. \<not> alive ob) cl,
     rg_rules = installed L R cl\<rparr>"

text \<open>Owners when one rule is put into the store, in place of an old one with the same identifier.\<close>

lemma owners_put_rule:
  assumes ok: "cluster_ok L R cl" and old: "cl_rules cl key = Some ob"
    and new: "alive ob' \<or> om_finalizers (mr_meta ob') \<noteq> [] \<longrightarrow> owner_id ob' = owner_id ob"
  shows "owners P (put_rule key ob' cl) =
    (if held ob' \<and> P ob' then insert (owner_id ob) (owners P cl) else owners P cl - {owner_id ob})"
proof -
  have other: "owner_id ob1 \<noteq> owner_id ob" if "cl_rules cl key1 = Some ob1" "key1 \<noteq> key" for key1 ob1
    using owner_id_inj cluster_ok_rule [OF ok that(1)] cluster_ok_rule [OF ok old] that(2) by blast
  show ?thesis
  proof (rule set_eqI)
    fix k
    have split: "k \<in> owners P cl1 \<longleftrightarrow>
      owner_at P cl1 k key \<or> (\<exists>key1. key1 \<noteq> key \<and> owner_at P cl1 k key1)" for cl1
      unfolding owners_def mem_Collect_eq by metis
    have here: "owner_at P (put_rule key ob' cl) k key \<longleftrightarrow> held ob' \<and> P ob' \<and> k = owner_id ob"
      using new by (auto simp: owner_at_def)
    have there: "owner_at P (put_rule key ob' cl) k key1 \<longleftrightarrow> owner_at P cl k key1" if "key1 \<noteq> key" for key1
      using that by (simp add: owner_at_def)
    have "owner_at P cl k key \<Longrightarrow> k = owner_id ob"
      using old by (auto simp: owner_at_def)
    moreover have "key1 \<noteq> key \<Longrightarrow> owner_at P cl k key1 \<Longrightarrow> k \<noteq> owner_id ob" for key1
      using other unfolding owner_at_def by blast
    ultimately show "k \<in> owners P (put_rule key ob' cl) \<longleftrightarrow>
        k \<in> (if held ob' \<and> P ob' then insert (owner_id ob) (owners P cl) else owners P cl - {owner_id ob})"
      using split [of cl] split [of "put_rule key ob' cl"] here there by (cases "held ob' \<and> P ob'") auto
  qed
qed


lemma owners_put_new:
  assumes new: "cl_rules cl key = None" and alive: "alive ob'"
  shows "owners P (put_rule key ob' cl) =
    (if held ob' \<and> P ob' then insert (owner_id ob') (owners P cl) else owners P cl)"
proof (rule set_eqI)
  fix k
  have split: "k \<in> owners P cl1 \<longleftrightarrow>
    owner_at P cl1 k key \<or> (\<exists>key1. key1 \<noteq> key \<and> owner_at P cl1 k key1)" for cl1
    unfolding owners_def mem_Collect_eq by metis
  have "owner_at P (put_rule key ob' cl) k key \<longleftrightarrow> held ob' \<and> P ob' \<and> k = owner_id ob'" "\<not> owner_at P cl k key"
    using new alive by (auto simp: owner_at_def)
  moreover have "owner_at P (put_rule key ob' cl) k key1 \<longleftrightarrow> owner_at P cl k key1" if "key1 \<noteq> key" for key1
    using that by (simp add: owner_at_def)
  ultimately show "k \<in> owners P (put_rule key ob' cl) \<longleftrightarrow>
      k \<in> (if held ob' \<and> P ob' then insert (owner_id ob') (owners P cl) else owners P cl)"
    using split [of cl] split [of "put_rule key ob' cl"] by auto
qed

lemma owners_cong [simp]:
  "owners P (put_config cm cl) = owners P cl" "owners P (cl\<lparr>cl_config := c\<rparr>) = owners P cl"
  by (simp_all add: owners_def owner_at_def)

lemma owners_old:
  "cl_rules cl key = Some ob \<Longrightarrow> held ob \<Longrightarrow> P ob \<Longrightarrow> owner_id ob \<in> owners P cl"
  by (auto simp: owners_def owner_at_def)

lemma owners_not:
  assumes "cluster_ok L R cl" and "cl_rules cl key = Some ob" and "\<not> (held ob \<and> P ob)"
  shows "owner_id ob \<notin> owners P cl"
proof
  assume "owner_id ob \<in> owners P cl"
  then obtain key1 ob1 where o1: "cl_rules cl key1 = Some ob1" "held ob1" "P ob1" "owner_id ob1 = owner_id ob"
    unfolding owners_def owner_at_def by blast
  from owner_id_inj [of key1 ob1 key ob] cluster_ok_rule [OF assms(1)] o1 assms(2) have "key1 = key" by blast
  with o1 assms(2,3) show False by simp
qed

text \<open>An update of a stored rule that keeps its identity and does not take it out of the store.\<close>

lemma update_register:
  assumes ok: "cluster_ok L R cl" and old: "cl_rules cl key = Some ob" and id: "owner_id ob' = owner_id ob"
    and alive: "\<not> alive ob \<longrightarrow> \<not> alive ob'" and held: "held ob \<longrightarrow> held ob'"
    and acquire: "held ob' \<longrightarrow> held ob \<or> alive ob'"
  shows "register_step (register_of L R cl) (register_of L R (put_rule key ob' cl))"
proof -
  have h: "owners (\<lambda>ob. True) (put_rule key ob' cl) =
      (if held ob' then insert (owner_id ob) (owners (\<lambda>ob. True) cl) else owners (\<lambda>ob. True) cl)"
    and d: "owners (\<lambda>ob. \<not> alive ob) (put_rule key ob' cl) =
      (if held ob' \<and> \<not> alive ob' then insert (owner_id ob) (owners (\<lambda>ob. \<not> alive ob) cl)
       else owners (\<lambda>ob. \<not> alive ob) cl)"
    using owners_put_rule [OF ok old, of ob'] owners_not [OF ok old] id held alive by auto
  show ?thesis
  proof (cases "held ob' \<and> \<not> alive ob'")
    case True
    with acquire have "owner_id ob \<in> owners (\<lambda>ob. True) cl" using owners_old [OF old, of "\<lambda>ob. True"] by auto
    with True register_step.doom [of "owner_id ob" "register_of L R cl"] h d show ?thesis
      by (simp add: register_of_def insert_absorb)
  next
    case False
    with register_step.acquire [of "register_of L R cl" "owner_id ob"] register_step.stutter h d show ?thesis
      by (cases "held ob'") (simp_all add: register_of_def)
  qed
qed

lemma user_register:
  assumes ok: "cluster_ok L R cl" and step: "user_step L R key cl cl'"
  shows "register_step (register_of L R cl) (register_of L R cl')"
  using step
proof cases
  case (create ob)
  with register_step.acquire [of "register_of L R cl" "owner_id ob"] register_step.stutter show ?thesis
    by (cases "held ob") (simp_all add: register_of_def owners_put_new)
next
  case (edit ob ob')
  from cluster_ok_rule [OF ok edit(2)] owner_id_cong edit(3,4) have "owner_id ob' = owner_id ob" by blast
  with edit alive_cong [OF edit(5)] show ?thesis by (simp add: update_register [OF ok edit(2)])
next
  case (delete ob v fs ob' t)
  then have "owner_id ob' = owner_id ob" "held ob' = held ob" by (simp_all add: owner_id_def)
  with delete show ?thesis by (simp add: update_register [OF ok delete(2)])
next
  case (config cm cm')
  from cluster_ok_config [OF ok config(2)] obtain rs where
    "parse_rewrite_rule_set L (opt_index (cm_data cm) (rc_cm_key R)) = Inr rs"
    "installed L R cl = get_rule rs" by blast
  with config have "installed L R cl' = installed L R cl" by (simp add: installed_put_config)
  with config(1) register_step.stutter show ?thesis by (simp add: register_of_def)
next
  case unset
  with register_step.unset [of "register_of L R cl"] installed_None [of cl'] show ?thesis
    by (simp add: register_of_def)
qed

context go_lib
begin

lemma effect_register:
  assumes ok: "cluster_ok L R cl" and step: "effect L R key cl cl'"
  shows "register_step (register_of L R cl) (register_of L R cl')"
  using step
proof cases
  case nothing
  with register_step.stutter show ?thesis by simp
next
  case (update ob ob')
  from cluster_ok_rule [OF ok update(2)] owner_id_cong update(3,4) have "owner_id ob' = owner_id ob" by blast
  with update alive_cong [OF update(5)] show ?thesis
    by (auto intro!: update_register [OF ok update(2)])
next
  case (release ob ob')
  have o: "owners P cl' = owners P cl - {owner_id ob}" for P
    using owners_put_rule [OF ok release(2), of ob' P] release(1,5,6) by simp
  show ?thesis
  proof (cases "held ob")
    case True
    with owners_old [OF release(2), of "\<lambda>ob. \<not> alive ob"] release(3) have
      "owner_id ob \<in> owners (\<lambda>ob. \<not> alive ob) cl" by simp
    with register_step.release [of "owner_id ob" "register_of L R cl"] release(1,4) o show ?thesis
      by (simp add: register_of_def)
  next
    case False
    with owners_not [OF ok release(2)] o release(1) register_step.stutter show ?thesis
      by (simp add: register_of_def)
  qed
next
  case (set_config ob x cm rs)
  have i: "installed L R cl' = (installed L R cl)(owner_id ob := x)"
    unfolding set_config(1) installed_put_config [OF set_config(5)] using set_config(6) .
  show ?thesis
  proof (cases x)
    case None
    with owners_old [OF set_config(2,3), of "\<lambda>ob. \<not> alive ob"] set_config(4)
      register_step.uninstall [of "owner_id ob" "register_of L R cl"] i set_config(1)
    show ?thesis by (simp add: register_of_def)
  next
    case (Some r)
    have "installed L R cl' (owner_id ob) = Some r" by (simp add: i Some)
    note c = installed_consistent [OF effect_cluster_ok [OF ok step] this]
    from c have "rr_owner r = owner_id ob" by blast
    moreover have "\<forall>l t. installed L R cl l = Some t \<longrightarrow> l \<noteq> owner_id ob \<longrightarrow> \<not> clash t r"
    proof (intro allI impI)
      fix l t assume l: "installed L R cl l = Some t" "l \<noteq> owner_id ob"
      then have "installed L R cl' l = Some t" by (simp add: i)
      with c l(2) show "\<not> clash t r" by blast
    qed
    ultimately show ?thesis using register_step.install [of "owner_id ob" "register_of L R cl" r]
      owners_old [OF set_config(2,3), of "\<lambda>ob. True"] i Some set_config(1)
      by (simp add: register_of_def)
  qed
qed

end


section \<open>A concrete execution\<close>

text \<open>
  A user creates a rule; a run reads it, finds no config map, adds the finalizer and creates the
  config map.
\<close>

definition demo_key :: rule_key where "demo_key = (''ns'', ''a'')"

definition first_kube :: kube where
  "first_kube = (demo_kube other_mr (Inl (NotFound '''')))\<lparr>k_update_rule :=
     (\<lambda>tr m. Inr (m\<lparr>mr_meta := (mr_meta m)\<lparr>om_resource_version := ''2''\<rparr>\<rparr>))\<rparr>"

definition first_update :: masquerading_rule where
  "first_update = with_finalizers [finalizer] (observed other_mr)"

definition first_stored :: masquerading_rule where
  "first_stored = first_update\<lparr>mr_status := mr_status other_mr,
     mr_meta := (mr_meta first_update)\<lparr>om_deletion_timestamp := None, om_resource_version := ''2''\<rparr>\<rparr>"

definition first_rules :: rewrite_rule_set where
  "first_rules = snd (add_rule std_lib new_rewrite_rule_set demo_other)"

definition first_map :: config_map where
  "first_map = new_config_map std_lib demo_reconciler first_rules"

definition first_calls :: trace where
  "first_calls = [GetRule ''ns'' ''a'', GetConfigMap ''kube-system'' ''coredns'', UpdateRule first_update, ReadClock]"

lemma first_kube_simps [simp]:
  "k_get_rule first_kube tr ns n = Inr other_mr" "k_get_config_map first_kube tr ns n = Inl (NotFound '''')"
  "k_update_rule first_kube tr m = Inr (m\<lparr>mr_meta := (mr_meta m)\<lparr>om_resource_version := ''2''\<rparr>\<rparr>)"
  "k_update_status first_kube tr m = Inr m" "k_create_config_map first_kube tr c = Inr c"
  "k_now first_kube tr = 100"
  by (simp_all add: first_kube_def)

lemma first_update_keeps: "update_keeps first_kube"
  by (simp add: update_keeps_def)

lemma first_trace:
  "\<exists>m. run_trace std_lib demo_reconciler demo_key first_kube =
     first_calls @ CreateConfigMap first_map # [UpdateRuleStatus m]"
proof -
  obtain rs where "add_rule std_lib new_rewrite_rule_set demo_other = (Inr True, rs)"
    using other_add_new by blast
  then show ?thesis
    by (simp add: run_trace_def reconcile_defs demo_key_def other_mr_def demo_mr_def other_rule owner_id_def
        first_calls_def first_map_def first_rules_def first_update_def new_config_map_def
        with_finalizers_def observed_def)
qed

definition created_cluster :: cluster where
  "created_cluster = \<lparr>cl_rules = [demo_key \<mapsto> other_mr], cl_config = None, cl_versions = {''1''}\<rparr>"

definition acquired_cluster :: cluster where
  "acquired_cluster = \<lparr>cl_rules = [demo_key \<mapsto> first_stored], cl_config = None, cl_versions = {''2'', ''1''}\<rparr>"

definition demo_system :: "cluster \<Rightarrow> trace \<Rightarrow> system" where
  "demo_system cl tr = \<lparr>sy_cluster = cl, sy_runs = [demo_key \<mapsto> (first_kube, tr)], sy_sources = Map.empty\<rparr>"

lemma demo_init: "sys_init std_lib demo_reconciler
    \<lparr>sy_cluster = \<lparr>cl_rules = Map.empty, cl_config = None, cl_versions = {}\<rparr>, sy_runs = Map.empty, sy_sources = Map.empty\<rparr>"
  by (simp add: sys_init_def unique_uids_def)

lemma demo_started: "reachable std_lib demo_reconciler (demo_system created_cluster [])"
proof -
  let ?cl = "\<lparr>cl_rules = Map.empty, cl_config = None, cl_versions = {}\<rparr>"
  have "stored_as demo_key other_mr"
    by (simp add: stored_as_def demo_key_def plain_def other_mr_def demo_mr_def)
  then have "user_step std_lib demo_reconciler demo_key ?cl (put_rule demo_key other_mr ?cl)"
    by (intro user_step.create) (simp_all add: other_mr_def demo_mr_def deletion_is_zero_def fresh_uid_def)
  moreover have "put_rule demo_key other_mr ?cl = created_cluster"
    by (simp add: put_rule_def created_cluster_def other_mr_def demo_mr_def deletion_is_zero_def)
  ultimately have "sys_step std_lib demo_reconciler \<lparr>sy_cluster = ?cl, sy_runs = Map.empty, sy_sources = Map.empty\<rparr>
      \<lparr>sy_cluster = created_cluster, sy_runs = Map.empty, sy_sources = Map.empty\<rparr>"
    using sys_step.user [of std_lib demo_reconciler demo_key "\<lparr>sy_cluster = ?cl, sy_runs = Map.empty, sy_sources = Map.empty\<rparr>"] by simp
  with demo_init have "reachable std_lib demo_reconciler \<lparr>sy_cluster = created_cluster, sy_runs = Map.empty, sy_sources = Map.empty\<rparr>"
    by (metis reachable.init reachable.step)
  from reachable.step [OF this sys_step.start_run [of _ demo_key, OF _ first_update_keeps]] show ?thesis
    by (simp add: demo_system_def)
qed

lemma demo_call:
  assumes "reachable std_lib demo_reconciler (demo_system cl tr)" and "first_calls = tr @ c # rest"
    and "served first_kube tr c cl cl'"
  shows "reachable std_lib demo_reconciler (demo_system cl' (tr @ [c]))"
proof -
  from first_trace obtain m where "run_trace std_lib demo_reconciler demo_key first_kube =
    first_calls @ CreateConfigMap first_map # [UpdateRuleStatus m]" by blast
  then have "run_trace std_lib demo_reconciler demo_key first_kube =
    tr @ c # rest @ CreateConfigMap first_map # [UpdateRuleStatus m]" by (simp add: assms(2))
  from sys_step.call [OF _ this, of "demo_system cl tr" cl'] assms(3)
  have "sys_step std_lib demo_reconciler (demo_system cl tr) (demo_system cl' (tr @ [c]))"
    by (simp add: demo_system_def)
  with assms(1) show ?thesis by (rule reachable.step)
qed

lemma demo_acquired: "reachable std_lib demo_reconciler (demo_system acquired_cluster first_calls)"
proof -
  let ?g = "GetRule ''ns'' ''a''" and ?c = "GetConfigMap ''kube-system'' ''coredns''"
  have "served first_kube [] ?g created_cluster created_cluster"
    by (rule served.get_rule) (simp add: created_cluster_def demo_key_def)
  from demo_call [OF demo_started, unfolded first_calls_def append_Nil, OF refl this]
  have 1: "reachable std_lib demo_reconciler (demo_system created_cluster [?g])" by simp
  have "served first_kube [?g] ?c created_cluster created_cluster"
    by (rule served.get_config) (simp add: created_cluster_def)
  from demo_call [OF 1 _ this] have 2: "reachable std_lib demo_reconciler (demo_system created_cluster [?g, ?c])"
    by (simp add: first_calls_def)
  have "served first_kube [?g, ?c] (UpdateRule first_update) created_cluster
      (put_rule demo_key first_stored created_cluster)"
    by (rule served.update_rule [of _ _ _ other_mr "''2''"])
      (simp_all add: created_cluster_def demo_key_def first_stored_def first_update_def
        other_mr_def demo_mr_def observed_def)
  moreover have "put_rule demo_key first_stored created_cluster = acquired_cluster"
    by (simp add: put_rule_def created_cluster_def acquired_cluster_def first_stored_def deletion_is_zero_def)
  ultimately have "served first_kube [?g, ?c] (UpdateRule first_update) created_cluster acquired_cluster" by simp
  from demo_call [OF 2 _ this] have
    3: "reachable std_lib demo_reconciler (demo_system acquired_cluster [?g, ?c, UpdateRule first_update])"
    by (simp add: first_calls_def)
  have "served first_kube [?g, ?c, UpdateRule first_update] ReadClock acquired_cluster acquired_cluster"
    by (rule served.silent) simp
  from demo_call [OF 3 _ this] show ?thesis by (simp add: first_calls_def)
qed

definition installed_cluster :: cluster where
  "installed_cluster = put_config (first_map\<lparr>cm_resource_version := ''3''\<rparr>) acquired_cluster"

lemma demo_install: "sys_step std_lib demo_reconciler (demo_system acquired_cluster first_calls)
    (demo_system installed_cluster (first_calls @ [CreateConfigMap first_map]))"
proof -
  from first_trace obtain m where
    t: "run_trace std_lib demo_reconciler demo_key first_kube =
      first_calls @ CreateConfigMap first_map # [UpdateRuleStatus m]" by blast
  have "served first_kube first_calls (CreateConfigMap first_map) acquired_cluster installed_cluster"
    unfolding installed_cluster_def by (rule served.create_config) (simp_all add: acquired_cluster_def)
  with sys_step.call [OF _ t, of "demo_system acquired_cluster first_calls" installed_cluster] show ?thesis
    by (simp add: demo_system_def)
qed

lemma demo_installed:
  "installed std_lib demo_reconciler installed_cluster = [''3 (ns/a)'' \<mapsto> demo_other]"
proof -
  obtain rs where a: "add_rule std_lib new_rewrite_rule_set demo_other = (Inr True, rs)"
    using other_add_new by blast
  have e: "parse_rewrite_rule_set std_lib [] = Inr new_rewrite_rule_set" by (simp add: parse_rewrite_rule_set_def)
  have "owner_ok ''3 (ns/a)''" using owner_id_ok [of other_mr] by (simp add: other_mr_def)
  from std.added_rule_wf [OF e this other_rule a] have wf: "rule_set_wf rs"
    and "get_rule rs = [''3 (ns/a)'' \<mapsto> demo_other]"
    by (auto simp: get_rule_def new_rewrite_rule_set_def demo_other_def)
  moreover have "first_rules = rs" by (simp add: first_rules_def a)
  ultimately show ?thesis
    using std.parse_string [OF wf]
    by (simp add: installed_cluster_def installed_def first_map_def new_config_map_def)
qed


section \<open>Properties\<close>

text \<open>
  C32: every step of the system, a call of any of the runs of the controllers of rules, services, ingresses and gateways,
  a start or an end of one or something a user does, is a step of the register or leaves it as it is: a rule is installed only for an owner that is
  held, and clashes with no other; it is taken out only while its owner is being deleted; and an owner is
  released only when it has no rule any more.
\<close>

theorem cluster_refines_register:
  assumes "go_lib L" and "reachable L R s" and "sys_step L R s s'"
  shows "register_step (register_of L R (sy_cluster s)) (register_of L R (sy_cluster s'))"
proof -
  from go_lib.reachable_ok [OF assms(1,2)] have ok: "sys_ok L R s" .
  from go_lib.sys_step_change [OF assms(1) ok assms(3)] obtain key where
    "cluster_change L R key (sy_cluster s) (sy_cluster s')" by blast
  with go_lib.effect_register [OF assms(1)] user_register sys_ok_cluster [OF ok] show ?thesis
    unfolding cluster_change_def by blast
qed

theorem cluster_refines_register_witness:
  "register_step (register_of std_lib demo_reconciler acquired_cluster)
      (register_of std_lib demo_reconciler installed_cluster) \<and>
    rg_rules (register_of std_lib demo_reconciler acquired_cluster) ''3 (ns/a)'' = None \<and>
    rg_rules (register_of std_lib demo_reconciler installed_cluster) ''3 (ns/a)'' = Some demo_other"
  using cluster_refines_register [OF std.go_lib_axioms demo_acquired demo_install] demo_installed
  by (simp add: demo_system_def register_of_def installed_None acquired_cluster_def)

text \<open>
  C33: in every reachable state, whatever the interleaving of the runs of all four controllers and whichever calls
  fail or runs are cut off, each rewrite in
  the config map belongs to a rule object that is in the store and has the finalizer, so nothing is left behind; and no
  two owners have a rewrite that matches the same host.
\<close>

theorem no_orphaned_rewrites:
  assumes "go_lib L" and "reachable L R s" and "installed L R (sy_cluster s) k = Some r"
  shows "(\<exists>key ob. cl_rules (sy_cluster s) key = Some ob \<and> owner_id ob = k \<and>
      finalizer \<in> set (om_finalizers (mr_meta ob))) \<and>
    (\<forall>k' r' h. installed L R (sy_cluster s) k' = Some r' \<longrightarrow> rule_matches r h \<longrightarrow> rule_matches r' h \<longrightarrow> k' = k)"
proof -
  from go_lib.reachable_ok [OF assms(1,2)] have ok: "cluster_ok L R (sy_cluster s)" by (simp add: sys_ok_def)
  then have "\<exists>key ob. cl_rules (sy_cluster s) key = Some ob \<and> held ob \<and> owner_id ob = k"
    using assms(3) unfolding cluster_ok_def by blast
  with go_lib.installed_consistent [OF assms(1) ok assms(3)] matching_clash show ?thesis by blast
qed

theorem no_orphaned_rewrites_witness:
  "\<exists>key ob. cl_rules installed_cluster key = Some ob \<and> owner_id ob = ''3 (ns/a)''"
proof -
  let ?s = "demo_system installed_cluster (first_calls @ [CreateConfigMap first_map])"
  have s: "sy_cluster ?s = installed_cluster" by (simp add: demo_system_def)
  have "installed std_lib demo_reconciler (sy_cluster ?s) ''3 (ns/a)'' = Some demo_other"
    by (simp add: s demo_installed)
  from no_orphaned_rewrites [OF std.go_lib_axioms reachable.step [OF demo_acquired demo_install] this]
  show ?thesis unfolding s by blast
qed

end
