(* ===== verification/Cluster_Liveness.thy ===== *)
theory Cluster_Liveness
  imports Cluster_Properties
begin

text \<open>
  What repeated runs achieve while the cluster is calm: nobody else changes it, every call succeeds,
  the updates of the config map are far enough apart, and the record check answers true.
  A rule becomes and stays Ready within three runs, and one that is being deleted is gone
  within three.
\<close>

section \<open>Calm runs\<close>

fun served_calls :: "kube \<Rightarrow> trace \<Rightarrow> trace \<Rightarrow> cluster \<Rightarrow> cluster \<Rightarrow> bool" where
  "served_calls K tr [] cl cl' \<longleftrightarrow> cl' = cl"
| "served_calls K tr (c # cs) cl cl' \<longleftrightarrow> (\<exists>cl1. served K tr c cl cl1 \<and> served_calls K (tr @ [c]) cs cl1 cl')"

definition cooperative :: "kube \<Rightarrow> bool" where
  "cooperative K \<longleftrightarrow> update_keeps K \<and>
     (\<forall>tr ns n e. k_get_rule K tr ns n \<noteq> Inl (ApiError e)) \<and>
     (\<forall>tr ns n e. k_get_config_map K tr ns n \<noteq> Inl (ApiError e)) \<and>
     (\<forall>tr m. \<exists>m'. k_update_rule K tr m = Inr m') \<and> (\<forall>tr m. \<exists>m'. k_update_status K tr m = Inr m') \<and>
     (\<forall>tr c. \<exists>c'. k_create_config_map K tr c = Inr c') \<and> (\<forall>tr c. \<exists>c'. k_update_config_map K tr c = Inr c') \<and>
     (\<forall>tr h t. k_check_record K tr h t = (True, None))"

definition delay_passed :: "kube \<Rightarrow> reconciler \<Rightarrow> cluster \<Rightarrow> bool" where
  "delay_passed K R cl \<longleftrightarrow>
     (\<forall>cm val. cl_config cl = Some cm \<longrightarrow> opt_lookup (cm_annotations cm) annotation_last_updated_at = Some val \<longrightarrow>
        (\<exists>last. k_parse_time K val = Inr last \<and> (\<forall>tr. last + rc_update_delay R \<le> k_now K tr)))"

definition calm_run :: "lib \<Rightarrow> reconciler \<Rightarrow> rule_key \<Rightarrow> kube \<Rightarrow> cluster \<Rightarrow> cluster \<Rightarrow> bool" where
  "calm_run L R key K cl cl' \<longleftrightarrow> cooperative K \<and> delay_passed K R cl \<and>
     served_calls K [] (run_trace L R key K) cl cl'"

lemma served_calls_append:
  "served_calls K tr (xs @ ys) cl cl' \<longleftrightarrow>
    (\<exists>cl1. served_calls K tr xs cl cl1 \<and> served_calls K (tr @ xs) ys cl1 cl')"
  by (induction K tr xs cl cl' rule: served_calls.induct) auto

lemma served_calls_silent: "all_silent zs \<Longrightarrow> served_calls K tr zs cl cl' \<Longrightarrow> cl' = cl"
proof (induction zs arbitrary: tr)
  case (Cons c zs)
  then show ?case by (auto dest: served_silent)
qed simp

context go_lib
begin

lemma served_calls_ok:
  "cluster_ok L R cl \<Longrightarrow> update_keeps K \<Longrightarrow> run_at L R cl key K tr cs \<Longrightarrow> served_calls K tr cs cl cl' \<Longrightarrow>
    cluster_ok L R cl'"
proof (induction cs arbitrary: tr cl)
  case (Cons c cs)
  from Cons.prems(4) obtain cl1 where s: "served K tr c cl cl1" "served_calls K (tr @ [c]) cs cl1 cl'" by auto
  from run_call [OF Cons.prems(1,2,3) refl s(1)] have ch: "cluster_change L R key cl cl1"
    and "run_at L R cl1 key K (tr @ [c]) cs" by (simp_all add: leads_on_def)
  with cluster_change_ok [OF Cons.prems(1) ch] Cons.IH Cons.prems(2) s(2) show ?case by blast
qed simp

lemma calm_run_ok:
  assumes "cluster_ok L R cl" and "calm_run L R key K cl cl'"
  shows "cluster_ok L R cl'"
proof (rule served_calls_ok [OF assms(1) _ run_at.starting])
  show "update_keeps K" "served_calls K [] (run_trace L R key K) cl cl'"
    using assms(2) by (simp_all add: calm_run_def cooperative_def)
qed

section \<open>The calls of a calm run\<close>

lemma update_config_map_calm:
  assumes "cooperative K" and "delay_passed K R cl" and "cl_config cl = Some cm"
  shows "update_config_map K L R mr cm rs tr = (ended mr (requeue_after (seconds 1)),
    tr @ [ReadClock, UpdateConfigMap (stored_map K L R cm rs (k_now K tr))])"
proof -
  obtain c where u: "k_update_config_map K (tr @ [ReadClock]) (stored_map K L R cm rs (k_now K tr)) = Inr c"
    using assms(1) by (metis cooperative_def)
  have "store_config_map K L R mr cm rs (k_now K tr) (tr @ [ReadClock]) = (ended mr (requeue_after (seconds 1)),
      tr @ [ReadClock, UpdateConfigMap (stored_map K L R cm rs (k_now K tr))])"
    using u by (simp add: store_config_map_def stored_map_def Let_def)
  moreover have "\<not> k_now K tr < last + rc_update_delay R" if "\<forall>tr. last + rc_update_delay R \<le> k_now K tr" for last
    using that by (simp add: not_less)
  ultimately show ?thesis
    using assms(2,3) by (auto simp: update_config_map_def delay_passed_def Let_def split: option.splits sum.splits)
qed

lemma set_finalizer_calm:
  assumes "cooperative K"
  obtains fs mr' where "set_finalizer K L mr tr = (Inr mr', tr @ fs)" and "finalized K mr tr fs mr'"
proof -
  obtain res tr' where r: "set_finalizer K L mr tr = (res, tr')" by fastforce
  have "\<exists>m. res = Inr m"
    using assms r unfolding cooperative_def set_finalizer_def Let_def
    by (auto split: if_splits sum.splits) (metis sum.distinct(1))
  with set_finalizer_spec [OF r] r that show thesis by auto
qed

text \<open>A run without error, from the body.\<close>

lemma run_trace_body:
  assumes "cooperative K" and "k_get_rule K [] (fst key) (snd key) = Inr mr"
    and body: "reconcile_body K L R (observed mr) [GetRule (fst key) (snd key)] =
      (b, GetRule (fst key) (snd key) # ys)" and "be_err b = None"
  obtains zs where "all_silent zs" and "run_trace L R key K = GetRule (fst key) (snd key) # ys @ zs
      @ (if be_skip b then [] else [UpdateRuleStatus (be_rule b)])"
proof -
  from notify_owner_calls obtain zs where
    z: "notify_owner K (st_state (mr_status mr)) (be_rule b) (GetRule (fst key) (snd key) # ys) =
      (GetRule (fst key) (snd key) # ys) @ zs" "\<forall>c \<in> set zs. owner_call c" by blast
  from z(2) have "all_silent zs" using owner_call_silent by (auto simp: all_silent_def)
  moreover from assms(1) obtain m' where
    "k_update_status K (GetRule (fst key) (snd key) # ys @ zs) (be_rule b) = Inr m'"
    unfolding cooperative_def by blast
  then have "snd (update_status K b (GetRule (fst key) (snd key) # ys @ zs)) = GetRule (fst key) (snd key) # ys @ zs
      @ (if be_skip b then [] else [UpdateRuleStatus (be_rule b)])"
    using assms(4) by (simp add: update_status_def)
  then have "run_trace L R key K = GetRule (fst key) (snd key) # ys @ zs
      @ (if be_skip b then [] else [UpdateRuleStatus (be_rule b)])"
    using assms(2) body z(1)
    by (simp add: run_trace_def reconcile_rule_def webhook_default_def observed_def Let_def)
  ultimately show thesis using that by blast
qed

text \<open>What the calls of the body do to the store.\<close>

lemma calm_get_rule:
  assumes "cooperative K" and "served K tr (GetRule ns n) cl cl1" and "cl_rules cl (ns, n) = Some ob"
  shows "cl1 = cl \<and> k_get_rule K tr ns n = Inr ob"
proof (cases "k_get_rule K tr ns n")
  case (Inl e)
  with assms show ?thesis by (cases e) (auto simp: cooperative_def elim!: served_get_rule)
next
  case (Inr a)
  with assms show ?thesis by (auto elim!: served_get_rule)
qed

lemma calm_get_config:
  assumes "cooperative K" and "served K tr (GetConfigMap ns n) cl cl1"
  shows "cl1 = cl \<and> (case cl_config cl of None \<Rightarrow> \<exists>e. k_get_config_map K tr ns n = Inl (NotFound e)
    | Some cm \<Rightarrow> k_get_config_map K tr ns n = Inr cm)"
proof (cases "k_get_config_map K tr ns n")
  case (Inl e)
  with assms show ?thesis by (cases e) (auto simp: cooperative_def elim!: served_get_config)
next
  case (Inr a)
  with assms show ?thesis by (auto elim!: served_get_config)
qed

lemma calm_update_rule:
  assumes "cooperative K" and "served K tr (UpdateRule m) cl cl1"
    and "cl_rules cl (om_namespace (mr_meta m), om_name (mr_meta m)) = Some ob"
  obtains ob' where "cl1 = put_rule (om_namespace (mr_meta m), om_name (mr_meta m)) ob' cl"
    and "om_finalizers (mr_meta ob') = om_finalizers (mr_meta m)" and "mr_spec ob' = mr_spec m"
    and "mr_status ob' = mr_status ob" and "om_uid (mr_meta ob') = om_uid (mr_meta m)"
    and "om_deletion_timestamp (mr_meta ob') = om_deletion_timestamp (mr_meta ob)"
    and "om_namespace (mr_meta ob') = om_namespace (mr_meta m)" and "om_name (mr_meta ob') = om_name (mr_meta m)"
    and "\<forall>m'. k_update_rule K tr m = Inr m' \<longrightarrow> mr_meta m' = mr_meta ob' \<and> mr_spec m' = mr_spec ob'"
  using assms(2)
proof cases
  case (update_rule key ob1 v ob')
  with assms(3) have "ob1 = ob" by simp
  from update_rule(8) have a: "\<forall>m'. k_update_rule K tr m = Inr m' \<longrightarrow> mr_meta m' = mr_meta ob' \<and> mr_spec m' = mr_spec ob'" .
  show thesis
    by (rule that [OF _ _ _ _ _ _ _ _ a]) (simp_all add: update_rule(1,2,7) \<open>ob1 = ob\<close>)
next
  case (update_rule_failed e)
  with assms(1) show thesis unfolding cooperative_def by (metis sum.distinct(1))
qed simp

lemma calm_update_status:
  assumes "cooperative K" and "served K tr (UpdateRuleStatus m) cl cl1"
    and "cl_rules cl (om_namespace (mr_meta m), om_name (mr_meta m)) = Some ob"
  obtains ob' where "cl1 = put_rule (om_namespace (mr_meta m), om_name (mr_meta m)) ob' cl"
    and "mr_status ob' = mr_status m" and "mr_spec ob' = mr_spec ob" and "owner_id ob' = owner_id ob"
    and "om_deletion_timestamp (mr_meta ob') = om_deletion_timestamp (mr_meta ob)"
    and "om_finalizers (mr_meta ob') = om_finalizers (mr_meta ob)"
  using assms(2)
proof cases
  case (update_status key ob1 v ob')
  with assms(3) have "ob1 = ob" by simp
  show thesis
    by (rule that [of ob'])
      (simp_all only: update_status(1,2), simp_all add: update_status(7) owner_id_def \<open>ob1 = ob\<close>)
next
  case (update_status_failed e)
  with assms(1) show thesis unfolding cooperative_def by (metis sum.distinct(1))
qed simp

lemma calm_write:
  assumes "cooperative K" and "served K tr w cl cl1"
    and "(w = UpdateConfigMap cm \<and> cl_config cl \<noteq> None) \<or> (w = CreateConfigMap cm \<and> cl_config cl = None)"
    and "parse_rewrite_rule_set L (opt_index (cm_data cm) (rc_cm_key R)) = Inr rs"
  shows "cl_rules cl1 = cl_rules cl \<and> installed L R cl1 = get_rule rs"
proof -
  have "\<exists>v. cl1 = put_config (cm\<lparr>cm_resource_version := v\<rparr>) cl"
    using assms(1-3) unfolding cooperative_def
    by (auto elim!: served_update_config served_create_config) (metis sum.distinct(1))+
  with assms(4) show ?thesis by (auto simp: installed_def)
qed

text \<open>The finalizer is there after the calls for it, and nothing else has changed.\<close>

lemma calm_finalized:
  assumes "cooperative K" and "stored_as key ob" and "cl_rules cl key = Some ob" and "alive ob"
    and fin: "finalized K (observed ob) tr fs mr'" and "served_calls K tr fs cl cl1"
  obtains ob1 where "cl_rules cl1 key = Some ob1" and "mr_meta mr' = mr_meta ob1" and "mr_spec mr' = mr_spec ob"
    and "mr_spec ob1 = mr_spec ob" and "stored_as key ob1" and "owner_id ob1 = owner_id ob" and "alive ob1"
    and "cl_config cl1 = cl_config cl"
proof -
  from assms(2) have key: "(om_namespace (mr_meta ob), om_name (mr_meta ob)) = key" by (simp add: stored_as_def)
  from fin consider "fs = []" "mr' = observed ob" | fins where
    "fs = [UpdateRule (with_finalizers fins (observed ob))]"
    "k_update_rule K tr (with_finalizers fins (observed ob)) = Inr mr'"
    by (auto simp: finalized_def)
  then show thesis
  proof cases
    case 1
    with assms that [of ob] show thesis by simp
  next
    case 2
    with assms(6) have s: "served K tr (UpdateRule (with_finalizers fins (observed ob))) cl cl1" by auto
    from assms(3) key have
      "cl_rules cl (om_namespace (mr_meta (with_finalizers fins (observed ob))),
        om_name (mr_meta (with_finalizers fins (observed ob)))) = Some ob" by simp
    then have ob: "cl_rules cl (om_namespace (mr_meta (with_finalizers fins (observed ob))),
        om_name (mr_meta (with_finalizers fins (observed ob)))) = Some ob" by simp
    show thesis
    proof (rule calm_update_rule [OF assms(1) s ob])
      fix ob' assume ob': "cl1 = put_rule (om_namespace (mr_meta (with_finalizers fins (observed ob))),
          om_name (mr_meta (with_finalizers fins (observed ob)))) ob' cl"
        "om_finalizers (mr_meta ob') = om_finalizers (mr_meta (with_finalizers fins (observed ob)))"
        "mr_spec ob' = mr_spec (with_finalizers fins (observed ob))" "mr_status ob' = mr_status ob"
        "om_uid (mr_meta ob') = om_uid (mr_meta (with_finalizers fins (observed ob)))"
        "om_deletion_timestamp (mr_meta ob') = om_deletion_timestamp (mr_meta ob)"
        "om_namespace (mr_meta ob') = om_namespace (mr_meta (with_finalizers fins (observed ob)))"
        "om_name (mr_meta ob') = om_name (mr_meta (with_finalizers fins (observed ob)))"
        "\<forall>m'. k_update_rule K tr (with_finalizers fins (observed ob)) = Inr m' \<longrightarrow>
          mr_meta m' = mr_meta ob' \<and> mr_spec m' = mr_spec ob'"
      from alive_cong [OF ob'(6)] assms(4) have a: "alive ob'" by simp
      from ob'(9) 2(2) have m: "mr_meta mr' = mr_meta ob'" "mr_spec mr' = mr_spec ob'" by blast+
      show thesis
        using ob'(1,3,5,7,8) key a m assms(2)
        by (intro that [of ob']) (simp_all add: stored_as_def owner_id_def)
    qed
  qed
qed

section \<open>The body of a calm run\<close>

lemma body_config:
  assumes "cooperative K" and "st_state (mr_status mr) \<noteq> StateUnset"
    and gcm: "gcm = GetConfigMap (rc_cm_namespace R) (rc_cm_name R)"
    and "case c of None \<Rightarrow> \<exists>e. k_get_config_map K tr (rc_cm_namespace R) (rc_cm_name R) = Inl (NotFound e)
      | Some cm \<Rightarrow> k_get_config_map K tr (rc_cm_namespace R) (rc_cm_name R) = Inr cm"
  shows "reconcile_body K L R mr tr =
    (if alive mr then reconcile_present K L R mr (owner_id mr) c (tr @ [gcm])
     else if \<exists>f \<in> set (om_finalizers (mr_meta mr)). f \<noteq> finalizer then
       (let (mr1, tr1) = set_state_now K (tr @ [gcm]) mr StateDeletionBlocked
             ''Deletion blocked due to foreign finalizers'' in
        (ended mr1 (requeue_after (seconds 10)), tr1))
     else reconcile_deleted K L R mr (owner_id mr) c (tr @ [gcm]))"
  using assms by (auto simp: reconcile_body_def Let_def remove_eq filter_empty_conv split: option.splits)

lemma check_active_calm:
  assumes "cooperative K"
  shows "\<exists>b ys. check_active K mr tr = (b, tr @ ys) \<and> all_silent ys \<and> be_err b = None \<and> \<not> be_skip b \<and>
    mr_meta (be_rule b) = mr_meta mr \<and> st_state (mr_status (be_rule b)) = StateReady"
  using assms by (simp add: cooperative_def check_active_def set_state_now_def Let_def)

end

text \<open>
  What the body does for a live rule that clashes with none: it ends with Ready if the rule is installed, otherwise
  it writes a config map in which the rule is installed, and ends with Processing.
\<close>

definition alive_end ::
  "lib \<Rightarrow> reconciler \<Rightarrow> cluster \<Rightarrow> string \<Rightarrow> rewrite_rule \<Rightarrow> masquerading_rule \<Rightarrow> body_end \<Rightarrow> trace \<Rightarrow> trace \<Rightarrow> bool"
where
  "alive_end L R cl k rule mr b zs ws \<longleftrightarrow>
     all_silent zs \<and> be_err b = None \<and> \<not> be_skip b \<and> mr_meta (be_rule b) = mr_meta mr \<and>
     (if installed L R cl k = Some rule then ws = [] \<and> st_state (mr_status (be_rule b)) = StateReady
      else st_state (mr_status (be_rule b)) = StateProcessing \<and>
        (\<exists>w cm rs. ws = [w] \<and>
          (w = UpdateConfigMap cm \<and>
             (\<exists>cm0. cl_config cl = Some cm0 \<and> cm_resource_version cm0 = cm_resource_version cm) \<or>
           w = CreateConfigMap cm \<and> cl_config cl = None) \<and>
          parse_rewrite_rule_set L (opt_index (cm_data cm) (rc_cm_key R)) = Inr rs \<and>
          get_rule rs = (installed L R cl)(k \<mapsto> rule)))"

context go_lib
begin

lemma create_config_map_alive:
  assumes coop: "cooperative K" and None: "cl_config cl = None" and sa: "stored_as key ob"
    and rule: "new_rewrite_rule (owner_id ob) (sp_from (mr_spec ob)) (sp_to (mr_spec ob)) = Inr rule"
  shows "\<exists>b zs ws. create_config_map K L R mr rule tr = (b, tr @ zs @ ws) \<and>
    alive_end L R cl (owner_id ob) rule mr b zs ws"
proof -
  have e: "parse_rewrite_rule_set L [] = Inr new_rewrite_rule_set" by (simp add: parse_rewrite_rule_set_def)
  have n: "get_rule new_rewrite_rule_set = Map.empty" by (auto simp: get_rule_def new_rewrite_rule_set_def)
  with rules.put_iff [OF consistent_empty, of rule] obtain ch rs where
    add: "add_rule L new_rewrite_rule_set rule = (Inr ch, rs)" by auto
  from added_rule_wf [OF e stored_owner_ok [OF sa] rule add] n new_rewrite_rule_Inr [OF rule]
  have wf: "rule_set_wf rs" and rs: "get_rule rs = Map.empty(owner_id ob \<mapsto> rule)" by auto
  let ?b = "ended (set_state (k_now K tr) mr StateProcessing waiting) (requeue_after (seconds 1))"
  from coop obtain c where "k_create_config_map K (tr @ [ReadClock]) (new_config_map L R rs) = Inr c"
    unfolding cooperative_def by blast
  with add have "create_config_map K L R mr rule tr = (?b, tr @ [ReadClock] @ [CreateConfigMap (new_config_map L R rs)])"
    by (simp add: create_config_map_def set_state_now_def new_config_map_def)
  moreover have "parse_rewrite_rule_set L (opt_index (cm_data (new_config_map L R rs)) (rc_cm_key R)) = Inr rs"
    using parse_string [OF wf] by (simp add: new_config_map_def)
  then have "alive_end L R cl (owner_id ob) rule mr ?b [ReadClock] [CreateConfigMap (new_config_map L R rs)]"
    using None rs installed_None [OF None] by (simp add: alive_end_def)
  ultimately show ?thesis by blast
qed

lemma apply_rule_alive:
  assumes coop: "cooperative K" and delay: "delay_passed K R cl" and ok: "cluster_ok L R cl"
    and Some: "cl_config cl = Some cm" and sa: "stored_as key ob"
    and rule: "new_rewrite_rule (owner_id ob) (sp_from (mr_spec ob)) (sp_to (mr_spec ob)) = Inr rule"
    and free: "\<forall>l t. installed L R cl l = Some t \<longrightarrow> l \<noteq> owner_id ob \<longrightarrow> \<not> clash t rule"
  shows "\<exists>b zs ws. apply_rule K L R mr rule cm tr = (b, tr @ zs @ ws) \<and> alive_end L R cl (owner_id ob) rule mr b zs ws"
proof -
  from cluster_ok_config [OF ok Some] obtain rs0 where
    p: "parse_rewrite_rule_set L (opt_index (cm_data cm) (rc_cm_key R)) = Inr rs0"
    and i: "installed L R cl = get_rule rs0" by blast
  from parse_wf [OF p] have c: "consistent rs0" by (simp add: rule_set_wf_def)
  from new_rewrite_rule_Inr [OF rule] have r: "rr_owner rule = owner_id ob"
    "rule = \<lparr>rr_owner = owner_id ob, rr_from = sp_from (mr_spec ob), rr_to = sp_to (mr_spec ob)\<rparr>" by simp_all
  from rules.put_iff [OF c, of rule] free obtain ch rs where
    add: "add_rule L rs0 rule = (Inr ch, rs)" by (auto simp: i r(1))
  from added_rule_wf [OF p stored_owner_ok [OF sa] rule add] r(2) have wf: "rule_set_wf rs"
    and rs: "get_rule rs = (installed L R cl)(owner_id ob \<mapsto> rule)"
    and ch: "ch \<longleftrightarrow> installed L R cl (owner_id ob) \<noteq> Some rule" by (auto simp: i)
  show ?thesis
  proof (cases ch)
    case True
    let ?b = "ended (set_state (k_now K tr) mr StateProcessing waiting) (requeue_after (seconds 1))"
    let ?cm = "stored_map K L R cm rs (k_now K (tr @ [ReadClock]))"
    from True add p update_config_map_calm [OF coop delay Some] have
      "apply_rule K L R mr rule cm tr = (?b, tr @ [ReadClock, ReadClock] @ [UpdateConfigMap ?cm])"
      by (simp add: apply_rule_def set_state_now_def)
    moreover have "alive_end L R cl (owner_id ob) rule mr ?b [ReadClock, ReadClock] [UpdateConfigMap ?cm]"
      using Some True ch rs stored_map_parse [OF wf] by (auto simp: alive_end_def stored_map_def)
    ultimately show ?thesis by blast
  next
    case False
    from check_active_calm [OF coop, of mr tr] obtain b ys where
      "check_active K mr tr = (b, tr @ ys)" and b: "all_silent ys" "be_err b = None"
      "\<not> be_skip b" "mr_meta (be_rule b) = mr_meta mr" "st_state (mr_status (be_rule b)) = StateReady" by blast
    with False add p have "apply_rule K L R mr rule cm tr = (b, tr @ ys @ [])" by (simp add: apply_rule_def)
    moreover have "alive_end L R cl (owner_id ob) rule mr b ys []" using b False ch by (simp add: alive_end_def)
    ultimately show ?thesis by blast
  qed
qed

lemma body_alive:
  assumes coop: "cooperative K" and delay: "delay_passed K R cl" and ok: "cluster_ok L R cl"
    and sa: "stored_as key ob" and st: "alive ob" "st_state (mr_status ob) \<noteq> StateUnset"
    and gcm: "gcm = GetConfigMap (rc_cm_namespace R) (rc_cm_name R)"
    and got: "case cl_config cl of None \<Rightarrow> \<exists>e. k_get_config_map K tr (rc_cm_namespace R) (rc_cm_name R) = Inl (NotFound e)
      | Some cm \<Rightarrow> k_get_config_map K tr (rc_cm_namespace R) (rc_cm_name R) = Inr cm"
    and rule: "new_rewrite_rule (owner_id ob) (sp_from (mr_spec ob)) (sp_to (mr_spec ob)) = Inr rule"
    and free: "\<forall>l t. installed L R cl l = Some t \<longrightarrow> l \<noteq> owner_id ob \<longrightarrow> \<not> clash t rule"
  shows "\<exists>b fs mr' zs ws. reconcile_body K L R (observed ob) tr = (b, tr @ gcm # fs @ zs @ ws) \<and>
    finalized K (observed ob) (tr @ [gcm]) fs mr' \<and> alive_end L R cl (owner_id ob) rule mr' b zs ws"
proof -
  from set_finalizer_calm [OF coop, of "observed ob" "tr @ [gcm]"] obtain fs mr' where
    sf: "set_finalizer K L (observed ob) (tr @ [gcm]) = (Inr mr', (tr @ [gcm]) @ fs)"
    and fin: "finalized K (observed ob) (tr @ [gcm]) fs mr'" by blast
  from finalized_keeps [OF _ fin] coop have spec: "mr_spec mr' = mr_spec ob" by (simp add: cooperative_def)
  have "reconcile_body K L R (observed ob) tr =
      (case cl_config cl of None \<Rightarrow> create_config_map K L R mr' rule (tr @ gcm # fs)
       | Some cm \<Rightarrow> apply_rule K L R mr' rule cm (tr @ gcm # fs))"
    using st spec rule sf by (simp add: body_config [OF coop _ gcm got] reconcile_present_def)
  then have "\<exists>b zs ws. reconcile_body K L R (observed ob) tr = (b, (tr @ gcm # fs) @ zs @ ws) \<and>
      alive_end L R cl (owner_id ob) rule mr' b zs ws"
    using create_config_map_alive [OF coop _ sa rule, of cl R mr' "tr @ gcm # fs"]
      apply_rule_alive [OF coop delay ok _ sa rule free, of _ mr' "tr @ gcm # fs"]
    by (cases "cl_config cl") simp_all
  with fin show ?thesis by force
qed

section \<open>One calm run\<close>

text \<open>The status update at the end, with the object in the store that the rule in memory was read from.\<close>

lemma calm_status:
  assumes coop: "cooperative K" and ok: "alive ob \<or> om_finalizers (mr_meta ob) \<noteq> []"
    and ob: "cl_rules cl key = Some ob" and sa: "stored_as key ob" and m: "mr_meta m = mr_meta ob"
    and zs: "all_silent zs" and s: "served_calls K tr (zs @ [UpdateRuleStatus m]) cl cl'"
  obtains ob' where "cl_rules cl' key = Some ob'" and "mr_status ob' = mr_status m"
    and "mr_spec ob' = mr_spec ob" and "owner_id ob' = owner_id ob"
    and "om_deletion_timestamp (mr_meta ob') = om_deletion_timestamp (mr_meta ob)"
    and "om_finalizers (mr_meta ob') = om_finalizers (mr_meta ob)" and "cl_config cl' = cl_config cl"
proof -
  from s served_calls_silent [OF zs] have u: "served K (tr @ zs) (UpdateRuleStatus m) cl cl'"
    by (auto simp: served_calls_append)
  have key: "(om_namespace (mr_meta m), om_name (mr_meta m)) = key" using sa by (simp add: m stored_as_def)
  then have "cl_rules cl (om_namespace (mr_meta m), om_name (mr_meta m)) = Some ob" by (simp add: ob)
  from calm_update_status [OF coop u this] obtain ob' where
    o': "cl' = put_rule key ob' cl" "mr_status ob' = mr_status m" "mr_spec ob' = mr_spec ob" "owner_id ob' = owner_id ob"
      "om_deletion_timestamp (mr_meta ob') = om_deletion_timestamp (mr_meta ob)"
      "om_finalizers (mr_meta ob') = om_finalizers (mr_meta ob)" unfolding key by metis
  with ok alive_cong [OF o'(5)] have "cl_rules cl' key = Some ob'" by simp
  with o' that show thesis by simp
qed

text \<open>The start of a run, and a run for a rule that was never seen.\<close>

lemma calm_start:
  assumes "calm_run L R key K cl cl'" and "cl_rules cl key = Some ob"
  shows "cooperative K \<and> delay_passed K R cl \<and> k_get_rule K [] (fst key) (snd key) = Inr ob \<and>
    (\<forall>rest. run_trace L R key K = GetRule (fst key) (snd key) # rest \<longrightarrow>
      served_calls K [GetRule (fst key) (snd key)] rest cl cl')"
proof -
  from assms(1) have coop: "cooperative K" and s: "served_calls K [] (run_trace L R key K) cl cl'"
    and "delay_passed K R cl" by (simp_all add: calm_run_def)
  have "\<exists>rest. run_trace L R key K = GetRule (fst key) (snd key) # rest"
    using run_trace_none run_trace_some by (cases "k_get_rule K [] (fst key) (snd key)") metis+
  then obtain rest where t: "run_trace L R key K = GetRule (fst key) (snd key) # rest" ..
  with s obtain cl1 where "served K [] (GetRule (fst key) (snd key)) cl cl1"
    "served_calls K [GetRule (fst key) (snd key)] rest cl1 cl'" by auto
  with calm_get_rule [OF coop this(1)] assms(2) t coop \<open>delay_passed K R cl\<close> show ?thesis by simp
qed

lemma calm_unset:
  assumes run: "calm_run L R key K cl cl'" and ok: "cluster_ok L R cl" and ob: "cl_rules cl key = Some ob"
    and st: "st_state (mr_status ob) = StateUnset"
  obtains ob' where "cl_rules cl' key = Some ob'" and "st_state (mr_status ob') = StateNew"
    and "mr_spec ob' = mr_spec ob" and "owner_id ob' = owner_id ob"
    and "om_deletion_timestamp (mr_meta ob') = om_deletion_timestamp (mr_meta ob)"
    and "om_finalizers (mr_meta ob') = om_finalizers (mr_meta ob)" and "cl_config cl' = cl_config cl"
proof -
  let ?g = "GetRule (fst key) (snd key)"
  from calm_start [OF run ob] have coop: "cooperative K" and get: "k_get_rule K [] (fst key) (snd key) = Inr ob"
    and s: "run_trace L R key K = ?g # rest \<Longrightarrow> served_calls K [?g] rest cl cl'" for rest by auto
  let ?m = "set_state (k_now K [?g]) (observed ob) StateNew ''First seen''"
  let ?b = "ended ?m (no_result\<lparr>res_requeue := True\<rparr>)"
  have "reconcile_body K L R (observed ob) [?g] = (?b, ?g # [ReadClock])"
    using st by (simp add: reconcile_body_def set_state_now_def)
  from run_trace_body [OF coop get this] obtain zs where "all_silent zs"
    and "run_trace L R key K = ?g # [ReadClock] @ zs @ [UpdateRuleStatus ?m]" by auto
  then have zs: "all_silent (ReadClock # zs)"
    and c: "served_calls K [?g] ((ReadClock # zs) @ [UpdateRuleStatus ?m]) cl cl'" using s by auto
  from cluster_ok_rule [OF ok ob] have d: "alive ob \<or> om_finalizers (mr_meta ob) \<noteq> []"
    and sa: "stored_as key ob" by auto
  show thesis
  proof (rule calm_status [OF coop d ob sa _ zs c])
    show "mr_meta ?m = mr_meta ob" by simp
  next
    fix ob' assume "cl_rules cl' key = Some ob'" "mr_status ob' = mr_status ?m" "mr_spec ob' = mr_spec ob"
      "owner_id ob' = owner_id ob" "om_deletion_timestamp (mr_meta ob') = om_deletion_timestamp (mr_meta ob)"
      "om_finalizers (mr_meta ob') = om_finalizers (mr_meta ob)" "cl_config cl' = cl_config cl"
    then show thesis by (intro that [of ob']) simp_all
  qed
qed

text \<open>A calm run reads the rule and the config map as they are stored.\<close>

lemma calm_read:
  assumes run: "calm_run L R key K cl cl'" and ob: "cl_rules cl key = Some ob"
    and st: "st_state (mr_status ob) \<noteq> StateUnset"
  obtains rest where "cooperative K" and "delay_passed K R cl" and "k_get_rule K [] (fst key) (snd key) = Inr ob"
    and "run_trace L R key K = GetRule (fst key) (snd key) # GetConfigMap (rc_cm_namespace R) (rc_cm_name R) # rest"
    and "served_calls K [GetRule (fst key) (snd key), GetConfigMap (rc_cm_namespace R) (rc_cm_name R)] rest cl cl'"
    and "case cl_config cl of
        None \<Rightarrow> \<exists>e. k_get_config_map K [GetRule (fst key) (snd key)] (rc_cm_namespace R) (rc_cm_name R) = Inl (NotFound e)
      | Some cm \<Rightarrow> k_get_config_map K [GetRule (fst key) (snd key)] (rc_cm_namespace R) (rc_cm_name R) = Inr cm"
proof -
  let ?g = "GetRule (fst key) (snd key)" and ?c = "GetConfigMap (rc_cm_namespace R) (rc_cm_name R)"
  from calm_start [OF run ob] have coop: "cooperative K" and delay: "delay_passed K R cl"
    and get: "k_get_rule K [] (fst key) (snd key) = Inr ob"
    and s: "run_trace L R key K = ?g # rest \<Longrightarrow> served_calls K [?g] rest cl cl'" for rest by auto
  have "\<exists>rest. run_trace L R key K = ?g # ?c # rest"
  proof -
    from run_trace_some [OF get] obtain b ys us where
      t: "run_trace L R key K = ?g # ys @ us" and p: "body_path K L R (observed ob) [?g] b ys" by metis
    have "ys \<noteq> [ReadClock]" using p st by (auto elim: body_path.cases)
    with path_head [OF p] t show ?thesis by auto
  qed
  with s obtain rest cl0 where t: "run_trace L R key K = ?g # ?c # rest" "served K [?g] ?c cl cl0"
    and rest: "served_calls K [?g, ?c] rest cl0 cl'" by fastforce
  from calm_get_config [OF coop t(2)] have "cl0 = cl" by blast
  with that [OF coop delay get t(1)] rest calm_get_config [OF coop t(2)] show thesis by blast
qed

lemma calm_alive:
  assumes run: "calm_run L R key K cl cl'" and ok: "cluster_ok L R cl" and ob: "cl_rules cl key = Some ob"
    and st: "alive ob" "st_state (mr_status ob) \<noteq> StateUnset"
    and rule: "new_rewrite_rule (owner_id ob) (sp_from (mr_spec ob)) (sp_to (mr_spec ob)) = Inr rule"
    and free: "\<forall>l t. installed L R cl l = Some t \<longrightarrow> l \<noteq> owner_id ob \<longrightarrow> \<not> clash t rule"
  obtains ob' where "cl_rules cl' key = Some ob'" and "alive ob'" and "mr_spec ob' = mr_spec ob"
    and "owner_id ob' = owner_id ob" and "installed L R cl' = (installed L R cl)(owner_id ob \<mapsto> rule)"
    and "st_state (mr_status ob') =
      (if installed L R cl (owner_id ob) = Some rule then StateReady else StateProcessing)"
proof -
  let ?g = "GetRule (fst key) (snd key)" and ?c = "GetConfigMap (rc_cm_namespace R) (rc_cm_name R)"
  obtain rest where coop: "cooperative K" and delay: "delay_passed K R cl"
    and get: "k_get_rule K [] (fst key) (snd key) = Inr ob" and t: "run_trace L R key K = ?g # ?c # rest"
    and rest: "served_calls K [?g, ?c] rest cl cl'"
    and got: "case cl_config cl of None \<Rightarrow> \<exists>e. k_get_config_map K [?g] (rc_cm_namespace R) (rc_cm_name R) = Inl (NotFound e)
      | Some cm \<Rightarrow> k_get_config_map K [?g] (rc_cm_namespace R) (rc_cm_name R) = Inr cm"
    by (rule calm_read [OF run ob st(2)])
  from cluster_ok_rule [OF ok ob] have sa: "stored_as key ob" by simp
  from body_alive [OF coop delay ok sa st refl got rule free] obtain b fs mr' zs ws where
    body: "reconcile_body K L R (observed ob) [?g] = (b, [?g] @ ?c # fs @ zs @ ws)"
    and fin: "finalized K (observed ob) ([?g] @ [?c]) fs mr'"
    and e: "alive_end L R cl (owner_id ob) rule mr' b zs ws" by blast
  from e have zs: "all_silent zs" and b: "be_err b = None" "\<not> be_skip b" "mr_meta (be_rule b) = mr_meta mr'"
    by (simp_all add: alive_end_def)
  note ws = e [unfolded alive_end_def]
  from run_trace_body [OF coop get body [simplified] b(1)] b(2) obtain us where us: "all_silent us"
    and "run_trace L R key K = ?g # (?c # fs @ zs @ ws) @ us @ [UpdateRuleStatus (be_rule b)]" by auto
  with t rest have "served_calls K [?g, ?c] (fs @ zs @ ws @ us @ [UpdateRuleStatus (be_rule b)]) cl cl'"
    by simp
  then obtain cl1 cl2 cl3 where s1: "served_calls K [?g, ?c] fs cl cl1" and "served_calls K ([?g, ?c] @ fs) zs cl1 cl2"
    and s2: "served_calls K ([?g, ?c] @ fs @ zs) ws cl2 cl3"
    and s3: "served_calls K ([?g, ?c] @ fs @ zs @ ws) (us @ [UpdateRuleStatus (be_rule b)]) cl3 cl'"
    by (auto simp: served_calls_append)
  with served_calls_silent [OF zs] have "cl2 = cl1" by blast
  from calm_finalized [OF coop sa ob st(1) fin [simplified] s1] obtain ob1 where
    ob1: "cl_rules cl1 key = Some ob1" "mr_meta mr' = mr_meta ob1" "mr_spec ob1 = mr_spec ob" "stored_as key ob1"
      "owner_id ob1 = owner_id ob" "alive ob1" "cl_config cl1 = cl_config cl" by metis
  then have i1: "installed L R cl1 = installed L R cl" by (simp add: installed_def)
  have "cl_rules cl3 = cl_rules cl1 \<and> installed L R cl3 = (installed L R cl)(owner_id ob \<mapsto> rule)"
  proof (cases "installed L R cl (owner_id ob) = Some rule")
    case True
    with ws s2 \<open>cl2 = cl1\<close> i1 show ?thesis by (simp add: fun_upd_idem)
  next
    case False
    with ws obtain w cm rs where w: "ws = [w]"
      "w = UpdateConfigMap cm \<and> cl_config cl1 \<noteq> None \<or> w = CreateConfigMap cm \<and> cl_config cl1 = None"
      "parse_rewrite_rule_set L (opt_index (cm_data cm) (rc_cm_key R)) = Inr rs"
      "get_rule rs = (installed L R cl)(owner_id ob \<mapsto> rule)" unfolding ob1(7) by (auto split: if_splits)
    with s2 \<open>cl2 = cl1\<close> calm_write [OF coop _ w(2,3)] show ?thesis by auto
  qed
  then have c3: "cl_rules cl3 key = Some ob1" "installed L R cl3 = (installed L R cl)(owner_id ob \<mapsto> rule)"
    using ob1(1) by simp_all
  from calm_status [OF coop _ c3(1) ob1(4) _ us s3] ob1(2,6) b(3) obtain ob' where
    o': "cl_rules cl' key = Some ob'" "mr_status ob' = mr_status (be_rule b)" "mr_spec ob' = mr_spec ob1"
      "owner_id ob' = owner_id ob1" "om_deletion_timestamp (mr_meta ob') = om_deletion_timestamp (mr_meta ob1)"
      "cl_config cl' = cl_config cl3" by metis
  moreover from o'(6) have "installed L R cl' = installed L R cl3" by (simp add: installed_def)
  ultimately show thesis
    using that [of ob'] ob1 c3 ws alive_cong [OF o'(5)] by (simp split: if_splits)
qed

text \<open>The same for a rule that is being deleted and has no foreign finalizers.\<close>

lemma body_dying:
  assumes coop: "cooperative K" and delay: "delay_passed K R cl" and ok: "cluster_ok L R cl"
    and st: "\<not> alive ob" "st_state (mr_status ob) \<noteq> StateUnset"
    and fins: "set (om_finalizers (mr_meta ob)) = {finalizer}"
    and gcm: "gcm = GetConfigMap (rc_cm_namespace R) (rc_cm_name R)"
    and got: "case cl_config cl of None \<Rightarrow> \<exists>e. k_get_config_map K tr (rc_cm_namespace R) (rc_cm_name R) = Inl (NotFound e)
      | Some cm \<Rightarrow> k_get_config_map K tr (rc_cm_namespace R) (rc_cm_name R) = Inr cm"
  shows "\<exists>b. be_err b = None \<and>
    (if installed L R cl (owner_id ob) = None then be_skip b \<and>
       reconcile_body K L R (observed ob) tr = (b, tr @ gcm # [UpdateRule (with_finalizers [] (observed ob))])
     else \<not> be_skip b \<and> mr_meta (be_rule b) = mr_meta ob \<and> st_state (mr_status (be_rule b)) = StateDeleting \<and>
       (\<exists>cm rs. reconcile_body K L R (observed ob) tr = (b, tr @ gcm # [ReadClock, ReadClock] @ [UpdateConfigMap cm]) \<and>
         cl_config cl \<noteq> None \<and>
         parse_rewrite_rule_set L (opt_index (cm_data cm) (rc_cm_key R)) = Inr rs \<and>
         get_rule rs = (installed L R cl)(owner_id ob := None)))"
proof -
  have body: "reconcile_body K L R (observed ob) tr =
      reconcile_deleted K L R (observed ob) (owner_id ob) (cl_config cl) (tr @ [gcm])"
    using st fins by (simp add: body_config [OF coop _ gcm got])
  have clear: ?thesis
    if c: "reconcile_deleted K L R (observed ob) (owner_id ob) (cl_config cl) (tr @ [gcm]) =
        clear_finalizer K L (observed ob) (tr @ [gcm])"
      and "installed L R cl (owner_id ob) = None"
  proof -
    have "(observed ob)\<lparr>mr_meta := (mr_meta (observed ob))\<lparr>om_finalizers :=
        fst (lib_remove_finalizer L (om_finalizers (mr_meta (observed ob))) finalizer)\<rparr>\<rparr> =
        with_finalizers [] (observed ob)"
      using fins by (simp add: with_finalizers_def remove_finalizer_eq filter_empty_conv)
    moreover obtain m' where "k_update_rule K (tr @ [gcm]) (with_finalizers [] (observed ob)) = Inr m'"
      using coop unfolding cooperative_def by blast
    ultimately have "clear_finalizer K L (observed ob) (tr @ [gcm]) = ((ended m' no_result)\<lparr>be_skip := True\<rparr>,
        tr @ gcm # [UpdateRule (with_finalizers [] (observed ob))])"
      using fins by (simp add: clear_finalizer_def contains_iff Let_def)
    with c body that(2) show ?thesis
      by (intro exI [of _ "(ended m' no_result)\<lparr>be_skip := True\<rparr>"]) (simp add: ended_def)
  qed
  show ?thesis
  proof (cases "cl_config cl")
    case None
    with clear installed_None [OF None] show ?thesis by (simp add: reconcile_deleted_def)
  next
    case (Some cm)
    from cluster_ok_config [OF ok Some] obtain rs0 where
      p: "parse_rewrite_rule_set L (opt_index (cm_data cm) (rc_cm_key R)) = Inr rs0"
      and i: "installed L R cl = get_rule rs0" by blast
    from parse_wf [OF p] have wf: "rule_set_wf rs0" .
    then have c: "consistent rs0" by (simp add: rule_set_wf_def)
    obtain ch rs where rm: "remove_rule rs0 (owner_id ob) = (ch, rs)" by fastforce
    from remove_rule_spec [OF c rm] have rs: "get_rule rs = (installed L R cl)(owner_id ob := None)"
      and ch: "ch \<longleftrightarrow> installed L R cl (owner_id ob) \<noteq> None" by (auto simp: i)
    show ?thesis
    proof (cases ch)
      case False
      with clear Some p rm ch show ?thesis by (simp add: reconcile_deleted_def)
    next
      case True
      let ?mr = "set_state (k_now K (tr @ [gcm])) (observed ob) StateDeleting
          ''waiting for masquerading rule to be deleted''"
      let ?cm = "stored_map K L R cm rs (k_now K (tr @ [gcm, ReadClock]))"
      from True Some p rm body update_config_map_calm [OF coop delay Some]
      have "reconcile_body K L R (observed ob) tr = (ended ?mr (requeue_after (seconds 1)),
          tr @ gcm # [ReadClock, ReadClock] @ [UpdateConfigMap ?cm])"
        by (simp add: reconcile_deleted_def set_state_now_def)
      with Some True ch rs stored_map_parse [OF remove_rule_wf [OF wf rm]] show ?thesis
        by (intro exI [of _ "ended ?mr (requeue_after (seconds 1))"]) auto
    qed
  qed
qed

text \<open>The calls of a run for a rule in deletion: the release of its finalizer, or the removal of its rewrite.\<close>

lemma released_served:
  assumes coop: "cooperative K" and sa: "stored_as key ob" and ob: "cl_rules cl key = Some ob" and a: "\<not> alive ob"
    and zs: "all_silent zs"
    and served: "served_calls K tr (UpdateRule (with_finalizers [] (observed ob)) # zs) cl cl'"
  shows "cl_rules cl' key = None"
proof -
  let ?m = "with_finalizers [] (observed ob)"
  from served obtain cl1 where "served K tr (UpdateRule ?m) cl cl1" "served_calls K (tr @ [UpdateRule ?m]) zs cl1 cl'"
    by auto
  with served_calls_silent [OF zs] have u: "served K tr (UpdateRule ?m) cl cl'" by blast
  have key: "(om_namespace (mr_meta ?m), om_name (mr_meta ?m)) = key" using sa by (simp add: stored_as_def)
  then have "cl_rules cl (om_namespace (mr_meta ?m), om_name (mr_meta ?m)) = Some ob" by (simp add: ob)
  from calm_update_rule [OF coop u this] obtain ob' where
    "cl' = put_rule key ob' cl" "om_finalizers (mr_meta ob') = om_finalizers (mr_meta ?m)"
    "om_deletion_timestamp (mr_meta ob') = om_deletion_timestamp (mr_meta ob)" unfolding key by metis
  with a alive_cong [OF this(3)] show ?thesis by simp
qed

lemma removed_served:
  assumes coop: "cooperative K" and ok: "cluster_ok L R cl" and ob: "cl_rules cl key = Some ob"
    and cm: "cl_config cl \<noteq> None" "parse_rewrite_rule_set L (opt_index (cm_data cm) (rc_cm_key R)) = Inr rs"
    and m: "mr_meta m = mr_meta ob" and zs: "all_silent zs"
    and served: "served_calls K tr ([ReadClock, ReadClock] @ UpdateConfigMap cm # zs @ [UpdateRuleStatus m]) cl cl'"
  shows "\<exists>ob'. cl_rules cl' key = Some ob' \<and> (alive ob' \<longleftrightarrow> alive ob) \<and> owner_id ob' = owner_id ob \<and>
    om_finalizers (mr_meta ob') = om_finalizers (mr_meta ob) \<and> mr_status ob' = mr_status m \<and>
    installed L R cl' = get_rule rs"
proof -
  from served obtain cl1 cl2 where c1: "served_calls K tr [ReadClock, ReadClock] cl cl1"
    and w: "served K (tr @ [ReadClock, ReadClock]) (UpdateConfigMap cm) cl1 cl2"
    and s2: "served_calls K (tr @ [ReadClock, ReadClock, UpdateConfigMap cm]) (zs @ [UpdateRuleStatus m]) cl2 cl'"
    unfolding served_calls_append [of K _ "[ReadClock, ReadClock]"] by auto
  from served_calls_silent [OF _ c1] have "cl1 = cl" by simp
  with cm(1) have "UpdateConfigMap cm = UpdateConfigMap cm \<and> cl_config cl1 \<noteq> None \<or>
      UpdateConfigMap cm = CreateConfigMap cm \<and> cl_config cl1 = None" by blast
  note wr = calm_write [OF coop w this cm(2), unfolded \<open>cl1 = cl\<close>]
  have c2: "cl_rules cl2 key = Some ob" by (simp only: wr [THEN conjunct1] ob)
  from cluster_ok_rule [OF ok ob] have "alive ob \<or> om_finalizers (mr_meta ob) \<noteq> []" "stored_as key ob" by auto
  from calm_status [OF coop this(1) c2 this(2) m zs s2] obtain ob' where
    o': "cl_rules cl' key = Some ob'" "mr_status ob' = mr_status m" "owner_id ob' = owner_id ob"
      "om_deletion_timestamp (mr_meta ob') = om_deletion_timestamp (mr_meta ob)"
      "om_finalizers (mr_meta ob') = om_finalizers (mr_meta ob)" "cl_config cl' = cl_config cl2" by metis
  moreover from o'(6) have "installed L R cl' = installed L R cl2" by (simp add: installed_def)
  ultimately show ?thesis using wr alive_cong [OF o'(4)] by simp
qed

lemma calm_dying:
  assumes run: "calm_run L R key K cl cl'" and ok: "cluster_ok L R cl" and ob: "cl_rules cl key = Some ob"
    and st: "\<not> alive ob" "st_state (mr_status ob) \<noteq> StateUnset"
    and fins: "set (om_finalizers (mr_meta ob)) = {finalizer}"
  shows "if installed L R cl (owner_id ob) = None then cl_rules cl' key = None
    else \<exists>ob'. cl_rules cl' key = Some ob' \<and> \<not> alive ob' \<and> owner_id ob' = owner_id ob \<and>
      om_finalizers (mr_meta ob') = om_finalizers (mr_meta ob) \<and>
      st_state (mr_status ob') = StateDeleting \<and> installed L R cl' (owner_id ob) = None"
proof -
  let ?g = "GetRule (fst key) (snd key)" and ?c = "GetConfigMap (rc_cm_namespace R) (rc_cm_name R)"
  obtain rest where coop: "cooperative K" and delay: "delay_passed K R cl"
    and get: "k_get_rule K [] (fst key) (snd key) = Inr ob" and t: "run_trace L R key K = ?g # ?c # rest"
    and rest: "served_calls K [?g, ?c] rest cl cl'"
    and got: "case cl_config cl of None \<Rightarrow> \<exists>e. k_get_config_map K [?g] (rc_cm_namespace R) (rc_cm_name R) = Inl (NotFound e)
      | Some cm \<Rightarrow> k_get_config_map K [?g] (rc_cm_namespace R) (rc_cm_name R) = Inr cm"
    by (rule calm_read [OF run ob st(2)])
  from cluster_ok_rule [OF ok ob] have sa: "stored_as key ob" by simp
  note body = body_dying [OF coop delay ok st fins refl got]
  show ?thesis
  proof (cases "installed L R cl (owner_id ob) = None")
    case True
    let ?m = "with_finalizers [] (observed ob)"
    from body True obtain b where b: "be_err b = None" "be_skip b"
      "reconcile_body K L R (observed ob) [?g] = (b, ?g # ?c # [UpdateRule ?m])" by auto
    from run_trace_body [OF coop get b(3,1)] b(2) obtain zs where zs: "all_silent zs"
      and "run_trace L R key K = ?g # ?c # UpdateRule ?m # zs" by auto
    with t rest have "served_calls K [?g, ?c] (UpdateRule ?m # zs) cl cl'" by simp
    from released_served [OF coop sa ob st(1) zs this] True show ?thesis by simp
  next
    case False
    with body obtain b cm rs where b: "be_err b = None" "\<not> be_skip b" "mr_meta (be_rule b) = mr_meta ob"
      "st_state (mr_status (be_rule b)) = StateDeleting"
      and r: "reconcile_body K L R (observed ob) [?g] = (b, ?g # ?c # [ReadClock, ReadClock, UpdateConfigMap cm])"
      and cm: "cl_config cl \<noteq> None" "parse_rewrite_rule_set L (opt_index (cm_data cm) (rc_cm_key R)) = Inr rs"
        "get_rule rs = (installed L R cl)(owner_id ob := None)" by auto
    from run_trace_body [OF coop get r b(1)] b(2) obtain zs where zs: "all_silent zs"
      and "run_trace L R key K = ?g # ?c # [ReadClock, ReadClock] @ UpdateConfigMap cm # zs @ [UpdateRuleStatus (be_rule b)]"
      by auto
    with t rest have "served_calls K [?g, ?c]
        ([ReadClock, ReadClock] @ UpdateConfigMap cm # zs @ [UpdateRuleStatus (be_rule b)]) cl cl'" by simp
    from removed_served [OF coop ok ob cm(1,2) b(3) zs this] cm(3) b(4) st(1) False show ?thesis by auto
  qed
qed

text \<open>A rule that is gone stays gone.\<close>

lemma calm_gone:
  assumes run: "calm_run L R key K cl cl'" and gone: "cl_rules cl key = None"
  shows "cl_rules cl' key = None"
proof -
  from run have coop: "cooperative K" and s: "served_calls K [] (run_trace L R key K) cl cl'"
    by (simp_all add: calm_run_def)
  show ?thesis
  proof (cases "k_get_rule K [] (fst key) (snd key)")
    case (Inl e)
    from run_trace_none [OF this] s gone show ?thesis by (auto elim: served_get_rule)
  next
    case (Inr mr)
    from run_trace_some [OF Inr] obtain rest where
      "run_trace L R key K = GetRule (fst key) (snd key) # rest" by metis
    with s obtain cl1 where "served K [] (GetRule (fst key) (snd key)) cl cl1" by auto
    with Inr gone show ?thesis by (auto elim: served_get_rule)
  qed
qed

section \<open>Stages\<close>

text \<open>
  The distance to the goal: 3 where nothing is known, 2 once the state is set, 1 once the config map is right,
  0 at the goal.
\<close>

definition ready_stage ::
  "reconciler \<Rightarrow> rule_key \<Rightarrow> masquerading_rule \<Rightarrow> rewrite_rule \<Rightarrow> nat \<Rightarrow> cluster \<Rightarrow> bool"
where
  "ready_stage R key ob0 rule n cl \<longleftrightarrow> cluster_ok L R cl \<and>
     (\<forall>l t. installed L R cl l = Some t \<longrightarrow> l \<noteq> owner_id ob0 \<longrightarrow> \<not> clash t rule) \<and>
     (\<exists>ob. cl_rules cl key = Some ob \<and> alive ob \<and> mr_spec ob = mr_spec ob0 \<and> owner_id ob = owner_id ob0 \<and>
        (n \<le> 2 \<longrightarrow> st_state (mr_status ob) \<noteq> StateUnset) \<and>
        (n \<le> 1 \<longrightarrow> installed L R cl (owner_id ob0) = Some rule) \<and>
        (n = 0 \<longrightarrow> st_state (mr_status ob) = StateReady))"

lemma ready_stage_run:
  assumes rule: "new_rewrite_rule (owner_id ob0) (sp_from (mr_spec ob0)) (sp_to (mr_spec ob0)) = Inr rule"
    and run: "calm_run L R key K cl cl'" and stage: "ready_stage R key ob0 rule n cl"
  shows "ready_stage R key ob0 rule (n - 1) cl'"
proof -
  from stage obtain ob where ok: "cluster_ok L R cl"
    and free: "\<forall>l t. installed L R cl l = Some t \<longrightarrow> l \<noteq> owner_id ob0 \<longrightarrow> \<not> clash t rule"
    and ob: "cl_rules cl key = Some ob" "alive ob" "mr_spec ob = mr_spec ob0" "owner_id ob = owner_id ob0"
    and n: "n \<le> 2 \<longrightarrow> st_state (mr_status ob) \<noteq> StateUnset"
      "n \<le> 1 \<longrightarrow> installed L R cl (owner_id ob0) = Some rule" unfolding ready_stage_def by blast
  note ok' = calm_run_ok [OF ok run]
  show ?thesis
  proof (cases "st_state (mr_status ob) = StateUnset")
    case True
    from calm_unset [OF run ok ob(1) True] obtain ob' where
      o': "cl_rules cl' key = Some ob'" "st_state (mr_status ob') = StateNew" "mr_spec ob' = mr_spec ob"
        "owner_id ob' = owner_id ob" "om_deletion_timestamp (mr_meta ob') = om_deletion_timestamp (mr_meta ob)"
        "cl_config cl' = cl_config cl" by metis
    from o'(6) have "installed L R cl' = installed L R cl" by (simp add: installed_def)
    with o' ob n ok' free True alive_cong [OF o'(5)] show ?thesis by (auto simp: ready_stage_def)
  next
    case False
    from rule ob(3,4) have r: "new_rewrite_rule (owner_id ob) (sp_from (mr_spec ob)) (sp_to (mr_spec ob)) = Inr rule"
      by simp
    from free ob(4) have f: "\<forall>l t. installed L R cl l = Some t \<longrightarrow> l \<noteq> owner_id ob \<longrightarrow> \<not> clash t rule" by simp
    from calm_alive [OF run ok ob(1,2) False r f] obtain ob' where
      o': "cl_rules cl' key = Some ob'" "alive ob'" "mr_spec ob' = mr_spec ob" "owner_id ob' = owner_id ob"
        "installed L R cl' = (installed L R cl)(owner_id ob \<mapsto> rule)"
        "st_state (mr_status ob') =
          (if installed L R cl (owner_id ob) = Some rule then StateReady else StateProcessing)" by metis
    have "\<forall>l t. installed L R cl' l = Some t \<longrightarrow> l \<noteq> owner_id ob0 \<longrightarrow> \<not> clash t rule"
      using free by (simp add: o'(5) ob(4))
    moreover have "n - 1 = 0 \<longrightarrow> st_state (mr_status ob') = StateReady"
      using n(2) o'(6) ob(4) by (cases n) auto
    moreover have "st_state (mr_status ob') \<noteq> StateUnset" using o'(6) by (simp split: if_splits)
    ultimately show ?thesis using ok' o' ob unfolding ready_stage_def by simp
  qed
qed

lemma calm_runs_ready:
  assumes ok: "cluster_ok L R (cl 0)" and ob: "cl_rules (cl 0) key = Some ob" "alive ob"
    and rule: "new_rewrite_rule (owner_id ob) (sp_from (mr_spec ob)) (sp_to (mr_spec ob)) = Inr rule"
    and free: "\<forall>l t. installed L R (cl 0) l = Some t \<longrightarrow> l \<noteq> owner_id ob \<longrightarrow> \<not> clash t rule"
    and runs: "\<forall>i. calm_run L R key (K i) (cl i) (cl (Suc i))"
    and n: "(if st_state (mr_status ob) = StateUnset then 3 else 2) \<le> n"
  shows "installed L R (cl n) (owner_id ob) = Some rule \<and>
    (\<exists>ob'. cl_rules (cl n) key = Some ob' \<and> mr_spec ob' = mr_spec ob \<and> st_state (mr_status ob') = StateReady)"
proof -
  let ?d = "if st_state (mr_status ob) = StateUnset then 3 else 2 :: nat"
  have "ready_stage R key ob rule ?d (cl 0)" using ok ob free unfolding ready_stage_def by auto
  then have "ready_stage R key ob rule (?d - i) (cl i)" for i
  proof (induction i)
    case (Suc i)
    with ready_stage_run [OF rule, of R key "K i" "cl i" "cl (Suc i)" "?d - i"] runs show ?case by simp
  qed simp
  moreover have "?d - n = 0" using n by simp
  ultimately have "ready_stage R key ob rule 0 (cl n)" by metis
  then show ?thesis unfolding ready_stage_def by auto
qed

definition gone_stage ::
  "reconciler \<Rightarrow> rule_key \<Rightarrow> masquerading_rule \<Rightarrow> nat \<Rightarrow> cluster \<Rightarrow> bool"
where
  "gone_stage R key ob0 n cl \<longleftrightarrow> cluster_ok L R cl \<and>
     (cl_rules cl key = None \<or>
      0 < n \<and> (\<exists>ob. cl_rules cl key = Some ob \<and> \<not> alive ob \<and> owner_id ob = owner_id ob0 \<and>
        set (om_finalizers (mr_meta ob)) = {finalizer} \<and>
        (n \<le> 2 \<longrightarrow> st_state (mr_status ob) \<noteq> StateUnset) \<and>
        (n \<le> 1 \<longrightarrow> installed L R cl (owner_id ob0) = None)))"

lemma gone_stage_run:
  assumes run: "calm_run L R key K cl cl'" and stage: "gone_stage R key ob0 n cl"
  shows "gone_stage R key ob0 (n - 1) cl'"
proof -
  from stage have ok: "cluster_ok L R cl" by (simp add: gone_stage_def)
  note ok' = calm_run_ok [OF ok run]
  show ?thesis
  proof (cases "cl_rules cl key = None")
    case True
    from calm_gone [OF run True] ok' show ?thesis by (simp add: gone_stage_def)
  next
    case False
    with stage obtain ob where n: "0 < n" and
      ob: "cl_rules cl key = Some ob" "\<not> alive ob" "owner_id ob = owner_id ob0"
        "set (om_finalizers (mr_meta ob)) = {finalizer}"
      and st: "n \<le> 2 \<longrightarrow> st_state (mr_status ob) \<noteq> StateUnset"
        "n \<le> 1 \<longrightarrow> installed L R cl (owner_id ob0) = None" unfolding gone_stage_def by blast
    show ?thesis
    proof (cases "st_state (mr_status ob) = StateUnset")
      case True
      from calm_unset [OF run ok ob(1) True] obtain ob' where
        o': "cl_rules cl' key = Some ob'" "st_state (mr_status ob') = StateNew" "owner_id ob' = owner_id ob"
          "om_deletion_timestamp (mr_meta ob') = om_deletion_timestamp (mr_meta ob)"
          "om_finalizers (mr_meta ob') = om_finalizers (mr_meta ob)" by metis
      from st(1) True have n2: "2 < n" by (cases "n \<le> 2") simp_all
      then have "0 < n - 1" "\<not> n - 1 \<le> 1" by simp_all
      moreover have "\<not> alive ob'" using alive_cong [OF o'(4)] ob(2) by simp
      moreover have "owner_id ob' = owner_id ob0" by (simp only: o'(3) ob(3))
      moreover have "set (om_finalizers (mr_meta ob')) = {finalizer}" by (simp only: o'(5) ob(4))
      moreover have "st_state (mr_status ob') \<noteq> StateUnset" by (simp add: o'(2))
      ultimately show ?thesis using ok' o'(1) unfolding gone_stage_def by blast
    next
      case False
      note d = calm_dying [OF run ok ob(1,2) False ob(4)]
      show ?thesis
      proof (cases "installed L R cl (owner_id ob) = None")
        case True
        with d ok' show ?thesis unfolding gone_stage_def by simp
      next
        case False
        with st(2) ob(3) have n1: "1 < n" by (cases "n \<le> 1") auto
        from d False obtain ob' where
          o': "cl_rules cl' key = Some ob'" "\<not> alive ob'" "owner_id ob' = owner_id ob"
            "om_finalizers (mr_meta ob') = om_finalizers (mr_meta ob)"
            "st_state (mr_status ob') = StateDeleting" "installed L R cl' (owner_id ob) = None"
          unfolding if_not_P [OF False] by blast
        have "0 < n - 1" using n1 by simp
        moreover have "set (om_finalizers (mr_meta ob')) = {finalizer}" by (simp only: o'(4) ob(4))
        moreover have "st_state (mr_status ob') \<noteq> StateUnset" by (simp add: o'(5))
        moreover have "owner_id ob' = owner_id ob0" by (simp only: o'(3) ob(3))
        moreover have "installed L R cl' (owner_id ob0) = None" using o'(6) by (simp only: ob(3))
        ultimately show ?thesis using ok' o'(1,2) unfolding gone_stage_def by blast
      qed
    qed
  qed
qed

end


section \<open>A concrete calm cluster\<close>

text \<open>The rule of the concrete execution, deleted by a user after it was acquired.\<close>

definition dying_stored :: masquerading_rule where
  "dying_stored = first_stored\<lparr>mr_meta := (mr_meta first_stored)
     \<lparr>om_deletion_timestamp := Some 50, om_resource_version := ''3''\<rparr>\<rparr>"

definition dying_cluster :: cluster where
  "dying_cluster = put_rule demo_key dying_stored acquired_cluster"

definition last_kube :: kube where
  "last_kube = (demo_kube dying_stored (Inl (NotFound '''')))\<lparr>k_update_rule :=
     (\<lambda>tr m. Inr (m\<lparr>mr_meta := (mr_meta m)\<lparr>om_resource_version := ''4''\<rparr>\<rparr>))\<rparr>"

definition idle_kube :: kube where
  "idle_kube = (demo_kube dying_stored (Inl (NotFound '''')))\<lparr>k_get_rule := (\<lambda>tr ns n. Inl (NotFound ''''))\<rparr>"

definition gone_stored :: masquerading_rule where
  "gone_stored = (with_finalizers [] dying_stored)\<lparr>mr_meta := (mr_meta (with_finalizers [] dying_stored))
     \<lparr>om_resource_version := ''4''\<rparr>\<rparr>"

definition gone_cluster :: cluster where
  "gone_cluster = put_rule demo_key gone_stored dying_cluster"

lemma dying_stored_simps [simp]:
  "om_finalizers (mr_meta dying_stored) = [finalizer]" "om_deletion_timestamp (mr_meta dying_stored) = Some 50"
  "version dying_stored = ''3''" "om_namespace (mr_meta dying_stored) = ''ns''" "om_name (mr_meta dying_stored) = ''a''"
  "om_uid (mr_meta dying_stored) = ''3''" "st_state (mr_status other_mr) = StateNew"
  "mr_status dying_stored = mr_status other_mr" "owner_id dying_stored = ''3 (ns/a)''"
  by (simp_all add: dying_stored_def first_stored_def first_update_def other_mr_def demo_mr_def owner_id_def
      observed_def)

lemma dying_cluster_simps [simp]:
  "cl_rules dying_cluster = [demo_key \<mapsto> dying_stored]" "cl_config dying_cluster = None"
  "cl_versions dying_cluster = {''3'', ''2'', ''1''}"
  by (simp_all add: dying_cluster_def put_rule_def acquired_cluster_def)

lemma dying_reachable: "reachable std_lib demo_reconciler (demo_system dying_cluster first_calls)"
proof -
  have "user_step std_lib demo_reconciler demo_key acquired_cluster dying_cluster"
    unfolding dying_cluster_def
    by (rule user_step.delete [where ob = first_stored and v = "''3''" and t = 50 and
          fs = "om_finalizers (mr_meta first_stored)"])
      (simp_all add: acquired_cluster_def first_stored_def deletion_is_zero_def dying_stored_def)
  then have "sys_step std_lib demo_reconciler (demo_system acquired_cluster first_calls) (demo_system dying_cluster first_calls)"
    using sys_step.user [of std_lib demo_reconciler demo_key "demo_system acquired_cluster first_calls"]
    by (simp add: demo_system_def)
  with demo_acquired show ?thesis by (rule reachable.step)
qed

lemma last_cooperative: "cooperative last_kube" "cooperative idle_kube"
  by (simp_all add: cooperative_def last_kube_def idle_kube_def demo_kube_def update_keeps_def)

lemma last_trace: "run_trace std_lib demo_reconciler demo_key last_kube =
  [GetRule ''ns'' ''a'', GetConfigMap ''kube-system'' ''coredns'', UpdateRule (with_finalizers [] (observed dying_stored))]"
  by (simp add: run_trace_def reconcile_defs demo_key_def last_kube_def with_finalizers_def observed_def)

lemma last_run: "calm_run std_lib demo_reconciler demo_key last_kube dying_cluster gone_cluster"
proof -
  have "served last_kube [] (GetRule ''ns'' ''a'') dying_cluster dying_cluster"
    by (rule served.get_rule) (simp add: last_kube_def demo_key_def)
  moreover have "served last_kube [GetRule ''ns'' ''a''] (GetConfigMap ''kube-system'' ''coredns'') dying_cluster dying_cluster"
    by (rule served.get_config) (simp add: last_kube_def)
  moreover have "served last_kube [GetRule ''ns'' ''a'', GetConfigMap ''kube-system'' ''coredns'']
      (UpdateRule (with_finalizers [] (observed dying_stored))) dying_cluster gone_cluster"
    unfolding gone_cluster_def
    by (rule served.update_rule [where ob = dying_stored and v = "''4''"])
      (simp_all add: demo_key_def last_kube_def gone_stored_def with_finalizers_def observed_def)
  ultimately show ?thesis
    by (auto simp: calm_run_def last_cooperative last_trace delay_passed_def)
qed

lemma idle_run: "calm_run std_lib demo_reconciler demo_key idle_kube gone_cluster gone_cluster"
proof -
  have "run_trace std_lib demo_reconciler demo_key idle_kube = [GetRule ''ns'' ''a'']"
    by (simp add: run_trace_def reconcile_defs demo_key_def idle_kube_def)
  moreover have "served idle_kube [] (GetRule ''ns'' ''a'') gone_cluster gone_cluster"
    by (rule served.get_rule)
      (simp add: idle_kube_def gone_cluster_def demo_key_def gone_stored_def deletion_is_zero_def)
  ultimately show ?thesis
    by (simp add: calm_run_def last_cooperative delay_passed_def gone_cluster_def)
qed

section \<open>Properties\<close>

text \<open>
  C34: from any reachable state, three undisturbed runs with successful calls are enough, two if the state of the
  rule was set before: a rule that is accepted and clashes with no other is Ready, with its
  rewrite in the config map, and stays so; and a rule that is being deleted without foreign finalizers is gone, and
  its rewrite with it.
\<close>

theorem reconcile_converges:
  assumes "go_lib L" and "reachable L R s" and "cl 0 = sy_cluster s"
    and "cl_rules (cl 0) key = Some ob"
    and "alive ob \<longrightarrow> new_rewrite_rule (owner_id ob) (sp_from (mr_spec ob)) (sp_to (mr_spec ob)) = Inr rule \<and>
      (\<forall>l t. installed L R (cl 0) l = Some t \<longrightarrow> l \<noteq> owner_id ob \<longrightarrow> \<not> clash t rule)"
    and "\<not> alive ob \<longrightarrow> set (om_finalizers (mr_meta ob)) = {finalizer}"
    and "\<forall>i. calm_run L R key (K i) (cl i) (cl (Suc i))"
    and "(if st_state (mr_status ob) = StateUnset then 3 else 2) \<le> n"
  shows "if alive ob
    then installed L R (cl n) (owner_id ob) = Some rule \<and>
      (\<exists>ob'. cl_rules (cl n) key = Some ob' \<and> mr_spec ob' = mr_spec ob \<and> st_state (mr_status ob') = StateReady)
    else installed L R (cl n) (owner_id ob) = None \<and> cl_rules (cl n) key = None"
proof -
  let ?d = "if st_state (mr_status ob) = StateUnset then 3 else 2 :: nat"
  from go_lib.reachable_ok [OF assms(1,2)] assms(3) have ok: "cluster_ok L R (cl 0)" by (simp add: sys_ok_def)
  have d: "?d - n = 0" using assms(8) by simp
  show ?thesis
  proof (cases "alive ob")
    case True
    with go_lib.calm_runs_ready [OF assms(1) ok assms(4) _ _ _ assms(7,8)] assms(5) show ?thesis by simp
  next
    case False
    with assms(4,6) ok have "go_lib.gone_stage L R key ob ?d (cl 0)"
      unfolding go_lib.gone_stage_def [OF assms(1)] by auto
    then have "go_lib.gone_stage L R key ob (?d - i) (cl i)" for i
    proof (induction i)
      case (Suc i)
      with go_lib.gone_stage_run [OF assms(1), of R key "K i" "cl i" "cl (Suc i)" ob "?d - i"] assms(7)
      show ?case by simp
    qed simp
    from this [of n] have okn: "cluster_ok L R (cl n)" and gone: "cl_rules (cl n) key = None"
      unfolding d go_lib.gone_stage_def [OF assms(1)] by simp_all
    have "installed L R (cl n) (owner_id ob) = None"
    proof (rule ccontr)
      assume "installed L R (cl n) (owner_id ob) \<noteq> None"
      with okn obtain key1 ob1 where o1: "cl_rules (cl n) key1 = Some ob1" "owner_id ob1 = owner_id ob"
        unfolding cluster_ok_def by blast
      from owner_id_inj [of key1 ob1 key ob] cluster_ok_rule [OF okn o1(1)] cluster_ok_rule [OF ok assms(4)] o1(2)
      have "key1 = key" by blast
      with o1(1) gone show False by simp
    qed
    with False gone show ?thesis by simp
  qed
qed

theorem reconcile_converges_witness:
  "cl_rules dying_cluster demo_key = Some dying_stored \<and> cl_rules gone_cluster demo_key = None"
proof -
  let ?K = "\<lambda>i :: nat. if i = 0 then last_kube else idle_kube"
  let ?cl = "\<lambda>i :: nat. if i = 0 then dying_cluster else gone_cluster"
  have "\<forall>i. calm_run std_lib demo_reconciler demo_key (?K i) (?cl i) (?cl (Suc i))"
    using last_run idle_run by simp
  moreover have "\<not> alive dying_stored" by (simp add: deletion_is_zero_def)
  ultimately show ?thesis
    using reconcile_converges [OF std.go_lib_axioms dying_reachable, of ?cl demo_key dying_stored undefined ?K 2]
    by (simp add: demo_system_def)
qed

end
