(* ===== verification/Cluster_Hosts.thy ===== *)
theory Cluster_Hosts
  imports Cluster_Liveness
begin

text \<open>
  From the annotation of an object to the config map: what an undisturbed run of the controllers of services,
  ingresses and gateways leaves in the store, and what the controller of the rules makes of it.
\<close>

section \<open>The store after the loops\<close>

definition live_labelled :: "cluster \<Rightarrow> string \<Rightarrow> string \<Rightarrow> masquerading_rule set" where
  "live_labelled cl ns u = {ob \<in> labelled cl ns u. alive ob}"

definition keyed :: "cluster \<Rightarrow> bool" where
  "keyed cl \<longleftrightarrow> (\<forall>key ob. cl_rules cl key = Some ob \<longrightarrow> (om_namespace (mr_meta ob), om_name (mr_meta ob)) = key)"

lemma keyed_put_rule:
  "keyed cl \<Longrightarrow> (om_namespace (mr_meta ob), om_name (mr_meta ob)) = key \<Longrightarrow> keyed (put_rule key ob cl)"
  by (auto simp: keyed_def)

lemma live_labelled_iff:
  assumes "keyed cl"
  shows "ob \<in> live_labelled cl ns u \<longleftrightarrow> cl_rules cl (ns, om_name (mr_meta ob)) = Some ob \<and> alive ob \<and>
    fmlookup (om_labels (mr_meta ob)) label_controller_uid = Some u"
  using assms by (auto simp: live_labelled_def labelled_def keyed_def)

lemma served_created:
  assumes "served K tr (CreateRule m) cl cl'" and "k_create_rule K tr m = Inr m'"
  obtains key where "cl_rules cl key = None" and "cl' = put_rule key m' cl" and "stored_as key m'" and "alive m'"
    and "fresh_uid cl (uid m')" and "mr_spec m' = mr_spec m" and "om_labels (mr_meta m') = om_labels (mr_meta m)"
    and "om_namespace (mr_meta m') = om_namespace (mr_meta m)"
  using assms(1)
proof cases
  case (create_rule ob n u v g key)
  with assms(2) have "m' = ob" by simp
  with create_rule that [of key] show thesis by (simp add: created_as_def uid_def)
qed (use assms(2) in auto)

lemma dependent_rule_meta:
  "om_namespace (mr_meta (dependent_rule obj to h)) = om_namespace (so_meta obj)"
  "fmlookup (om_labels (mr_meta (dependent_rule obj to h))) label_controller_uid = Some (om_uid (so_meta obj))"
  by (simp_all add: dependent_rule_def build_masquerading_rule_def label_controller_uid_def label_controller_group_def
      label_controller_version_def label_controller_kind_def label_controller_name_def)

text \<open>A create adds one rule, with its host and target, and touches no other.\<close>

lemma created_dependent:
  assumes "served K tr (CreateRule (dependent_rule obj to h)) cl cl'"
    and "k_create_rule K tr (dependent_rule obj to h) = Inr m" and "keyed cl"
    and "ns = om_namespace (so_meta obj)" and "u = om_uid (so_meta obj)"
  shows "live_labelled cl' ns u = insert m (live_labelled cl ns u)" and "keyed cl'"
    and "\<forall>key ob. cl_rules cl key = Some ob \<longrightarrow> cl_rules cl' key = Some ob"
    and "fresh_uid cl (uid m)" and "mr_spec m = \<lparr>sp_from = h, sp_to = to\<rparr>"
proof -
  from served_created [OF assms(1,2)] obtain key where key: "cl_rules cl key = None" "cl' = put_rule key m cl"
    "stored_as key m" "alive m" "fresh_uid cl (uid m)" "mr_spec m = mr_spec (dependent_rule obj to h)"
    "om_labels (mr_meta m) = om_labels (mr_meta (dependent_rule obj to h))"
    "om_namespace (mr_meta m) = om_namespace (mr_meta (dependent_rule obj to h))" by blast
  from key(3) have k: "(om_namespace (mr_meta m), om_name (mr_meta m)) = key" by (simp add: stored_as_def)
  show cl': "keyed cl'" unfolding key(2) by (rule keyed_put_rule [OF assms(3) k])
  have ns: "key = (ns, om_name (mr_meta m))" using k key(8) by (simp add: dependent_rule_meta assms(4))
  show "live_labelled cl' ns u = insert m (live_labelled cl ns u)"
  proof (rule set_eqI)
    fix ob
    show "ob \<in> live_labelled cl' ns u \<longleftrightarrow> ob \<in> insert m (live_labelled cl ns u)"
      using key(1,4,7) dependent_rule_meta(2) [of obj to h]
      unfolding insert_iff live_labelled_iff [OF cl'] live_labelled_iff [OF assms(3)]
      by (auto simp: key(2) ns assms(5))
  qed
  show "\<forall>key ob. cl_rules cl key = Some ob \<longrightarrow> cl_rules cl' key = Some ob" using key(1) by (auto simp: key(2))
  show "fresh_uid cl (uid m)" "mr_spec m = \<lparr>sp_from = h, sp_to = to\<rparr>" using key(5,6) by simp_all
qed

lemma create_loop_store:
  assumes "create_loop K obj to items hosts kept n tr = (Inr (kept', n'), tr @ cs)" and "served_calls K tr cs cl cl'"
    and "keyed cl" and "ns = om_namespace (so_meta obj)" and "u = om_uid (so_meta obj)"
  shows "\<exists>news. live_labelled cl' ns u = live_labelled cl ns u \<union> set news \<and> keyed cl' \<and>
    set kept' = set kept \<union> {m. wanted to items hosts m} \<union> set news \<and>
    map mr_spec news = map (\<lambda>h. \<lparr>sp_from = h, sp_to = to\<rparr>) (missing_hosts to items hosts) \<and>
    (\<forall>key ob. cl_rules cl key = Some ob \<longrightarrow> cl_rules cl' key = Some ob) \<and> (\<forall>m \<in> set news. fresh_uid cl (uid m))"
  using assms(1-3)
proof (induction hosts arbitrary: kept n tr cs cl)
  case Nil
  then show ?case by (auto simp: wanted_def missing_hosts_def)
next
  case (Cons h hs)
  show ?case
  proof (cases "find (matching_rule h to) items")
    case (Some m)
    with Cons.prems(1) have "create_loop K obj to items hs (kept @ [m]) n tr = (Inr (kept', n'), tr @ cs)" by simp
    from Cons.IH [OF this Cons.prems(2,3)] Some show ?thesis
      by (auto simp: wanted_def missing_hosts_Cons)
  next
    case None
    let ?r = "dependent_rule obj to h"
    from Cons.prems(1) None obtain m where m: "k_create_rule K tr ?r = Inr m"
      and l: "create_loop K obj to items hs (kept @ [m]) (n + 1) (tr @ [CreateRule ?r]) = (Inr (kept', n'), tr @ cs)"
      by (auto simp: dependent_rule_def Let_def split: sum.splits)
    from create_loop_calls [OF l] obtain ks where cs: "cs = CreateRule ?r # ks" by auto
    with Cons.prems(2) obtain cl1 where s: "served K tr (CreateRule ?r) cl cl1"
      "served_calls K (tr @ [CreateRule ?r]) ks cl1 cl'" by auto
    note c = created_dependent [OF s(1) m Cons.prems(3) assms(4,5)]
    from l cs have "create_loop K obj to items hs (kept @ [m]) (n + 1) (tr @ [CreateRule ?r]) =
        (Inr (kept', n'), (tr @ [CreateRule ?r]) @ ks)" by simp
    from Cons.IH [OF this s(2) c(2)] obtain news where n:
      "live_labelled cl' ns u = live_labelled cl1 ns u \<union> set news" "keyed cl'"
      "set kept' = set (kept @ [m]) \<union> {m. wanted to items hs m} \<union> set news"
      "map mr_spec news = map (\<lambda>h. \<lparr>sp_from = h, sp_to = to\<rparr>) (missing_hosts to items hs)"
      "\<forall>key ob. cl_rules cl1 key = Some ob \<longrightarrow> cl_rules cl' key = Some ob" "\<forall>m \<in> set news. fresh_uid cl1 (uid m)"
      by blast
    have w: "wanted to items (h # hs) = wanted to items hs" using None by (auto simp: wanted_def fun_eq_iff)
    have f: "\<forall>x \<in> set news. fresh_uid cl (uid x)" using n(6) c(3) unfolding fresh_uid_def by blast
    show ?thesis
    proof (intro exI [of _ "m # news"] conjI)
      show "\<forall>key ob. cl_rules cl key = Some ob \<longrightarrow> cl_rules cl' key = Some ob" using n(5) c(3) by blast
    qed (use n c f w None in \<open>auto simp: missing_hosts_Cons\<close>)
  qed
qed


text \<open>A delete takes one rule from the live ones.\<close>

lemma deleted_dependent:
  assumes "served K tr (DeleteRule m) cl cl'" and "k_delete_rule K tr m = None" and k: "keyed cl"
    and m: "cl_rules cl (om_namespace (mr_meta m), om_name (mr_meta m)) = Some m" "alive m"
  shows "live_labelled cl' ns u = live_labelled cl ns u - {m}" and "keyed cl'"
    and "\<forall>ob. ob \<noteq> m \<longrightarrow> cl_rules cl (om_namespace (mr_meta ob), om_name (mr_meta ob)) = Some ob \<longrightarrow>
      cl_rules cl' (om_namespace (mr_meta ob), om_name (mr_meta ob)) = Some ob"
proof -
  let ?key = "(om_namespace (mr_meta m), om_name (mr_meta m))"
  from assms(1) obtain ob' where cl': "cl' = put_rule ?key ob' cl" and dead: "\<not> alive ob'"
    and ob': "(om_namespace (mr_meta ob'), om_name (mr_meta ob')) = ?key"
  proof cases
    case (delete_rule key ob v fs ob' t)
    with m(1) that [of ob'] show thesis by (auto simp: deletion_is_zero_def)
  qed (use assms(2) m in auto)
  show k': "keyed cl'" unfolding cl' by (rule keyed_put_rule [OF k ob'])
  have new: "cl_rules cl' key = (if key = ?key then (if om_finalizers (mr_meta ob') \<noteq> [] then Some ob' else None)
      else cl_rules cl key)" for key using dead by (simp add: cl')
  show "live_labelled cl' ns u = live_labelled cl ns u - {m}"
  proof (rule set_eqI)
    fix ob
    show "ob \<in> live_labelled cl' ns u \<longleftrightarrow> ob \<in> live_labelled cl ns u - {m}"
    proof (cases "(ns, om_name (mr_meta ob)) = ?key")
      case True
      with m(1) have "cl_rules cl (ns, om_name (mr_meta ob)) = Some m" by simp
      moreover from True have "cl_rules cl' (ns, om_name (mr_meta ob)) = Some ob \<longrightarrow> ob = ob'" unfolding new by auto
      ultimately show ?thesis
        using dead unfolding Diff_iff live_labelled_iff [OF k'] live_labelled_iff [OF k] by auto
    next
      case False
      then have s: "cl_rules cl' (ns, om_name (mr_meta ob)) = cl_rules cl (ns, om_name (mr_meta ob))" by (simp only: new if_False)
      have "ob \<noteq> m" if "cl_rules cl (ns, om_name (mr_meta ob)) = Some ob"
      proof
        assume "ob = m"
        with that k have "ns = om_namespace (mr_meta m)" unfolding keyed_def by (metis prod.inject)
        with False \<open>ob = m\<close> show False by simp
      qed
      with s show ?thesis unfolding Diff_iff live_labelled_iff [OF k'] live_labelled_iff [OF k] by auto
    qed
  qed
  show "\<forall>ob. ob \<noteq> m \<longrightarrow> cl_rules cl (om_namespace (mr_meta ob), om_name (mr_meta ob)) = Some ob \<longrightarrow>
      cl_rules cl' (om_namespace (mr_meta ob), om_name (mr_meta ob)) = Some ob"
    using m(1) by (auto simp: cl')
qed

lemma delete_loop_store:
  assumes "delete_loop K kept items n tr = (Inr n', tr @ cs)" and "served_calls K tr cs cl cl'"
    and "keyed cl" and "distinct items"
    and "\<forall>m \<in> set items. cl_rules cl (om_namespace (mr_meta m), om_name (mr_meta m)) = Some m"
  shows "live_labelled cl' ns u = live_labelled cl ns u - {m \<in> set items. unkept kept m} \<and> keyed cl'"
  using assms
proof (induction items arbitrary: n tr cs cl)
  case (Cons m items)
  have u: "(\<exists>k \<in> set kept. om_uid (mr_meta k) = om_uid (mr_meta m)) \<longleftrightarrow> \<not> unkept kept m"
    unfolding unkept_def uid_def image_iff by metis
  show ?case
  proof (cases "unkept kept m \<and> alive m")
    case False
    with Cons.prems(1) u obtain n1 where "delete_loop K kept items n1 tr = (Inr n', tr @ cs)" by (auto split: if_splits)
    with Cons.IH [OF this Cons.prems(2,3)] Cons.prems(4,5) have
      "live_labelled cl' ns u = live_labelled cl ns u - {m \<in> set items. unkept kept m} \<and> keyed cl'" by simp
    with False show ?thesis by (auto simp: live_labelled_def)
  next
    case True
    from Cons.prems(1) u True have d: "k_delete_rule K tr m = None"
      and l: "delete_loop K kept items (n - 1) (tr @ [DeleteRule m]) = (Inr n', tr @ cs)"
      by (auto split: option.splits)
    from delete_loop_calls [OF l] obtain ds where cs: "cs = DeleteRule m # ds" by auto
    with Cons.prems(2) obtain cl1 where s: "served K tr (DeleteRule m) cl cl1"
      "served_calls K (tr @ [DeleteRule m]) ds cl1 cl'" by auto
    from Cons.prems(5) True have m: "cl_rules cl (om_namespace (mr_meta m), om_name (mr_meta m)) = Some m" "alive m" by simp_all
    note c = deleted_dependent [OF s(1) d Cons.prems(3) m]
    from l cs have l': "delete_loop K kept items (n - 1) (tr @ [DeleteRule m]) = (Inr n', (tr @ [DeleteRule m]) @ ds)" by simp
    have "\<forall>m' \<in> set items. cl_rules cl1 (om_namespace (mr_meta m'), om_name (mr_meta m')) = Some m'"
      using Cons.prems(4,5) c(3) by auto
    with Cons.IH [OF l' s(2) c(2)] Cons.prems(4) have
      "live_labelled cl' ns u = live_labelled cl1 ns u - {m \<in> set items. unkept kept m} \<and> keyed cl'" by simp
    with c(1) [of ns u] True show ?thesis by auto
  qed
qed simp

section \<open>The store after a run\<close>

lemma source_calls_silent:
  "served K tr (GetSource ns n) cl cl' \<Longrightarrow> cl' = cl" "served K tr (UpdateSource obj) cl cl' \<Longrightarrow> cl' = cl"
  "served K tr (ListRules ns u) cl cl' \<Longrightarrow> cl' = cl"
  by (auto elim: served_source)

lemma update_source_calls:
  assumes "fs = [] \<or> (\<exists>s. fs = [UpdateSource s])" and "served_calls K tr fs cl cl'"
  shows "cl' = cl"
  using assms by (auto dest: source_calls_silent)


lemma kept_uids:
  assumes "distinct (map uid items)" and "m \<in> set items" and "\<forall>x \<in> set news. uid x \<noteq> uid m"
  shows "uid m \<in> uid ` ({x. wanted to items hosts x} \<union> set news) \<longleftrightarrow> wanted to items hosts m"
proof
  assume "uid m \<in> uid ` ({x. wanted to items hosts x} \<union> set news)"
  with assms(3) obtain x where x: "wanted to items hosts x" "uid x = uid m" by auto
  then have "x \<in> set items" using find_matching_Some by (auto simp: wanted_def)
  with assms(1,2) x(2) have "x = m" by (auto simp: distinct_map dest: inj_onD)
  with x(1) show "wanted to items hosts m" by simp
qed blast

text \<open>
  What is left of the dependents, given those that were there and the rules that are wanted: at most one per rule, and no other; one
  is missing only where a match was being deleted, and it is missing where all matches were.
\<close>

definition leaves :: "masquerading_rule set \<Rightarrow> rule_spec set \<Rightarrow> masquerading_rule set \<Rightarrow> bool" where
  "leaves before specs after \<longleftrightarrow> inj_on mr_spec after \<and> mr_spec ` after \<subseteq> specs \<and>
     (\<forall>sp \<in> specs - mr_spec ` after. \<exists>ob \<in> before. mr_spec ob = sp \<and> \<not> alive ob) \<and>
     (\<forall>sp \<in> mr_spec ` before. (\<forall>ob \<in> before. mr_spec ob = sp \<longrightarrow> \<not> alive ob) \<longrightarrow> sp \<notin> mr_spec ` after)"

lemma leavesI:
  assumes hosts: "distinct hosts" and items: "distinct (map uid items)"
    and after: "after = {m \<in> set items. wanted to items hosts m \<and> alive m} \<union> set news"
    and news: "map mr_spec news = map (\<lambda>h. \<lparr>sp_from = h, sp_to = to\<rparr>) (missing_hosts to items hosts)"
  shows "leaves (set items) ((\<lambda>h. \<lparr>sp_from = h, sp_to = to\<rparr>) ` set hosts) after"
proof -
  let ?spec = "\<lambda>h. \<lparr>sp_from = h, sp_to = to\<rparr>" and ?ws = "filter (wanted to items hosts) items"
  have "map mr_spec (?ws @ news) = map mr_spec (?ws @ map (dependent_rule obj to) (missing_hosts to items hosts))" for obj
    by (simp add: news dependent_rule_def build_masquerading_rule_def)
  with wanted_and_missing [OF items hosts, of to] have d: "distinct (map mr_spec (?ws @ news))"
    and s: "set (map mr_spec (?ws @ news)) = ?spec ` set hosts" by metis+
  from d have inj: "inj_on mr_spec (set (?ws @ news))" unfolding distinct_map by blast
  have sub: "after \<subseteq> set (?ws @ news)" by (auto simp: after)
  have missing: "\<exists>ob \<in> set items. mr_spec ob = sp \<and> \<not> alive ob" if "sp \<in> ?spec ` set hosts - mr_spec ` after" for sp
  proof -
    from that have "sp \<in> mr_spec ` set (?ws @ news)" unfolding s [symmetric] set_map by blast
    then obtain m where m: "m \<in> set (?ws @ news)" "mr_spec m = sp" by blast
    moreover from m(2) that have "m \<notin> after" by blast
    ultimately show ?thesis by (auto simp: after)
  qed
  have dying: "sp \<notin> mr_spec ` after" if "ob \<in> set items" "mr_spec ob = sp" "\<forall>ob \<in> set items. mr_spec ob = sp \<longrightarrow> \<not> alive ob" for sp ob
  proof
    assume "sp \<in> mr_spec ` after"
    with that(3) obtain m where "m \<in> set news" "mr_spec m = sp" by (auto simp: after)
    then have "sp \<in> set (map mr_spec news)" by auto
    then obtain h where "find (matching_rule h to) items = None" "sp = ?spec h" unfolding news by (auto simp: missing_hosts_def)
    with that(1,2) have "matching_rule h to ob" by (simp add: matching_rule_def)
    with \<open>find (matching_rule h to) items = None\<close> that(1) show False by (auto simp: find_None_iff)
  qed
  have "mr_spec ` after \<subseteq> ?spec ` set hosts" using sub unfolding s [symmetric] set_map by (rule image_mono)
  moreover have "inj_on mr_spec after" by (rule inj_on_subset [OF inj sub])
  moreover have "\<forall>sp \<in> ?spec ` set hosts - mr_spec ` after. \<exists>ob \<in> set items. mr_spec ob = sp \<and> \<not> alive ob"
    using missing by (rule ballI)
  moreover have "\<forall>sp \<in> mr_spec ` set items. (\<forall>ob \<in> set items. mr_spec ob = sp \<longrightarrow> \<not> alive ob) \<longrightarrow> sp \<notin> mr_spec ` after"
    using dying by (auto simp only: ball_simps)
  ultimately show ?thesis unfolding leaves_def by (intro conjI)
qed

context go_lib
begin

text \<open>The finalizer update leaves the identity of the object alone.\<close>

lemma update_source_ids:
  assumes "ensure_finalizer K L obj tr = (Inr obj1, tr1)" and "tr1 = tr @ fs" and "served_calls K tr fs cl cl'"
  shows "om_namespace (so_meta obj1) = om_namespace (so_meta obj)" and "om_uid (so_meta obj1) = om_uid (so_meta obj)"
proof -
  show "om_namespace (so_meta obj1) = om_namespace (so_meta obj)" and "om_uid (so_meta obj1) = om_uid (so_meta obj)"
    using assms by (auto simp: ensure_finalizer_def Let_def split: prod.splits if_splits sum.splits elim!: served_source)
qed

lemma manage_store:
  assumes run: "manage_dependents K L obj hosts tr0 = (None, tr0 @ cs)" and served: "served_calls K tr0 cs cl cl'"
    and live: "deletion_is_zero (so_meta obj)" and to: "masquerade_to (so_meta obj) = to" "to \<noteq> ''''"
    and ids: "ns = om_namespace (so_meta obj)" "u = om_uid (so_meta obj)"
    and cl: "keyed cl" "unique_uids cl" and hosts: "distinct hosts"
  shows "leaves (labelled cl ns u) ((\<lambda>h. \<lparr>sp_from = h, sp_to = to\<rparr>) ` set hosts) (live_labelled cl' ns u)"
proof -
  let ?l = "ListRules ns u"
  obtain items where items: "k_list_rules K tr0 ns u = Inr items"
    using run by (cases "k_list_rules K tr0 ns u") (auto simp: manage_dependents_def Let_def ids)
  from manage_wanted [OF items [unfolded ids] live, of L hosts] run obtain obj1 n3 tr3 where
    l: "manage_live K L obj hosts items (tr0 @ [?l]) = (Inr (obj1, n3), tr3)"
    and d: "(if n3 = 0 then drop_finalizer K L obj1 tr3 else (None, tr3)) = (None, tr0 @ cs)"
    by (auto simp: ids split: sum.splits prod.splits)
  from l to obtain tr1 kept n2 tr2 where e: "ensure_finalizer K L obj (tr0 @ [?l]) = (Inr obj1, tr1)"
    and c: "create_loop K obj1 to items hosts [] (int (length items)) tr1 = (Inr (kept, n2), tr2)"
    and dl: "delete_loop K kept items n2 tr2 = (Inr n3, tr3)"
    by (auto simp: manage_live_def Let_def split: sum.splits prod.splits)
  from ensure_finalizer_spec [OF e] obtain fs where tr1: "tr1 = tr0 @ [?l] @ fs"
    and fs: "fs = [] \<and> obj1 = obj \<or> (\<exists>o1. fs = [UpdateSource o1] \<and> k_update_source K (tr0 @ [?l]) o1 = Inr obj1)"
    by auto
  from create_loop_calls [OF c] obtain c1 where tr2: "tr2 = tr1 @ c1" by blast
  from delete_loop_calls [OF dl] obtain c2 where tr3: "tr3 = tr2 @ c2" by blast
  from d drop_finalizer_spec [of K obj1 tr3 None "tr0 @ cs"] obtain us where
    us: "tr0 @ cs = tr3 @ us" "us = [] \<or> (\<exists>s. us = [UpdateSource s])" by (auto split: if_splits)
  with tr1 tr2 tr3 have cs: "cs = [?l] @ fs @ c1 @ c2 @ us" by simp
  from served [unfolded cs served_calls_append] obtain k1 k2 k3 k4 where
    s: "served_calls K tr0 [?l] cl k1" "served_calls K (tr0 @ [?l]) fs k1 k2"
      "served_calls K ((tr0 @ [?l]) @ fs) c1 k2 k3" "served_calls K (((tr0 @ [?l]) @ fs) @ c1) c2 k3 k4"
      "served_calls K ((((tr0 @ [?l]) @ fs) @ c1) @ c2) us k4 cl'" by blast
  from fs update_source_calls [OF _ s(2)] update_source_calls [OF us(2) s(5)] source_calls_silent(3) s(1)
  have k: "k1 = cl" "k2 = cl" "cl' = k4" by auto
  from s(1) items have it: "distinct items" "set items = labelled cl ns u" by (auto elim: served_source)
  have ids1: "ns = om_namespace (so_meta obj1)" "u = om_uid (so_meta obj1)"
    using update_source_ids [OF e _ s(2)] tr1 ids by simp_all
  from c tr1 tr2 have "create_loop K obj1 to items hosts [] (int (length items)) ((tr0 @ [?l]) @ fs) =
      (Inr (kept, n2), ((tr0 @ [?l]) @ fs) @ c1)" by simp
  from create_loop_store [OF this s(3) [unfolded k(2)] cl(1) ids1] obtain news where
    n: "live_labelled k3 ns u = live_labelled cl ns u \<union> set news" "keyed k3"
      "set kept = {m. wanted to items hosts m} \<union> set news"
      "map mr_spec news = map (\<lambda>h. \<lparr>sp_from = h, sp_to = to\<rparr>) (missing_hosts to items hosts)"
      "\<forall>key ob. cl_rules cl key = Some ob \<longrightarrow> cl_rules k3 key = Some ob" "\<forall>m \<in> set news. fresh_uid cl (uid m)" by auto
  have in_cl: "cl_rules cl (om_namespace (mr_meta m), om_name (mr_meta m)) = Some m" if "m \<in> set items" for m
    using that cl(1) unfolding it labelled_def keyed_def by auto
  with n(5) have in_k3: "\<forall>m \<in> set items. cl_rules k3 (om_namespace (mr_meta m), om_name (mr_meta m)) = Some m"
    by blast
  from dl tr1 tr2 tr3 have "delete_loop K kept items n2 (((tr0 @ [?l]) @ fs) @ c1) =
      (Inr n3, (((tr0 @ [?l]) @ fs) @ c1) @ c2)" by simp
  from delete_loop_store [OF this s(4) n(2) it(1) in_k3, of ns u] k(3)
  have after: "live_labelled cl' ns u = {m \<in> set items. alive m} \<union> set news - {m \<in> set items. unkept kept m}"
    using n(1) it(2) by (simp add: live_labelled_def)
  have old: "fresh_uid cl (uid m) \<Longrightarrow> m \<notin> set items" for m using in_cl unfolding fresh_uid_def uid_def by blast
  have d: "distinct (map uid items)"
    unfolding distinct_map
  proof (intro conjI inj_onI it(1))
    fix x y assume "x \<in> set items" "y \<in> set items" "uid x = uid y"
    with in_cl [of x] in_cl [of y] cl(2) show "x = y" unfolding unique_uids_def uid_def by (metis option.inject)
  qed
  have w: "unkept kept m \<longleftrightarrow> \<not> wanted to items hosts m" if m: "m \<in> set items" for m
  proof -
    have "\<forall>x \<in> set news. uid x \<noteq> uid m"
    proof
      fix x assume "x \<in> set news"
      with n(6) have "fresh_uid cl (uid x)" by blast
      with in_cl [OF m] show "uid x \<noteq> uid m" unfolding fresh_uid_def uid_def by metis
    qed
    from kept_uids [OF d m this, of to hosts] show ?thesis by (simp only: unkept_def n(3))
  qed
  have "live_labelled cl' ns u = {m \<in> set items. wanted to items hosts m \<and> alive m} \<union> set news"
    unfolding after using w old n(6) by auto
  from leavesI [OF hosts d this n(4)] show ?thesis by (simp only: it(2))
qed

end

section \<open>The wanted rules\<close>

text \<open>What a run hands to \<open>manage_dependents\<close>: the object and its hosts.\<close>

fun source_wants :: "lib \<Rightarrow> source_job \<Rightarrow> (source_object \<times> string list) option" where
  "source_wants L (Service_Job ns n (Inr service)) =
     Some (service\<lparr>so_meta := default_service_target (so_meta service)\<rparr>,
       get_hosts_from_service L (default_service_target (so_meta service)))"
| "source_wants L (Ingress_Job ns n (Inr (ingress, rules))) = Some (ingress, get_hosts_from_ingress L rules)"
| "source_wants L (Gateway_Job ns n (Inr (gateway, servers))) = Some (gateway, get_hosts_from_gateway L servers)"
| "source_wants L job = None"

fun job_read :: "source_job \<Rightarrow> api_call" where
  "job_read (Service_Job ns n got) = GetSource ns n"
| "job_read (Ingress_Job ns n got) = GetSource ns n"
| "job_read (Gateway_Job ns n got) = GetSource ns n"

text \<open>The rules that should be there: one for each host, none without a target or in deletion.\<close>

definition wanted_specs :: "source_object \<Rightarrow> string list \<Rightarrow> rule_spec set" where
  "wanted_specs obj hosts =
     (if deletion_is_zero (so_meta obj) \<and> masquerade_to (so_meta obj) \<noteq> ''''
      then (\<lambda>h. \<lparr>sp_from = h, sp_to = masquerade_to (so_meta obj)\<rparr>) ` set hosts else {})"

context go_lib
begin

lemma source_wants_run:
  "source_wants L job = Some (obj, hosts) \<Longrightarrow>
    distinct hosts \<and> reconcile_source K L job = manage_dependents K L obj hosts [job_read job]"
proof (induction job)
  case (Service_Job ns n got)
  then show ?case by (cases got) (auto simp: reconcile_service_def Let_def get_hosts_from_service_def keys_distinct)
next
  case (Ingress_Job ns n got)
  then show ?case by (cases got) (auto simp: reconcile_ingress_def Let_def get_hosts_from_ingress_def keys_distinct)
next
  case (Gateway_Job ns n got)
  then show ?case by (cases got) (auto simp: reconcile_gateway_def Let_def get_hosts_from_gateway_def keys_distinct)
qed

lemma manage_prefix:
  assumes "manage_dependents K L obj hosts tr0 = (None, tr)"
  shows "\<exists>ds. tr = tr0 @ ds"
proof -
  obtain items where items: "k_list_rules K tr0 (om_namespace (so_meta obj)) (om_uid (so_meta obj)) = Inr items"
    using assms by (cases "k_list_rules K tr0 (om_namespace (so_meta obj)) (om_uid (so_meta obj))")
      (auto simp: manage_dependents_def Let_def)
  show ?thesis
  proof (cases "deletion_is_zero (so_meta obj) \<and> masquerade_to (so_meta obj) \<noteq> ''''")
    case True
    with manage_wanted_calls [OF items _ refl _ assms] show ?thesis by auto
  next
    case False
    let ?tr1 = "tr0 @ [ListRules (om_namespace (so_meta obj)) (om_uid (so_meta obj))]"
    have no: "\<not> deletion_is_zero (so_meta obj) \<or> masquerade_to (so_meta obj) = ''''" using False by simp
    from assms [unfolded manage_unwanted [OF items no]] obtain n tr3 where
      dl: "delete_loop K [] items (int (length items)) ?tr1 = (Inr n, tr3)"
      and d: "(if n = 0 then drop_finalizer K L obj tr3 else (None, tr3)) = (None, tr)"
      by (auto split: sum.splits prod.splits)
    from delete_loop_calls [OF dl] d drop_finalizer_spec [of K obj tr3 None tr] show ?thesis
      by (auto split: if_splits)
  qed
qed

lemma unwanted_store:
  assumes run: "manage_dependents K L obj hosts tr0 = (None, tr0 @ cs)" and served: "served_calls K tr0 cs cl cl'"
    and no: "\<not> deletion_is_zero (so_meta obj) \<or> masquerade_to (so_meta obj) = ''''"
    and ids: "ns = om_namespace (so_meta obj)" "u = om_uid (so_meta obj)" and cl: "keyed cl"
  shows "live_labelled cl' ns u = {}"
proof -
  let ?l = "ListRules ns u"
  obtain items where items: "k_list_rules K tr0 ns u = Inr items"
    using run by (cases "k_list_rules K tr0 ns u") (auto simp: manage_dependents_def Let_def ids)
  from manage_unwanted [OF items [unfolded ids] no, of L hosts] run obtain n tr3 where
    dl: "delete_loop K [] items (int (length items)) (tr0 @ [?l]) = (Inr n, tr3)"
    and d: "(if n = 0 then drop_finalizer K L obj tr3 else (None, tr3)) = (None, tr0 @ cs)"
    by (auto simp: ids split: sum.splits prod.splits)
  from delete_loop_calls [OF dl] obtain c2 where tr3: "tr3 = (tr0 @ [?l]) @ c2" by blast
  from d drop_finalizer_spec [of K obj tr3 None "tr0 @ cs"] obtain us where
    us: "tr0 @ cs = tr3 @ us" "us = [] \<or> (\<exists>s. us = [UpdateSource s])" by (auto split: if_splits)
  with tr3 have cs: "cs = [?l] @ c2 @ us" by simp
  from served [unfolded cs served_calls_append] obtain k1 k2 where
    s: "served_calls K tr0 [?l] cl k1" "served_calls K (tr0 @ [?l]) c2 k1 k2"
      "served_calls K ((tr0 @ [?l]) @ c2) us k2 cl'" by blast
  from update_source_calls [OF us(2) s(3)] source_calls_silent(3) s(1) have k: "k1 = cl" "cl' = k2" by auto
  from s(1) items have it: "distinct items" "set items = labelled cl ns u" by (auto elim: served_source)
  have "\<forall>m \<in> set items. cl_rules cl (om_namespace (mr_meta m), om_name (mr_meta m)) = Some m"
    using cl unfolding it labelled_def keyed_def by auto
  from delete_loop_store [OF dl [unfolded tr3] s(2) [unfolded k(1)] cl it(1) this, of ns u] it(2) k(2)
  show ?thesis by (auto simp: live_labelled_def unkept_def)
qed

text \<open>What a run without error leaves in the store.\<close>

lemma source_store:
  assumes run: "reconcile_source K L job = (None, cs)" and wants: "source_wants L job = Some (obj, hosts)"
    and served: "served_calls K [] cs cl cl'"
    and ids: "ns = om_namespace (so_meta obj)" "u = om_uid (so_meta obj)"
    and cl: "keyed cl" "unique_uids cl"
  shows "leaves (labelled cl ns u) (wanted_specs obj hosts) (live_labelled cl' ns u)"
proof -
  from source_wants_run [OF wants, of K] run have hosts: "distinct hosts"
    and m: "manage_dependents K L obj hosts [job_read job] = (None, cs)" by auto
  from manage_prefix [OF m] obtain ds where cs: "cs = [job_read job] @ ds" by blast
  with served have s: "served_calls K [job_read job] ds cl cl'"
    by (cases job) (auto dest: source_calls_silent)
  show ?thesis
  proof (cases "deletion_is_zero (so_meta obj) \<and> masquerade_to (so_meta obj) \<noteq> ''''")
    case True
    with manage_store [OF m [unfolded cs] s _ refl _ ids cl hosts] show ?thesis by (simp add: wanted_specs_def)
  next
    case False
    then have "\<not> deletion_is_zero (so_meta obj) \<or> masquerade_to (so_meta obj) = ''''" by blast
    from unwanted_store [OF m [unfolded cs] s this ids cl(1)] have "live_labelled cl' ns u = {}" .
    moreover have "wanted_specs obj hosts = {}" using False by (simp only: wanted_specs_def if_False)
    ultimately show ?thesis by (simp add: leaves_def)
  qed
qed

lemma source_served_ok:
  "source_calls cs \<Longrightarrow> served_calls K tr cs cl cl' \<Longrightarrow> cluster_ok L R cl \<Longrightarrow> cluster_ok L R cl'"
proof (induction cs arbitrary: tr cl)
  case (Cons c cs)
  then obtain cl1 where s: "served K tr c cl cl1" "served_calls K (tr @ [c]) cs cl1 cl'" by auto
  from source_user_step [OF Cons.prems(3) _ s(1)] Cons.prems(1,3) have "cluster_ok L R cl1"
    using user_cluster_ok by auto
  with Cons.IH s(2) Cons.prems(1) show ?case by simp
qed simp

end

section \<open>Calm runs exist\<close>

text \<open>
  A server that answers from the store and gives fresh versions makes a calm run: the hypotheses of convergence can
  be met in every state.
\<close>

definition calm_kube :: "reconciler \<Rightarrow> cluster \<Rightarrow> masquerading_rule \<Rightarrow> string \<Rightarrow> string \<Rightarrow> kube" where
  "calm_kube R cl ob v w =
     (demo_kube ob (case cl_config cl of None \<Rightarrow> Inl (NotFound '''') | Some cm \<Rightarrow> Inr cm))
     \<lparr>k_update_rule := (\<lambda>tr m. Inr (m\<lparr>mr_meta := (mr_meta m)
        \<lparr>om_deletion_timestamp := om_deletion_timestamp (mr_meta ob), om_resource_version := v\<rparr>\<rparr>)),
      k_update_status := (\<lambda>tr m. Inr (m\<lparr>mr_meta := (mr_meta m)\<lparr>om_resource_version := w\<rparr>, mr_spec := mr_spec ob\<rparr>)),
      k_now := (\<lambda>tr. rc_update_delay R)\<rparr>"

lemma calm_kube_simps [simp]:
  "k_get_rule (calm_kube R cl ob v w) tr ns n = Inr ob"
  "k_get_config_map (calm_kube R cl ob v w) tr ns n = (case cl_config cl of None \<Rightarrow> Inl (NotFound '''') | Some cm \<Rightarrow> Inr cm)"
  "k_update_rule (calm_kube R cl ob v w) tr m = Inr (m\<lparr>mr_meta := (mr_meta m)
     \<lparr>om_deletion_timestamp := om_deletion_timestamp (mr_meta ob), om_resource_version := v\<rparr>\<rparr>)"
  "k_update_status (calm_kube R cl ob v w) tr m =
     Inr (m\<lparr>mr_meta := (mr_meta m)\<lparr>om_resource_version := w\<rparr>, mr_spec := mr_spec ob\<rparr>)"
  by (simp_all add: calm_kube_def)

lemma calm_kube_calm: "cooperative (calm_kube R cl ob v w)" "delay_passed (calm_kube R cl ob v w) R cl"
  by (auto simp: cooperative_def delay_passed_def calm_kube_def demo_kube_def update_keeps_def split: option.splits)

lemma served_finite: "served K tr c cl cl' \<Longrightarrow> finite (cl_versions cl) \<Longrightarrow> finite (cl_versions cl')"
  by (induction rule: served.induct) (simp_all add: put_rule_def put_config_def)

lemma served_calls_finite: "served_calls K tr cs cl cl' \<Longrightarrow> finite (cl_versions cl) \<Longrightarrow> finite (cl_versions cl')"
  by (induction K tr cs cl cl' rule: served_calls.induct) (auto dest: served_finite)

lemma served_silents: "all_silent zs \<Longrightarrow> served_calls K tr zs cl cl"
proof (induction zs arbitrary: tr)
  case (Cons c zs)
  then have "served K tr c cl cl" "served_calls K (tr @ [c]) zs cl cl" by (simp_all add: all_silent_def served.silent)
  then show ?case by auto
qed simp

lemma calm_kube_status:
  assumes "cl_rules cl1 key = Some ob1" and "stored_as key ob1" and "mr_meta m = mr_meta ob1"
    and "mr_spec ob1 = mr_spec ob" and "w \<notin> cl_versions cl1"
  shows "\<exists>cl'. served (calm_kube R cl ob v w) tr (UpdateRuleStatus m) cl1 cl'"
proof -
  from assms(2) have "key = (om_namespace (mr_meta m), om_name (mr_meta m))" by (simp add: stored_as_def assms(3))
  show ?thesis
    by (rule exI, rule served.update_status [OF \<open>key = _\<close> assms(1) _ _ assms(5) refl])
      (simp_all add: assms(3,4))
qed

lemma served_callsI:
  "served_calls K tr xs cl cl1 \<Longrightarrow> served_calls K (tr @ xs) ys cl1 cl' \<Longrightarrow> served_calls K tr (xs @ ys) cl cl'"
  unfolding served_calls_append by blast

lemma calm_kube_finalized:
  assumes sa: "stored_as key ob" and ob: "cl_rules cl key = Some ob" "alive ob" and "v \<notin> cl_versions cl"
    and fin: "finalized (calm_kube R cl ob v w) (observed ob) tr fs mr'"
  shows "\<exists>cl1. served_calls (calm_kube R cl ob v w) tr fs cl cl1 \<and> cl_versions cl1 \<subseteq> insert v (cl_versions cl)"
proof -
  from fin consider "fs = []" | fins where "fs = [UpdateRule (with_finalizers fins (observed ob))]"
    by (auto simp: finalized_def)
  then show ?thesis
  proof cases
    case 2
    let ?m = "with_finalizers fins (observed ob)"
    from sa have key: "key = (om_namespace (mr_meta ?m), om_name (mr_meta ?m))" by (simp add: stored_as_def)
    have "\<exists>ob'. served (calm_kube R cl ob v w) tr (UpdateRule ?m) cl (put_rule key ob' cl) \<and> version ob' = v"
      by (intro exI conjI, rule served.update_rule [OF key ob(1) _ _ assms(4) refl])
        (simp_all add: with_finalizers_def observed_def)
    with 2 show ?thesis by auto
  qed auto
qed

lemma alive_end_served:
  assumes "alive_end L R cl k rule mr b zs ws" and "cl_config cl1 = cl_config cl" and "x \<notin> cl_versions cl1"
  shows "\<exists>cl2. served_calls K tr ws cl1 cl2 \<and> cl_rules cl2 = cl_rules cl1 \<and> cl_versions cl2 \<subseteq> insert x (cl_versions cl1)"
proof -
  from assms(1,2) consider "ws = []" | cm cm0 where "ws = [UpdateConfigMap cm]" "cl_config cl1 = Some cm0"
      "cm_resource_version cm0 = cm_resource_version cm"
    | cm where "ws = [CreateConfigMap cm]" "cl_config cl1 = None"
    by (auto simp: alive_end_def split: if_splits)
  then show ?thesis
  proof cases
    case 2
    from served.update_config [OF 2(2,3) assms(3), of K tr] 2(1) show ?thesis by auto
  next
    case 3
    from served.create_config [OF 3(2) assms(3), of K tr cm] 3(1) show ?thesis by auto
  qed auto
qed

context go_lib
begin

lemma calm_run_exists:
  assumes ok: "cluster_ok L R cl" and ob: "cl_rules cl key = Some ob" "alive ob"
    and rule: "new_rewrite_rule (owner_id ob) (sp_from (mr_spec ob)) (sp_to (mr_spec ob)) = Inr rule"
    and free: "\<forall>l t. installed L R cl l = Some t \<longrightarrow> l \<noteq> owner_id ob \<longrightarrow> \<not> clash t rule"
    and v: "distinct [v, x, w]" "set [v, x, w] \<inter> cl_versions cl = {}"
  shows "\<exists>cl'. calm_run L R key (calm_kube R cl ob v w) cl cl'"
proof -
  let ?K = "calm_kube R cl ob v w"
  let ?g = "GetRule (fst key) (snd key)" and ?c = "GetConfigMap (rc_cm_namespace R) (rc_cm_name R)"
  note coop = calm_kube_calm(1) [of R cl ob v w] and delay = calm_kube_calm(2) [of R cl ob v w]
  have get: "k_get_rule ?K [] (fst key) (snd key) = Inr ob" by simp
  have g: "served ?K [] ?g cl cl" by (rule served.get_rule) (simp add: ob)
  from cluster_ok_rule [OF ok ob(1)] have sa: "stored_as key ob" by simp
  have "\<exists>cl'. served_calls ?K [] (run_trace L R key ?K) cl cl'"
  proof (cases "st_state (mr_status ob) = StateUnset")
    case True
    let ?m = "set_state (k_now ?K [?g]) (observed ob) StateNew ''First seen''"
    let ?b = "ended ?m (no_result\<lparr>res_requeue := True\<rparr>)"
    have "reconcile_body ?K L R (observed ob) [?g] = (?b, ?g # [ReadClock])"
      using True by (simp add: reconcile_body_def set_state_now_def)
    from run_trace_body [OF coop get this] obtain zs where zs: "all_silent zs"
      and t: "run_trace L R key ?K = [?g] @ (ReadClock # zs) @ [UpdateRuleStatus ?m]" by auto
    then have "all_silent (ReadClock # zs)" by simp
    from served_silents [OF this, of ?K "[?g]" cl] calm_kube_status [OF ob(1) sa, of ?m ob w R cl v "[?g] @ (ReadClock # zs)"] v g
    show ?thesis unfolding t served_calls_append by auto
  next
    case False
    have "case cl_config cl of None \<Rightarrow> \<exists>e. k_get_config_map ?K [?g] (rc_cm_namespace R) (rc_cm_name R) = Inl (NotFound e)
      | Some cm \<Rightarrow> k_get_config_map ?K [?g] (rc_cm_namespace R) (rc_cm_name R) = Inr cm" by (simp split: option.splits)
    from body_alive [OF coop delay ok sa ob(2) False refl this rule free] obtain b fs mr' zs ws where
      body: "reconcile_body ?K L R (observed ob) [?g] = (b, [?g] @ ?c # fs @ zs @ ws)"
      and fin: "finalized ?K (observed ob) ([] @ [?g, ?c]) fs mr'"
      and e: "alive_end L R cl (owner_id ob) rule mr' b zs ws" by auto
    from e have zs: "all_silent zs" and b: "be_err b = None" "\<not> be_skip b" "mr_meta (be_rule b) = mr_meta mr'"
      by (simp_all add: alive_end_def)
    from run_trace_body [OF coop get body [simplified] b(1)] b(2) obtain us where us: "all_silent us"
      and t: "run_trace L R key ?K = [?g, ?c] @ fs @ zs @ ws @ us @ [UpdateRuleStatus (be_rule b)]" by auto
    have c: "served ?K [?g] ?c cl cl" by (rule served.get_config) (simp split: option.splits)
    let ?p = "[] @ [?g, ?c]"
    from g c have p: "served_calls ?K [] [?g, ?c] cl cl" by auto
    obtain cl1 where s1: "served_calls ?K ?p fs cl cl1" and v1: "cl_versions cl1 \<subseteq> insert v (cl_versions cl)"
      using calm_kube_finalized [OF sa ob _ fin] v by auto
    from calm_finalized [OF coop sa ob fin s1] obtain ob1 where
      ob1: "cl_rules cl1 key = Some ob1" "mr_meta mr' = mr_meta ob1" "mr_spec ob1 = mr_spec ob" "stored_as key ob1"
        "cl_config cl1 = cl_config cl" by metis
    obtain cl2 where s2: "served_calls ?K ((?p @ fs) @ zs) ws cl1 cl2"
      and r2: "cl_rules cl2 = cl_rules cl1" and v2: "cl_versions cl2 \<subseteq> insert x (cl_versions cl1)"
      using alive_end_served [OF e ob1(5), of x ?K "(?p @ fs) @ zs"] v v1 by auto
    have "w \<notin> cl_versions cl2" using v v1 v2 by auto
    with calm_kube_status [of cl2 key ob1 "be_rule b" ob w R cl v "(((?p @ fs) @ zs) @ ws) @ us"] ob1 r2 b(3)
    obtain cl' where "served_calls ?K ((((?p @ fs) @ zs) @ ws) @ us) [UpdateRuleStatus (be_rule b)] cl2 cl'" by auto
    from served_callsI [OF p served_callsI [OF s1 served_callsI [OF served_silents [OF zs]
      served_callsI [OF s2 served_callsI [OF served_silents [OF us] this]]]]] show ?thesis unfolding t by blast
  qed
  with coop delay show ?thesis by (simp add: calm_run_def)
qed

end

context go_lib
begin

lemma calm_runs_exist:
  assumes stage: "ready_stage R key ob rule n cl" and versions: "finite (cl_versions cl)"
    and rule: "new_rewrite_rule (owner_id ob) (sp_from (mr_spec ob)) (sp_to (mr_spec ob)) = Inr rule"
  shows "\<exists>K cls. cls 0 = cl \<and> (\<forall>i. calm_run L R key (K i) (cls i) (cls (Suc i)))"
proof -
  let ?P = "\<lambda>i c. (i = 0 \<longrightarrow> c = cl) \<and> ready_stage R key ob rule (n - i) c \<and> finite (cl_versions c)"
  have "\<exists>c'. ?P (Suc i) c' \<and> (\<exists>K. calm_run L R key K c c')" if c: "?P i c" for i c
  proof -
    from c obtain ob1 where ok: "cluster_ok L R c" and ob1: "cl_rules c key = Some ob1" "alive ob1"
      "mr_spec ob1 = mr_spec ob" "owner_id ob1 = owner_id ob"
      and free: "\<forall>l t. installed L R c l = Some t \<longrightarrow> l \<noteq> owner_id ob1 \<longrightarrow> \<not> clash t rule"
      unfolding ready_stage_def by auto
    from c have f: "finite (cl_versions c)" by blast
    obtain v where v: "v \<notin> cl_versions c" using ex_new_if_finite [OF infinite_UNIV_listI f] by blast
    obtain x where x: "x \<notin> insert v (cl_versions c)"
      using ex_new_if_finite [OF infinite_UNIV_listI finite.insertI [OF f]] by blast
    obtain w where w: "w \<notin> insert x (insert v (cl_versions c))"
      using ex_new_if_finite [OF infinite_UNIV_listI finite.insertI [OF finite.insertI [OF f]]] by blast
    have r: "new_rewrite_rule (owner_id ob1) (sp_from (mr_spec ob1)) (sp_to (mr_spec ob1)) = Inr rule"
      using rule ob1(3,4) by simp
    from calm_run_exists [OF ok ob1(1,2) r free, of v x w] v x w obtain c' where
      run: "calm_run L R key (calm_kube R c ob1 v w) c c'" by auto
    from ready_stage_run [OF rule run, of "n - i"] c have "ready_stage R key ob rule (n - Suc i) c'" by simp
    moreover from run f served_calls_finite have "finite (cl_versions c')" unfolding calm_run_def by blast
    ultimately show ?thesis using run by blast
  qed
  with dependent_nat_choice [of ?P "\<lambda>i c c'. \<exists>K. calm_run L R key K c c'"] stage versions obtain cls where
    cls: "\<And>i. ?P i (cls i)" "\<forall>i. \<exists>K. calm_run L R key K (cls i) (cls (Suc i))" by (metis diff_zero)
  from choice [OF cls(2)] obtain K where "\<forall>i. calm_run L R key (K i) (cls i) (cls (Suc i))" ..
  with cls(1) [of 0] show ?thesis by blast
qed

end

section \<open>A concrete run\<close>

text \<open>An ingress whose host was changed: one dependent is there for the old host.\<close>

definition old_item :: masquerading_rule where
  "old_item = created_as (dependent_rule (demo_source [] None) ''to.org'' ''old.org'') ''svc-1'' ''1'' ''1'' 1"

definition new_item :: masquerading_rule where
  "new_item = created_as (dependent_rule (demo_source [finalizer] None) ''to.org'' ''new.org'') ''svc-2'' ''2'' ''2'' 1"

definition host_kube :: kube where
  "host_kube = (demo_api [old_item])\<lparr>k_create_rule := (\<lambda>tr m. Inr (created_as m ''svc-2'' ''2'' ''2'' 1))\<rparr>"

definition host_job :: source_job where
  "host_job = Ingress_Job ''ns'' ''svc'' (Inr (demo_source [finalizer] None, [''new.org'']))"

definition host_cluster :: cluster where
  "host_cluster = \<lparr>cl_rules = [(''ns'', ''svc-1'') \<mapsto> old_item], cl_config = None, cl_versions = {''1''}\<rparr>"

definition host_between :: cluster where
  "host_between = put_rule (''ns'', ''svc-2'') new_item host_cluster"

definition host_after :: cluster where
  "host_after = put_rule (''ns'', ''svc-1'') (old_item\<lparr>mr_meta := (mr_meta old_item)
     \<lparr>om_deletion_timestamp := Some 7, om_finalizers := [], om_resource_version := ''3''\<rparr>\<rparr>) host_between"

definition host_calls :: trace where
  "host_calls = [GetSource ''ns'' ''svc'', ListRules ''ns'' ''9'',
     CreateRule (dependent_rule (demo_source [finalizer] None) ''to.org'' ''new.org''), DeleteRule old_item]"

lemma host_items [simp]:
  "mr_spec old_item = \<lparr>sp_from = ''old.org'', sp_to = ''to.org''\<rparr>" "mr_spec new_item = \<lparr>sp_from = ''new.org'', sp_to = ''to.org''\<rparr>"
  "om_namespace (mr_meta old_item) = ''ns''" "om_namespace (mr_meta new_item) = ''ns''"
  "om_name (mr_meta old_item) = ''svc-1''" "om_name (mr_meta new_item) = ''svc-2''"
  "om_uid (mr_meta old_item) = ''1''" "om_uid (mr_meta new_item) = ''2''"
  "om_deletion_timestamp (mr_meta old_item) = None" "om_deletion_timestamp (mr_meta new_item) = None"
  "version old_item = ''1''" "version new_item = ''2''" "alive old_item" "alive new_item"
  "om_finalizers (mr_meta old_item) = []" "om_finalizers (mr_meta new_item) = []"
  "fmlookup (om_labels (mr_meta old_item)) label_controller_uid = Some ''9''"
  "st_state (mr_status new_item) = StateUnset"
  by (simp_all add: old_item_def new_item_def created_as_def dependent_rule_meta deletion_is_zero_def)
    (simp_all add: dependent_rule_def build_masquerading_rule_def)

lemma host_clusters [simp]:
  "cl_rules host_cluster = [(''ns'', ''svc-1'') \<mapsto> old_item]"
  "cl_rules host_between = [(''ns'', ''svc-1'') \<mapsto> old_item, (''ns'', ''svc-2'') \<mapsto> new_item]"
  "cl_rules host_after = [(''ns'', ''svc-2'') \<mapsto> new_item]"
  "cl_config host_after = None" "cl_versions host_after = {''1'', ''2'', ''3''}"
  "cl_versions host_cluster = {''1''}" "cl_versions host_between = {''2'', ''1''}"
  by (auto simp: host_cluster_def host_between_def host_after_def deletion_is_zero_def)

lemma host_reachable:
  "reachable std_lib demo_reconciler \<lparr>sy_cluster = host_cluster, sy_runs = Map.empty, sy_sources = Map.empty\<rparr>"
  by (rule reachable.init) (simp add: sys_init_def unique_uids_def stored_as_def plain_def, simp add: host_cluster_def)

lemma host_labelled: "labelled host_cluster ''ns'' ''9'' = {old_item}"
  by (auto simp: labelled_def)

lemma host_wants: "source_wants std_lib host_job = Some (demo_source [finalizer] None, [''new.org''])"
  by (simp add: host_job_def get_hosts_from_ingress_def sorted_list_of_fset.rep_eq fset_of_list.rep_eq)

lemma host_run: "reconcile_source host_kube std_lib host_job = (None, host_calls)"
  using host_wants std.source_wants_run [OF host_wants, of host_kube]
  by (simp add: host_job_def host_kube_def manage_dependents_def manage_live_def ensure_finalizer_def Let_def
      matching_rule_def host_calls_def dependent_rule_def created_as_def)

lemma host_served: "served_calls host_kube [] host_calls host_cluster host_after"
proof -
  let ?src = "demo_source [finalizer] None"
  have "served host_kube [GetSource ''ns'' ''svc''] (ListRules ''ns'' ''9'') host_cluster host_cluster"
    by (rule served.list_rules) (simp add: host_kube_def host_labelled)
  moreover have "served host_kube tr (CreateRule (dependent_rule ?src ''to.org'' ''new.org'')) host_cluster host_between" for tr
    unfolding host_between_def
    by (rule served.create_rule [where v = "''2''" and u = "''2''"], rule new_item_def)
      (auto simp: stored_as_def plain_def fresh_uid_def host_kube_def new_item_def [symmetric])
  moreover have "served host_kube tr (DeleteRule old_item) host_between host_after" for tr
    unfolding host_after_def
    by (rule served.delete_rule [where ob = old_item and v = "''3''" and fs = "[]" and t = 7])
      (simp_all add: label_controller_uid_def finalizer_def)
  ultimately show ?thesis by (simp add: host_calls_def) (blast intro: served.get_source)
qed

lemma source_run_ok:
  assumes "go_lib L" and "reachable L R s" and "reconcile_source K L job = (None, cs)"
    and "served_calls K [] cs (sy_cluster s) cl'"
  shows "keyed (sy_cluster s)" and "unique_uids (sy_cluster s)" and "cluster_ok L R cl'"
proof -
  from sys_ok_cluster [OF go_lib.reachable_ok [OF assms(1,2)]] have ok: "cluster_ok L R (sy_cluster s)" .
  then show "keyed (sy_cluster s)" unfolding keyed_def cluster_ok_def stored_as_def by blast
  show "unique_uids (sy_cluster s)" by (rule go_lib.reachable_uids [OF assms(1,2)])
  from reconcile_source_calls [of K L job] assms(3) have "source_calls cs" by simp
  from go_lib.source_served_ok [OF assms(1) this assms(4) ok] show "cluster_ok L R cl'" .
qed

text \<open>The same ingress, with a dependent for the new host that a user has deleted, and that another finalizer keeps in the store.\<close>

definition stuck_item :: masquerading_rule where
  "stuck_item = old_item\<lparr>mr_meta := (mr_meta old_item)\<lparr>om_finalizers := [''x'']\<rparr>, mr_spec := mr_spec new_item\<rparr>"

definition leaving_item :: masquerading_rule where
  "leaving_item = stuck_item\<lparr>mr_meta := (mr_meta stuck_item)
     \<lparr>om_deletion_timestamp := Some 7, om_finalizers := [''x''], om_resource_version := ''2''\<rparr>\<rparr>"

definition stuck_cluster :: cluster where
  "stuck_cluster = \<lparr>cl_rules = [(''ns'', ''svc-1'') \<mapsto> stuck_item], cl_config = None, cl_versions = {''1''}\<rparr>"

definition leaving_cluster :: cluster where
  "leaving_cluster = put_rule (''ns'', ''svc-1'') leaving_item stuck_cluster"

lemma leaving_rules [simp]: "cl_rules leaving_cluster = [(''ns'', ''svc-1'') \<mapsto> leaving_item]"
  by (auto simp: leaving_cluster_def stuck_cluster_def leaving_item_def)

lemma leaving_reachable:
  "reachable std_lib demo_reconciler \<lparr>sy_cluster = leaving_cluster, sy_runs = Map.empty, sy_sources = Map.empty\<rparr>"
proof -
  let ?s = "\<lambda>cl. \<lparr>sy_cluster = cl, sy_runs = Map.empty, sy_sources = Map.empty\<rparr>"
  have "reachable std_lib demo_reconciler (?s stuck_cluster)"
    by (rule reachable.init)
      (simp add: sys_init_def unique_uids_def stored_as_def plain_def stuck_cluster_def stuck_item_def deletion_is_zero_def finalizer_def)
  moreover have u: "user_step std_lib demo_reconciler (''ns'', ''svc-1'') stuck_cluster leaving_cluster"
    unfolding leaving_cluster_def
    by (rule user_step.delete [where ob = stuck_item and v = "''2''" and fs = "[''x'']" and t = 7])
      (simp_all add: stuck_cluster_def stuck_item_def leaving_item_def deletion_is_zero_def)
  moreover from u have "sys_step std_lib demo_reconciler (?s stuck_cluster) ((?s stuck_cluster)\<lparr>sy_cluster := leaving_cluster\<rparr>)"
    by (intro sys_step.user) simp
  ultimately show ?thesis using reachable.step by fastforce
qed

lemma leaving_labelled: "labelled leaving_cluster ''ns'' ''9'' = {leaving_item}"
  by (auto simp: labelled_def leaving_item_def stuck_item_def)

lemma leaving_run:
  "reconcile_source (demo_api [leaving_item]) std_lib host_job = (None, [GetSource ''ns'' ''svc'', ListRules ''ns'' ''9''])"
  using host_wants std.source_wants_run [OF host_wants, of "demo_api [leaving_item]"]
  by (simp add: host_job_def manage_dependents_def manage_live_def ensure_finalizer_def Let_def
      matching_rule_def leaving_item_def stuck_item_def)

lemma leaving_served:
  "served_calls (demo_api [leaving_item]) [] [GetSource ''ns'' ''svc'', ListRules ''ns'' ''9''] leaving_cluster leaving_cluster"
proof -
  have "served (demo_api [leaving_item]) [GetSource ''ns'' ''svc''] (ListRules ''ns'' ''9'') leaving_cluster leaving_cluster"
    by (rule served.list_rules) (simp add: leaving_labelled)
  then show ?thesis by simp (blast intro: served.get_source)
qed

section \<open>Properties\<close>

text \<open>
  C27: what a run for a service, an ingress or a gateway leaves in the store of a reachable state, if it ends without error and nobody
  else changes the store meanwhile. Of the live rules of its namespace that carry its uid, its dependents, no two have the same host,
  and each is for a host of the object, to its target; there is none if the object is being deleted or has no target any more. A
  host has its dependent if none that was there for it, to the target, was being deleted when the run began; it has none if there
  were such dependents and all of them were being deleted, since one in deletion counts as found. (Where some were and some were
  not, the order of the list decides.)
\<close>

theorem dependents_in_store:
  assumes "go_lib L" and "reachable L R s" and "source_wants L job = Some (obj, hosts)"
    and "reconcile_source K L job = (None, cs)" and "served_calls K [] cs (sy_cluster s) cl'"
  shows "let before = labelled (sy_cluster s) (om_namespace (so_meta obj)) (om_uid (so_meta obj));
      after = live_labelled cl' (om_namespace (so_meta obj)) (om_uid (so_meta obj)) in
    inj_on mr_spec after \<and> mr_spec ` after \<subseteq> wanted_specs obj hosts \<and>
    (\<forall>sp \<in> wanted_specs obj hosts. (\<forall>ob \<in> before. mr_spec ob = sp \<longrightarrow> alive ob) \<longrightarrow> sp \<in> mr_spec ` after) \<and>
    (\<forall>sp \<in> mr_spec ` before. (\<forall>ob \<in> before. mr_spec ob = sp \<longrightarrow> \<not> alive ob) \<longrightarrow> sp \<notin> mr_spec ` after)"
  using go_lib.source_store [OF assms(1,4,3,5) refl refl source_run_ok(1,2) [OF assms(1,2,4,5)]]
  unfolding leaves_def Let_def by blast

theorem dependents_in_store_witness:
  "mr_spec ` live_labelled host_after ''ns'' ''9'' = {\<lparr>sp_from = ''new.org'', sp_to = ''to.org''\<rparr>} \<and>
    mr_spec ` live_labelled host_cluster ''ns'' ''9'' = {\<lparr>sp_from = ''old.org'', sp_to = ''to.org''\<rparr>} \<and>
    live_labelled leaving_cluster ''ns'' ''9'' = {}"
proof -
  have d: "\<not> alive leaving_item" "mr_spec leaving_item = mr_spec new_item"
    by (simp_all add: leaving_item_def stuck_item_def deletion_is_zero_def)
  show ?thesis
    using dependents_in_store [OF std.go_lib_axioms host_reachable host_wants host_run, of host_after]
      dependents_in_store [OF std.go_lib_axioms leaving_reachable host_wants leaving_run, of leaving_cluster]
      host_served leaving_served host_labelled leaving_labelled d by (auto simp: Let_def wanted_specs_def live_labelled_def)
qed

text \<open>
  C29: from the annotation to the config map. In a reachable state, let a run for a live object with a target end without error and
  without a change of the store by others, and let no dependent for one of its hosts, to the target, have been in deletion. Then there
  is a rule object for this host in the store, such that the following holds: if \<open>NewRewriteRule\<close> accepts the rule, and it
  clashes with no rule that is installed, then after three runs of the controller of the rules its rewrite from the host to the target
  is in the config map, and the rule is Ready, and both stay so in further runs. These are calm runs: only they change the store,
  all their calls succeed, the record check is always positive, and each begins when the update delay of the config map is over.
\<close>

theorem annotated_hosts_masqueraded:
  assumes "go_lib L" and "reachable L R s" and "source_wants L job = Some (obj, hosts)" and "h \<in> set hosts"
    and "deletion_is_zero (so_meta obj)" and "masquerade_to (so_meta obj) = to" and "to \<noteq> ''''"
    and "\<forall>ob \<in> labelled (sy_cluster s) (om_namespace (so_meta obj)) (om_uid (so_meta obj)).
      mr_spec ob = \<lparr>sp_from = h, sp_to = to\<rparr> \<longrightarrow> alive ob"
    and "reconcile_source K L job = (None, cs)" and "served_calls K [] cs (sy_cluster s) cl'"
  shows "\<exists>key ob. cl_rules cl' key = Some ob \<and> alive ob \<and> mr_spec ob = \<lparr>sp_from = h, sp_to = to\<rparr> \<and>
    (\<forall>rule K' cls n. new_rewrite_rule (owner_id ob) h to = Inr rule \<longrightarrow>
      (\<forall>l t. installed L R cl' l = Some t \<longrightarrow> l \<noteq> owner_id ob \<longrightarrow> \<not> clash t rule) \<longrightarrow>
      cls 0 = cl' \<longrightarrow> (\<forall>i. calm_run L R key (K' i) (cls i) (cls (Suc i))) \<longrightarrow> 3 \<le> n \<longrightarrow>
      installed L R (cls n) (owner_id ob) = Some \<lparr>rr_owner = owner_id ob, rr_from = h, rr_to = to\<rparr> \<and>
      (\<exists>ob'. cl_rules (cls n) key = Some ob' \<and> st_state (mr_status ob') = StateReady))"
proof -
  note ok = source_run_ok [OF assms(1,2,9,10)]
  have "\<lparr>sp_from = h, sp_to = to\<rparr> \<in> wanted_specs obj hosts" using assms(4-7) by (simp add: wanted_specs_def)
  with go_lib.source_store [OF assms(1,9,3,10) refl refl ok(1,2)] assms(8) obtain ob where
    "ob \<in> live_labelled cl' (om_namespace (so_meta obj)) (om_uid (so_meta obj))"
    and spec: "mr_spec ob = \<lparr>sp_from = h, sp_to = to\<rparr>"
    unfolding leaves_def by (metis DiffI imageE)
  then obtain key where ob: "cl_rules cl' key = Some ob" "alive ob" by (auto simp: live_labelled_def labelled_def)
  show ?thesis
  proof (rule exI [of _ key], rule exI [of _ ob], intro conjI allI impI ob spec)
    fix rule K' cls n
    assume rule: "new_rewrite_rule (owner_id ob) h to = Inr rule"
      and free: "\<forall>l t. installed L R cl' l = Some t \<longrightarrow> l \<noteq> owner_id ob \<longrightarrow> \<not> clash t rule"
      and cls: "cls 0 = cl'" and runs: "\<forall>i. calm_run L R key (K' i) (cls i) (cls (Suc i))" and n: "3 \<le> (n :: nat)"
    have "installed L R (cls n) (owner_id ob) = Some rule \<and>
        (\<exists>ob'. cl_rules (cls n) key = Some ob' \<and> mr_spec ob' = mr_spec ob \<and> st_state (mr_status ob') = StateReady)"
      by (rule go_lib.calm_runs_ready [OF assms(1) _ _ ob(2) _ _ runs])
        (use ok(3) ob spec rule free cls n in simp_all)
    with new_rewrite_rule_Inr [OF rule] show
      "installed L R (cls n) (owner_id ob) = Some \<lparr>rr_owner = owner_id ob, rr_from = h, rr_to = to\<rparr>"
      "\<exists>ob'. cl_rules (cls n) key = Some ob' \<and> st_state (mr_status ob') = StateReady" by auto
  qed
qed

lemma new_rule_accepted:
  "new_rewrite_rule (owner_id new_item) ''new.org'' ''to.org'' =
    Inr \<lparr>rr_owner = owner_id new_item, rr_from = ''new.org'', rr_to = ''to.org''\<rparr>"
proof -
  have "owner_id new_item = ''2 (ns/svc-2)''" by (simp add: owner_id_def)
  then show ?thesis by (simp only:) code_simp
qed

text \<open>A concrete server carries out the runs after the one of the ingress.\<close>

lemma host_calm_runs:
  "\<exists>K cls. cls 0 = host_after \<and> (\<forall>i. calm_run std_lib demo_reconciler (''ns'', ''svc-2'') (K i) (cls i) (cls (Suc i)))"
proof (rule std.calm_runs_exist)
  have "reachable std_lib demo_reconciler \<lparr>sy_cluster = host_cluster, sy_runs = Map.empty, sy_sources = Map.empty\<rparr>"
    by (rule host_reachable)
  from source_run_ok(3) [OF std.go_lib_axioms this host_run] host_served
  have "cluster_ok std_lib demo_reconciler host_after" by simp
  then show "std.ready_stage demo_reconciler (''ns'', ''svc-2'') new_item
      \<lparr>rr_owner = owner_id new_item, rr_from = ''new.org'', rr_to = ''to.org''\<rparr> 3 host_after"
    by (simp add: std.ready_stage_def installed_None)
qed (simp_all add: new_rule_accepted)

theorem annotated_hosts_masqueraded_witness:
  "\<exists>K cls. cls 0 = host_after \<and>
    (\<forall>i. calm_run std_lib demo_reconciler (''ns'', ''svc-2'') (K i) (cls i) (cls (Suc i))) \<and>
    (\<exists>ob. cl_rules (cls 3) (''ns'', ''svc-2'') = Some ob \<and> st_state (mr_status ob) = StateReady) \<and>
    installed std_lib demo_reconciler (cls 3) (owner_id new_item) =
      Some \<lparr>rr_owner = owner_id new_item, rr_from = ''new.org'', rr_to = ''to.org''\<rparr>"
proof -
  have "\<forall>ob \<in> labelled host_cluster ''ns'' ''9''. alive ob" by (simp add: host_labelled)
  with annotated_hosts_masqueraded [OF std.go_lib_axioms host_reachable host_wants, of "''new.org''" "''to.org''"
      host_kube host_calls host_after] host_run host_served obtain key ob where
    ob: "cl_rules host_after key = Some ob"
    and r: "\<And>rule K' cls n. new_rewrite_rule (owner_id ob) ''new.org'' ''to.org'' = Inr rule \<Longrightarrow>
      (\<forall>l t. installed std_lib demo_reconciler host_after l = Some t \<longrightarrow> l \<noteq> owner_id ob \<longrightarrow> \<not> clash t rule) \<Longrightarrow>
      cls 0 = host_after \<Longrightarrow> (\<forall>i. calm_run std_lib demo_reconciler key (K' i) (cls i) (cls (Suc i))) \<Longrightarrow> 3 \<le> n \<Longrightarrow>
      installed std_lib demo_reconciler (cls n) (owner_id ob) =
        Some \<lparr>rr_owner = owner_id ob, rr_from = ''new.org'', rr_to = ''to.org''\<rparr> \<and>
      (\<exists>ob'. cl_rules (cls n) key = Some ob' \<and> st_state (mr_status ob') = StateReady)" by auto
  from ob have "key = (''ns'', ''svc-2'')" "ob = new_item" by (auto split: if_splits)
  moreover from host_calm_runs obtain K cls where c: "cls 0 = host_after"
    "\<forall>i. calm_run std_lib demo_reconciler (''ns'', ''svc-2'') (K i) (cls i) (cls (Suc i))" by blast
  moreover have "installed std_lib demo_reconciler host_after = Map.empty" by (simp add: installed_None)
  ultimately show ?thesis using r [of "\<lparr>rr_owner = owner_id new_item, rr_from = ''new.org'', rr_to = ''to.org''\<rparr>" cls K 3]
      new_rule_accepted by auto
qed

end
