(* ===== verification/Startup.thy ===== *)
theory Startup
  imports Reconciler
begin

text \<open>
  \<^verbatim>\<open>main.go\<close>: the command line, the checks before the manager is created, and the steps that wire the
  controllers and the webhook to it. A run is the list of the steps it takes, and its exit code. What the steps
  answer (the file system, the manager of the library) is given by the record \<open>host\<close>. Reading the flags and logging are
  left out; the registration of the types before \<^verbatim>\<open>main\<close> is in \<open>Registration\<close>.

  \<^verbatim>\<open>net.SplitHostPort\<close> and \<^verbatim>\<open>strconv.Atoi\<close> are modelled on every input, for an \<^verbatim>\<open>int\<close> of 64 bits;
  \<open>quote\<close> stands for \<^verbatim>\<open>strconv.Quote\<close>, which appears in error texts only.
\<close>

section \<open>Addresses\<close>

fun index_byte :: "string \<Rightarrow> char \<Rightarrow> nat option" where
  "index_byte [] c = None"
| "index_byte (d # s) c = (if d = c then Some 0 else map_option Suc (index_byte s c))"

fun last_index_byte :: "string \<Rightarrow> char \<Rightarrow> nat option" where
  "last_index_byte [] c = None"
| "last_index_byte (d # s) c =
     (case last_index_byte s c of
        Some i \<Rightarrow> Some (Suc i)
      | None \<Rightarrow> if d = c then Some 0 else None)"

definition addr_error :: "string \<Rightarrow> string \<Rightarrow> string" where
  "addr_error addr why = (if addr \<noteq> '''' then ''address '' @ addr @ '': '' else '''') @ why"

text \<open>\<^verbatim>\<open>net.SplitHostPort\<close>, its checks in the order of the library.\<close>

definition split_host_port :: "string \<Rightarrow> string + (string \<times> string)" where
  "split_host_port s =
     (case last_index_byte s CHR '':'' of
        None \<Rightarrow> Inl (addr_error s ''missing port in address'')
      | Some i \<Rightarrow>
          if hd s = CHR ''['' then
            (case index_byte s CHR '']'' of
               None \<Rightarrow> Inl (addr_error s ''missing ']' in address'')
             | Some e \<Rightarrow>
                 if e + 1 = length s then Inl (addr_error s ''missing port in address'')
                 else if e + 1 = i then
                   if CHR ''['' \<in> set (drop 1 s) then Inl (addr_error s ''unexpected '[' in address'')
                   else if CHR '']'' \<in> set (drop (e + 1) s) then Inl (addr_error s ''unexpected ']' in address'')
                   else Inr (drop 1 (take e s), drop (i + 1) s)
                 else if s ! (e + 1) = CHR '':'' then Inl (addr_error s ''too many colons in address'')
                 else Inl (addr_error s ''missing port in address''))
          else if CHR '':'' \<in> set (take i s) then Inl (addr_error s ''too many colons in address'')
          else if CHR ''['' \<in> set s then Inl (addr_error s ''unexpected '[' in address'')
          else if CHR '']'' \<in> set s then Inl (addr_error s ''unexpected ']' in address'')
          else Inr (take i s, drop (i + 1) s))"

definition digit_value :: "char \<Rightarrow> int" where
  "digit_value c = int (of_char c) - 48"

text \<open>
  \<^verbatim>\<open>strconv.ParseUint\<close> with base 10, digit by digit: a number that leaves 64 bits is reported before a
  later character that is no digit.
\<close>

fun parse_uint :: "int \<Rightarrow> string \<Rightarrow> string + int" where
  "parse_uint n [] = Inr n"
| "parse_uint n (c # s) =
     (if \<not> is_digit c then Inl ''invalid syntax''
      else if 2 ^ 64 \<le> n * 10 + digit_value c then Inl ''value out of range''
      else parse_uint (n * 10 + digit_value c) s)"

text \<open>\<^verbatim>\<open>strconv.Atoi\<close>: an optional sign, digits, and the range of \<^verbatim>\<open>int\<close>.\<close>

definition atoi :: "(string \<Rightarrow> string) \<Rightarrow> string \<Rightarrow> string + int" where
  "atoi quote s =
     (let (neg, ds) =
        (case s of
           [] \<Rightarrow> (False, [])
         | c # s' \<Rightarrow> if c = CHR ''-'' then (True, s') else if c = CHR ''+'' then (False, s') else (False, s))
      in
      case (if ds = [] then Inl ''invalid syntax'' else parse_uint 0 ds) of
        Inl why \<Rightarrow> Inl (''strconv.Atoi: parsing '' @ quote s @ '': '' @ why)
      | Inr n \<Rightarrow>
          if \<not> neg \<and> 2 ^ 63 \<le> n \<or> neg \<and> 2 ^ 63 < n then
            Inl (''strconv.Atoi: parsing '' @ quote s @ '': value out of range'')
          else Inr (if neg then - n else n))"

definition parse_address :: "(string \<Rightarrow> string) \<Rightarrow> string \<Rightarrow> string + (string \<times> int)" where
  "parse_address quote address =
     (case split_host_port address of
        Inl err \<Rightarrow> Inl err
      | Inr (host, p) \<Rightarrow>
          (case atoi quote p of
             Inl err \<Rightarrow> Inl err
           | Inr port \<Rightarrow> Inr (host, port)))"

section \<open>The command line\<close>

record flags =
  fl_metrics_addr :: string
  fl_probe_addr :: string
  fl_webhook_addr :: string
  fl_webhook_cert_dir :: string
  fl_leader_elect :: bool
  fl_leader_namespace :: string
  fl_cm_namespace :: string
  fl_cm_name :: string
  fl_cm_key :: string
  fl_service :: bool
  fl_ingress :: bool
  fl_gateway :: bool

definition default_flags :: flags where
  "default_flags =
     \<lparr>fl_metrics_addr = '':8080'', fl_probe_addr = '':8081'', fl_webhook_addr = '':9443'', fl_webhook_cert_dir = '''',
      fl_leader_elect = False, fl_leader_namespace = '''', fl_cm_namespace = ''kube-system'',
      fl_cm_name = ''coredns-custom'', fl_cm_key = ''masquerading-operator.override'',
      fl_service = False, fl_ingress = False, fl_gateway = False\<rparr>"

section \<open>The steps\<close>

definition in_cluster_namespace_path :: string where
  "in_cluster_namespace_path = ''/var/run/secrets/kubernetes.io/serviceaccount/namespace''"

definition leader_election_id :: string where
  "leader_election_id = ''masquerading-operator.cs.sap.com''"

datatype uncached = Uncached_MasqueradingRule | Uncached_ConfigMap

record manager_options =
  mo_disable_cache_for :: "uncached list"
  mo_leader_election :: bool
  mo_leader_election_namespace :: string
  mo_leader_election_id :: string
  mo_leader_election_release_on_cancel :: bool
  mo_webhook_host :: string
  mo_webhook_port :: int
  mo_webhook_cert_dir :: string
  mo_metrics_addr :: string
  mo_probe_addr :: string

datatype step =
    GetConfig
  | NewManager manager_options
  | SetupService
  | SetupIngress
  | SetupGateway
  | SetupRules reconciler bool \<comment> \<open>the flag is \<^verbatim>\<open>inCluster\<close> of the resolver\<close>
  | SetupWebhook
  | AddHealthz
  | AddReadyz
  | StartManager

text \<open>\<open>ho_step\<close> is the error of a step, if any; \<open>ho_stat\<close> says whether the error is \<^verbatim>\<open>IsNotExist\<close>.\<close>

datatype stat_result = Exists | NotExist | StatError string

record host =
  ho_stat :: "string \<Rightarrow> stat_result"
  ho_read_file :: "string \<Rightarrow> string + string"
  ho_step :: "step \<Rightarrow> string option"
  ho_wrap :: "string \<Rightarrow> string \<Rightarrow> string"
  ho_quote :: "string \<Rightarrow> string"

definition check_in_cluster :: "host \<Rightarrow> string + (bool \<times> string)" where
  "check_in_cluster H =
     (case ho_stat H in_cluster_namespace_path of
        NotExist \<Rightarrow> Inr (False, '''')
      | StatError err \<Rightarrow> Inl (ho_wrap H err ''error checking namespace file'')
      | Exists \<Rightarrow>
          (case ho_read_file H in_cluster_namespace_path of
             Inl err \<Rightarrow> Inl (ho_wrap H err ''error reading namespace file'')
           | Inr namespace \<Rightarrow> Inr (True, namespace)))"

text \<open>The steps in order; the first error ends the program with exit code 1.\<close>

fun take_steps :: "host \<Rightarrow> step list \<Rightarrow> step list \<times> int" where
  "take_steps H [] = ([], 0)"
| "take_steps H (x # xs) =
     (case ho_step H x of
        Some err \<Rightarrow> ([x], 1)
      | None \<Rightarrow> let (ys, code) = take_steps H xs in (x # ys, code))"

definition leader_namespace :: "flags \<Rightarrow> bool \<Rightarrow> string \<Rightarrow> string option" where
  "leader_namespace F inCluster inClusterNamespace =
     (if fl_leader_elect F \<and> fl_leader_namespace F = '''' then
        if inCluster then Some inClusterNamespace else None
      else Some (fl_leader_namespace F))"

definition main_options :: "flags \<Rightarrow> string \<Rightarrow> string \<Rightarrow> int \<Rightarrow> manager_options" where
  "main_options F namespace webhookHost webhookPort =
     \<lparr>mo_disable_cache_for = [Uncached_MasqueradingRule, Uncached_ConfigMap],
      mo_leader_election = fl_leader_elect F, mo_leader_election_namespace = namespace,
      mo_leader_election_id = leader_election_id, mo_leader_election_release_on_cancel = True,
      mo_webhook_host = webhookHost, mo_webhook_port = webhookPort, mo_webhook_cert_dir = fl_webhook_cert_dir F,
      mo_metrics_addr = fl_metrics_addr F, mo_probe_addr = fl_probe_addr F\<rparr>"

text \<open>The update delay is not set, so it has the zero value.\<close>

definition main_reconciler :: "flags \<Rightarrow> reconciler" where
  "main_reconciler F =
     \<lparr>rc_cm_namespace = fl_cm_namespace F, rc_cm_name = fl_cm_name F, rc_cm_key = fl_cm_key F, rc_update_delay = 0\<rparr>"

definition main_steps :: "flags \<Rightarrow> bool \<Rightarrow> manager_options \<Rightarrow> step list" where
  "main_steps F inCluster opts =
     [GetConfig, NewManager opts]
     @ (if fl_service F then [SetupService] else [])
     @ (if fl_ingress F then [SetupIngress] else [])
     @ (if fl_gateway F then [SetupGateway] else [])
     @ [SetupRules (main_reconciler F) inCluster, SetupWebhook, AddHealthz, AddReadyz, StartManager]"

definition main_run :: "host \<Rightarrow> flags \<Rightarrow> step list \<times> int" where
  "main_run H F =
     (case check_in_cluster H of
        Inl err \<Rightarrow> ([], 1)
      | Inr (inCluster, inClusterNamespace) \<Rightarrow>
          (case parse_address (ho_quote H) (fl_webhook_addr F) of
             Inl err \<Rightarrow> ([], 1)
           | Inr (webhookHost, webhookPort) \<Rightarrow>
               (case leader_namespace F inCluster inClusterNamespace of
                  None \<Rightarrow> ([], 1)
                | Some namespace \<Rightarrow>
                    take_steps H (main_steps F inCluster (main_options F namespace webhookHost webhookPort)))))"

end
