(* ===== verification/Startup_Properties.thy ===== *)
theory Startup_Properties
  imports Startup
begin

text \<open>The properties of \<^verbatim>\<open>main.go\<close>: which addresses are accepted, and the order and the ends of the start-up.\<close>

section \<open>Splitting an address\<close>

lemma index_byte_at: "c \<notin> set a \<Longrightarrow> index_byte (a @ c # b) c = Some (length a)"
  by (induction a) auto

lemma index_byte_None: "index_byte s c = None \<longleftrightarrow> c \<notin> set s"
  by (induction s) auto

lemma last_index_byte_None: "last_index_byte s c = None \<longleftrightarrow> c \<notin> set s"
  by (induction s) (auto split: option.splits)

lemma last_index_byte_at: "c \<notin> set b \<Longrightarrow> last_index_byte (a @ c # b) c = Some (length a)"
  using last_index_byte_None [of b c] by (induction a) auto

text \<open>
  The forms of an accepted address: host, colon and port, where the host has no colon and no brackets;
  or a host in brackets, which may have colons.
\<close>

definition host_port :: "string \<Rightarrow> string \<Rightarrow> string \<Rightarrow> bool" where
  "host_port s h p \<longleftrightarrow> {CHR '':'', CHR ''['', CHR '']''} \<inter> set p = {} \<and>
     (s = h @ CHR '':'' # p \<and> {CHR '':'', CHR ''['', CHR '']''} \<inter> set h = {} \<or>
      s = CHR ''['' # h @ CHR '']'' # CHR '':'' # p \<and> {CHR ''['', CHR '']''} \<inter> set h = {})"

lemma split_host_port_plain:
  assumes "{CHR '':'', CHR ''['', CHR '']''} \<inter> set h = {}" and "{CHR '':'', CHR ''['', CHR '']''} \<inter> set p = {}"
  shows "split_host_port (h @ CHR '':'' # p) = Inr (h, p)"
proof -
  have "last_index_byte (h @ CHR '':'' # p) CHR '':'' = Some (length h)"
    using assms(2) by (intro last_index_byte_at) auto
  moreover have "hd (h @ CHR '':'' # p) \<noteq> CHR ''[''" using assms(1) by (cases h) auto
  ultimately show ?thesis using assms by (auto simp: split_host_port_def)
qed

lemma split_host_port_brackets:
  assumes "{CHR ''['', CHR '']''} \<inter> set h = {}" and "{CHR '':'', CHR ''['', CHR '']''} \<inter> set p = {}"
  shows "split_host_port (CHR ''['' # h @ CHR '']'' # CHR '':'' # p) = Inr (h, p)"
proof -
  let ?s = "CHR ''['' # h @ CHR '']'' # CHR '':'' # p"
  have "last_index_byte ((CHR ''['' # h @ [CHR '']'']) @ CHR '':'' # p) CHR '':'' = Some (length h + 2)"
    using assms(2) last_index_byte_at [of "CHR '':''" p "CHR ''['' # h @ [CHR '']'']"] by auto
  then have i: "last_index_byte ?s CHR '':'' = Some (length h + 2)" by simp
  have "index_byte ((CHR ''['' # h) @ CHR '']'' # CHR '':'' # p) CHR '']'' = Some (length h + 1)"
    using assms(1) index_byte_at [of "CHR '']''" "CHR ''['' # h" "CHR '':'' # p"] by auto
  then have e: "index_byte ?s CHR '']'' = Some (length h + 1)" by simp
  show ?thesis using assms unfolding split_host_port_def i e by auto
qed

lemma split_host_port_iff: "split_host_port s = Inr (h, p) \<longleftrightarrow> host_port s h p"
proof
  assume s: "split_host_port s = Inr (h, p)"
  then have "last_index_byte s CHR '':'' \<noteq> None"
    by (cases "last_index_byte s CHR '':''") (simp_all add: split_host_port_def)
  then have "CHR '':'' \<in> set s" by (metis last_index_byte_None)
  from split_list_last [OF this] obtain a b where ab: "s = a @ CHR '':'' # b" "CHR '':'' \<notin> set b" by blast
  with last_index_byte_at have i: "last_index_byte s CHR '':'' = Some (length a)" by simp
  show "host_port s h p"
  proof (cases "hd s = CHR ''[''")
    case False
    with s i ab(2) show ?thesis by (auto simp: split_host_port_def host_port_def ab(1) split: if_splits)
  next
    case True
    with s i have "index_byte s CHR '']'' \<noteq> None"
      by (cases "index_byte s CHR '']''") (simp_all add: split_host_port_def)
    then have "CHR '']'' \<in> set s" by (metis index_byte_None)
    from split_list_first [OF this] obtain u v where uv: "s = u @ CHR '']'' # v" "CHR '']'' \<notin> set u" by blast
    with index_byte_at have e: "index_byte s CHR '']'' = Some (length u)" by simp
    from s i e True have len: "length u + 1 = length a" and h: "h = drop 1 (take (length u) s)"
      and p: "p = drop (length a + 1) s"
      and out: "CHR ''['' \<notin> set (drop 1 s)" "CHR '']'' \<notin> set (drop (length u + 1) s)"
      by (auto simp: split_host_port_def split: if_splits)
    have "a @ CHR '':'' # b = (u @ [CHR '']'']) @ v" using ab(1) uv(1) by simp
    with len have "a = u @ [CHR '']'']" "v = CHR '':'' # b"
      using append_eq_append_conv [of a "u @ [CHR '']'']" "CHR '':'' # b" v] by simp_all
    moreover from True uv(1) obtain u' where "u = CHR ''['' # u'" by (cases u) auto
    ultimately show ?thesis using uv h p out ab(2) by (auto simp: host_port_def)
  qed
next
  assume "host_port s h p"
  then show "split_host_port s = Inr (h, p)"
    using split_host_port_plain split_host_port_brackets by (auto simp: host_port_def)
qed

section \<open>Numbers\<close>

lemma is_digit_char [simp]: "n < 10 \<Longrightarrow> is_digit (char_of (48 + n))" for n :: nat
  by (auto simp: is_digit_def less_eq_char_def)

lemma digit_value_char [simp]: "n < 10 \<Longrightarrow> digit_value (char_of (48 + n)) = int n" for n :: nat
  by (simp add: digit_value_def)

fun digits_value :: "int \<Rightarrow> string \<Rightarrow> int" where
  "digits_value acc [] = acc"
| "digits_value acc (c # s) = digits_value (acc * 10 + digit_value c) s"

lemma digit_value_nonneg: "is_digit c \<Longrightarrow> 0 \<le> digit_value c"
  by (simp add: is_digit_def digit_value_def less_eq_char_def)

lemma digits_value_ge: "list_all is_digit s \<Longrightarrow> 0 \<le> acc \<Longrightarrow> acc \<le> digits_value acc s"
proof (induction acc s rule: digits_value.induct)
  case (2 acc c s)
  then have "acc \<le> acc * 10 + digit_value c" using digit_value_nonneg [of c] by simp
  moreover from this 2 have "acc * 10 + digit_value c \<le> digits_value (acc * 10 + digit_value c) s" by simp
  ultimately show ?case by simp
qed simp

lemma parse_uint_iff:
  "0 \<le> acc \<Longrightarrow> acc < 2 ^ 64 \<Longrightarrow>
    parse_uint acc s = Inr n \<longleftrightarrow> list_all is_digit s \<and> n = digits_value acc s \<and> n < 2 ^ 64"
proof (induction acc s rule: parse_uint.induct)
  case (2 acc c s)
  show ?case
  proof (cases "is_digit c \<and> acc * 10 + digit_value c < 2 ^ 64")
    case True
    with 2 digit_value_nonneg [of c] show ?thesis by simp
  next
    case False
    have "list_all is_digit (c # s) \<Longrightarrow> acc * 10 + digit_value c \<le> digits_value acc (c # s)"
      using digits_value_ge [of s "acc * 10 + digit_value c"] 2(2) digit_value_nonneg [of c] by simp
    with False show ?thesis by auto
  qed
qed auto

lemma digits_value_append: "digits_value acc (s @ t) = digits_value (digits_value acc s) t"
  by (induction acc s rule: digits_value.induct) auto

lemma itoa_digits: "list_all is_digit (itoa n) \<and> itoa n \<noteq> [] \<and> digits_value 0 (itoa n) = int n"
proof (induction n rule: itoa.induct)
  case (1 n)
  show ?case
  proof (cases "n < 10")
    case True
    then show ?thesis by (subst (1 2 3) itoa.simps) simp
  next
    case False
    then have "itoa n = itoa (n div 10) @ [char_of (48 + n mod 10)]" by (subst itoa.simps) simp
    with 1 [OF False] show ?thesis by (simp add: digits_value_append zdiv_int zmod_int)
  qed
qed


text \<open>An optional sign and digits.\<close>

definition int_text :: "string \<Rightarrow> int \<Rightarrow> bool" where
  "int_text s v \<longleftrightarrow> (\<exists>ds. ds \<noteq> '''' \<and> list_all is_digit ds \<and>
     (s = ds \<and> v = digits_value 0 ds \<or> s = CHR ''+'' # ds \<and> v = digits_value 0 ds \<or>
      s = CHR ''-'' # ds \<and> v = - digits_value 0 ds))"

lemma sign_not_digit [simp]: "\<not> is_digit CHR ''+''" "\<not> is_digit CHR ''-''"
  by (simp_all add: is_digit_def)

lemma int_text_simps [simp]:
  "\<not> int_text [] v"
  "int_text (c # s) v \<longleftrightarrow>
    (if c = CHR ''-'' then s \<noteq> [] \<and> list_all is_digit s \<and> v = - digits_value 0 s
     else if c = CHR ''+'' then s \<noteq> [] \<and> list_all is_digit s \<and> v = digits_value 0 s
     else list_all is_digit (c # s) \<and> v = digits_value 0 (c # s))"
proof -
  show "int_text (c # s) v \<longleftrightarrow>
    (if c = CHR ''-'' then s \<noteq> [] \<and> list_all is_digit s \<and> v = - digits_value 0 s
     else if c = CHR ''+'' then s \<noteq> [] \<and> list_all is_digit s \<and> v = digits_value 0 s
     else list_all is_digit (c # s) \<and> v = digits_value 0 (c # s))"
    unfolding int_text_def by (cases "c = CHR ''-''"; cases "c = CHR ''+''") auto
qed (simp add: int_text_def)

lemma atoi_iff: "atoi quote s = Inr v \<longleftrightarrow> int_text s v \<and> - (2 ^ 63) \<le> v \<and> v < 2 ^ 63"
proof (cases s)
  case Nil
  then show ?thesis by (simp add: atoi_def)
next
  case (Cons c s')
  have check: "(case (if ds = [] then Inl e else parse_uint 0 ds) of Inl why \<Rightarrow> Inl (f why)
      | Inr n \<Rightarrow> if \<not> neg \<and> 2 ^ 63 \<le> n \<or> neg \<and> 2 ^ 63 < n then Inl e' else Inr (if neg then - n else n)) = Inr v \<longleftrightarrow>
      ds \<noteq> [] \<and> list_all is_digit ds \<and> v = (if neg then - digits_value 0 ds else digits_value 0 ds) \<and>
      - (2 ^ 63) \<le> v \<and> v < 2 ^ 63" for ds neg e e' and f :: "string \<Rightarrow> string"
  proof (cases "parse_uint 0 ds")
    case (Inl why)
    moreover have "list_all is_digit ds \<longrightarrow> 2 ^ 64 \<le> digits_value 0 ds"
      using Inl parse_uint_iff [of 0 ds "digits_value 0 ds"] by (simp, linarith)
    ultimately show ?thesis by auto
  next
    case (Inr n)
    then have "list_all is_digit ds" "n = digits_value 0 ds" using parse_uint_iff [of 0 ds n] by simp_all
    moreover from this have "0 \<le> n" using digits_value_ge [of ds 0] by simp
    ultimately show ?thesis using Inr by (auto simp: minus_le_iff)
  qed
  obtain neg ds where split: "(case s of [] \<Rightarrow> (False, [])
      | c # s' \<Rightarrow> if c = CHR ''-'' then (True, s') else if c = CHR ''+'' then (False, s') else (False, s)) = (neg, ds)"
    by fastforce
  show ?thesis
    unfolding atoi_def Let_def split prod.case check using split unfolding Cons
    by (auto split: if_splits)
qed

lemma parse_address_iff:
  "parse_address quote a = Inr (h, p) \<longleftrightarrow>
    (\<exists>ps. host_port a h ps \<and> int_text ps p) \<and> - (2 ^ 63) \<le> p \<and> p < 2 ^ 63"
proof -
  have "parse_address quote a = Inr (h, p) \<longleftrightarrow> (\<exists>ps. split_host_port a = Inr (h, ps) \<and> atoi quote ps = Inr p)"
    by (auto simp: parse_address_def split: sum.splits)
  then show ?thesis unfolding split_host_port_iff atoi_iff by blast
qed

lemma digits_no_brackets:
  assumes "list_all is_digit s"
  shows "{CHR '':'', CHR ''['', CHR '']''} \<inter> set s = {}"
proof -
  have "\<not> is_digit CHR '':''" "\<not> is_digit CHR ''[''" "\<not> is_digit CHR '']''" by (simp_all add: is_digit_def)
  with assms show ?thesis by (auto simp: list_all_iff)
qed

section \<open>Steps\<close>

text \<open>What is taken is an initial part of the steps, and all but the last of them succeed.\<close>

lemma take_steps_spec:
  assumes "take_steps H xs = (ys, code)"
  shows "(code = 0 \<and> ys = xs \<and> (\<forall>x \<in> set xs. ho_step H x = None)) \<or>
    (code = 1 \<and> (\<exists>pre x post. xs = pre @ x # post \<and> ys = pre @ [x] \<and> ho_step H x \<noteq> None \<and>
      (\<forall>y \<in> set pre. ho_step H y = None)))"
  using assms
proof (induction xs arbitrary: ys)
  case (Cons x xs)
  show ?case
  proof (cases "ho_step H x")
    case None
    with Cons.prems obtain zs where z: "take_steps H xs = (zs, code)" "ys = x # zs" by (auto split: prod.splits)
    from Cons.IH [OF z(1)] show ?thesis
    proof (elim disjE conjE exE)
      fix pre y post
      assume "code = 1" "xs = pre @ y # post" "zs = pre @ [y]" "ho_step H y \<noteq> None" "\<forall>y \<in> set pre. ho_step H y = None"
      with None z(2) show ?thesis by (intro disjI2 conjI exI [of _ "x # pre"] exI [of _ y] exI [of _ post]) auto
    qed (use None z(2) in simp)
  next
    case (Some err)
    with Cons.prems show ?thesis by (intro disjI2 conjI exI [of _ "[]"] exI [of _ x] exI [of _ xs]) auto
  qed
qed simp

section \<open>Properties\<close>

text \<open>
  C35: the webhook address is accepted exactly if it is a host, a colon and a decimal number with an optional sign that fits
  64 bits, the host without colons and brackets, or in brackets; so every host and port that is written this way is
  read back. Nothing bounds the number to the range of a port.
\<close>

theorem parse_address_correct:
  shows "(parse_address quote a = Inr (h, p) \<longleftrightarrow>
      (\<exists>ps. host_port a h ps \<and> int_text ps p) \<and> - (2 ^ 63) \<le> p \<and> p < 2 ^ 63) \<and>
    (n < 2 ^ 63 \<longrightarrow> {CHR '':'', CHR ''['', CHR '']''} \<inter> set host = {} \<longrightarrow>
      parse_address quote (host @ '':'' @ itoa n) = Inr (host, int n)) \<and>
    (n < 2 ^ 63 \<longrightarrow> {CHR ''['', CHR '']''} \<inter> set host = {} \<longrightarrow>
      parse_address quote (''['' @ host @ '']:'' @ itoa n) = Inr (host, int n))"
proof (intro conjI impI)
  assume n: "n < 2 ^ 63"
  then have "int n < 2 ^ 63" using of_nat_less_iff [where 'a = int, of n "2 ^ 63"] by simp
  moreover have "(0 :: int) \<le> 2 ^ 63" by simp
  then have "- (2 ^ 63) \<le> int n" by linarith
  moreover have t: "int_text (itoa n) (int n)" using itoa_digits [of n] by (auto simp: int_text_def)
  ultimately have p: "host_port s host (itoa n) \<Longrightarrow> parse_address quote s = Inr (host, int n)" for s
    unfolding parse_address_iff by blast
  have i: "{CHR '':'', CHR ''['', CHR '']''} \<inter> set (itoa n) = {}"
    using itoa_digits [of n] digits_no_brackets by blast
  { assume "{CHR '':'', CHR ''['', CHR '']''} \<inter> set host = {}"
    with i show "parse_address quote (host @ '':'' @ itoa n) = Inr (host, int n)"
      by (intro p) (simp add: host_port_def) }
  { assume "{CHR ''['', CHR '']''} \<inter> set host = {}"
    with i show "parse_address quote (''['' @ host @ '']:'' @ itoa n) = Inr (host, int n)"
      by (intro p) (simp add: host_port_def) }
qed (rule parse_address_iff)

theorem parse_address_correct_witness:
  "parse_address id (''localhost'' @ '':'' @ itoa 99999) = Inr (''localhost'', 99999)"
  using parse_address_correct [of id "[]" "[]" 0 99999 "''localhost''"] by simp

text \<open>Nothing is done after a step that failed.\<close>

lemma take_steps_stop:
  assumes "take_steps H xs = (steps, code)" and "steps = pre @ x # post" and "ho_step H x \<noteq> None"
  shows "post = []"
proof (rule ccontr)
  assume "post \<noteq> []"
  then have "x \<in> set (butlast steps)" by (simp add: assms(2) butlast_append)
  moreover from take_steps_spec [OF assms(1)] have "\<forall>y \<in> set (butlast steps). ho_step H y = None"
    by (auto dest: in_set_butlastD)
  ultimately show False using assms(3) by simp
qed

text \<open>The steps that are taken are the first ones of the list; the last one of the list is taken exactly if all others succeed.\<close>

lemma take_steps_all:
  assumes "take_steps H (g # m # mid @ [z]) = (steps, code)" and "distinct (g # m # mid @ [z])"
  shows "steps = [g] \<or> (\<exists>rest. steps = g # m # rest \<and> set rest \<subseteq> insert z (set mid))"
    and "distinct steps"
    and "z \<in> set steps \<longleftrightarrow> (\<forall>x \<in> {g, m} \<union> set mid. ho_step H x = None)"
    and "z \<in> set steps \<longrightarrow> set mid \<subseteq> set steps \<and> last steps = z"
    and "code = 0 \<longleftrightarrow> z \<in> set steps \<and> ho_step H z = None" and "code = 0 \<or> code = 1"
proof -
  let ?xs = "g # m # mid @ [z]"
  have "(steps = [g] \<or> (\<exists>rest. steps = g # m # rest \<and> set rest \<subseteq> insert z (set mid))) \<and> distinct steps \<and>
    (z \<in> set steps \<longleftrightarrow> (\<forall>x \<in> {g, m} \<union> set mid. ho_step H x = None)) \<and>
    (z \<in> set steps \<longrightarrow> set mid \<subseteq> set steps \<and> last steps = z) \<and>
    (code = 0 \<longleftrightarrow> z \<in> set steps \<and> ho_step H z = None) \<and> (code = 0 \<or> code = 1)"
  proof -
    consider "code = 0" "steps = ?xs" "\<forall>x \<in> set ?xs. ho_step H x = None"
      | ys y zs where "code = 1" "?xs = ys @ y # zs" "steps = ys @ [y]" "ho_step H y \<noteq> None" "\<forall>x \<in> set ys. ho_step H x = None"
      using take_steps_spec [OF assms(1)] by blast
    then show ?thesis
    proof cases
      case 1
      with assms(2) show ?thesis by auto
    next
      case (2 ys y zs)
      show ?thesis
      proof (cases zs rule: rev_cases)
        case Nil
        with 2(2) have "y = z" "ys = g # m # mid" by (auto simp flip: append_Cons)
        with 2 assms(2) show ?thesis by auto
      next
        case (snoc ws w)
        with 2(2) have xs: "w = z" "g # m # mid = ys @ y # ws" by (auto simp flip: append_Cons append_assoc)
        with assms(2) have "z \<notin> set (ys @ [y])" "distinct (ys @ [y])" by (auto simp flip: append_Cons)
        moreover have "y \<in> {g, m} \<union> set mid" using arg_cong [OF xs(2), of set] by auto
        moreover have "ys @ [y] = [g] \<or> (\<exists>rest. ys @ [y] = g # m # rest \<and> set rest \<subseteq> insert z (set mid))"
          using xs(2) by (cases ys; cases "tl ys") auto
        ultimately show ?thesis using 2(1,3,4,5) by auto
      qed
    qed
  qed
  then show "steps = [g] \<or> (\<exists>rest. steps = g # m # rest \<and> set rest \<subseteq> insert z (set mid))" "distinct steps"
    "z \<in> set steps \<longleftrightarrow> (\<forall>x \<in> {g, m} \<union> set mid. ho_step H x = None)"
    "z \<in> set steps \<longrightarrow> set mid \<subseteq> set steps \<and> last steps = z"
    "code = 0 \<longleftrightarrow> z \<in> set steps \<and> ho_step H z = None" "code = 0 \<or> code = 1" by - (elim conjE, assumption)+
qed

text \<open>The steps between the manager and its start.\<close>

lemma main_steps_wiring:
  "\<exists>mid. main_steps F inCluster opts = GetConfig # NewManager opts # mid @ [StartManager] \<and>
    distinct (GetConfig # NewManager opts # mid @ [StartManager]) \<and>
    set mid = {x. x = SetupService \<and> fl_service F \<or> x = SetupIngress \<and> fl_ingress F \<or> x = SetupGateway \<and> fl_gateway F \<or>
      x \<in> {SetupRules \<lparr>rc_cm_namespace = fl_cm_namespace F, rc_cm_name = fl_cm_name F, rc_cm_key = fl_cm_key F,
        rc_update_delay = 0\<rparr> inCluster, SetupWebhook, AddHealthz, AddReadyz}}"
  by (rule exI [of _ "butlast (drop 2 (main_steps F inCluster opts))"])
    (auto simp: main_steps_def main_reconciler_def butlast_append)

text \<open>
  What must hold before a manager is created: the namespace file is either missing, or it can be read; the address of the
  webhook is accepted; and leader election without a namespace needs the one of the file.
\<close>

definition may_start :: "host \<Rightarrow> flags \<Rightarrow> bool \<Rightarrow> string \<Rightarrow> string \<times> int \<Rightarrow> bool" where
  "may_start H F inCluster namespace webhook \<longleftrightarrow>
     (let path = ''/var/run/secrets/kubernetes.io/serviceaccount/namespace'' in
      if inCluster then ho_stat H path = Exists \<and> ho_read_file H path = Inr namespace
      else ho_stat H path = NotExist \<and> namespace = '''') \<and>
     parse_address (ho_quote H) (fl_webhook_addr F) = Inr webhook \<and>
     (fl_leader_elect F \<longrightarrow> fl_leader_namespace F = '''' \<longrightarrow> inCluster)"

lemma check_in_cluster_iff:
  "check_in_cluster H = Inr (inCluster, namespace) \<longleftrightarrow>
    (let path = ''/var/run/secrets/kubernetes.io/serviceaccount/namespace'' in
     if inCluster then ho_stat H path = Exists \<and> ho_read_file H path = Inr namespace
     else ho_stat H path = NotExist \<and> namespace = '''')"
  by (auto simp: check_in_cluster_def in_cluster_namespace_path_def Let_def split: stat_result.splits sum.splits)

lemma main_run_cases:
  assumes "main_run H F = (steps, code)"
  shows "(\<nexists>inCluster namespace webhook. may_start H F inCluster namespace webhook) \<and> steps = [] \<and> code = 1 \<or>
    (\<exists>inCluster namespace webhook. may_start H F inCluster namespace webhook \<and>
       take_steps H (main_steps F inCluster (main_options F
         (if fl_leader_elect F \<and> fl_leader_namespace F = '''' then namespace else fl_leader_namespace F)
         (fst webhook) (snd webhook))) = (steps, code))"
  using assms unfolding may_start_def check_in_cluster_iff [symmetric]
  by (auto simp: main_run_def leader_namespace_def split: sum.splits option.splits prod.splits if_splits)

section \<open>The start of the operator\<close>

text \<open>
  C36: the start-up, from the flags and the answers of the host. If the checks of the environment fail, nothing is done, and the exit
  code is 1. Otherwise the steps begin with the configuration and the manager, whose options are, field by field, those of the flags,
  of the webhook address and of the leader election, with rules and config maps read without cache; no step is taken twice, and
  after them come only the set-up of the controllers that the flags enable, of the controller of the rules, with the config map of the flags
  and no update delay, of the webhook and of the two probes. The manager is started exactly if all of these have succeeded, each of
  them having been taken, and as the last step. Nothing is done after a step that failed, and the exit code is 0 exactly if the manager
  ran and returned without error, and otherwise 1.
\<close>

theorem startup_order:
  assumes "main_run H F = (steps, code)"
  shows "((\<nexists>inCluster namespace webhook. may_start H F inCluster namespace webhook) \<and> steps = [] \<and> code = 1 \<or>
    (\<exists>inCluster namespace webhook. may_start H F inCluster namespace webhook \<and>
      (let manager = NewManager
         \<lparr>mo_disable_cache_for = [Uncached_MasqueradingRule, Uncached_ConfigMap],
          mo_leader_election = fl_leader_elect F,
          mo_leader_election_namespace =
            (if fl_leader_elect F \<and> fl_leader_namespace F = '''' then namespace else fl_leader_namespace F),
          mo_leader_election_id = ''masquerading-operator.cs.sap.com'', mo_leader_election_release_on_cancel = True,
          mo_webhook_host = fst webhook, mo_webhook_port = snd webhook, mo_webhook_cert_dir = fl_webhook_cert_dir F,
          mo_metrics_addr = fl_metrics_addr F, mo_probe_addr = fl_probe_addr F\<rparr>;
        rules = SetupRules
         \<lparr>rc_cm_namespace = fl_cm_namespace F, rc_cm_name = fl_cm_name F, rc_cm_key = fl_cm_key F, rc_update_delay = 0\<rparr>
         inCluster;
        wired = {x. x = SetupService \<and> fl_service F \<or> x = SetupIngress \<and> fl_ingress F \<or> x = SetupGateway \<and> fl_gateway F \<or>
          x \<in> {rules, SetupWebhook, AddHealthz, AddReadyz}}
       in (steps = [GetConfig] \<or> (\<exists>rest. steps = GetConfig # manager # rest \<and> set rest \<subseteq> insert StartManager wired)) \<and>
        distinct steps \<and>
        (StartManager \<in> set steps \<longleftrightarrow> (\<forall>x \<in> {GetConfig, manager} \<union> wired. ho_step H x = None)) \<and>
        (StartManager \<in> set steps \<longrightarrow> wired \<subseteq> set steps \<and> last steps = StartManager)))) \<and>
    (\<forall>pre x post. steps = pre @ x # post \<longrightarrow> ho_step H x \<noteq> None \<longrightarrow> post = []) \<and>
    (code = 0 \<longleftrightarrow> StartManager \<in> set steps \<and> ho_step H StartManager = None) \<and> (code = 0 \<or> code = 1)"
proof -
  from main_run_cases [OF assms] show ?thesis
  proof (elim disjE exE conjE)
    assume "\<nexists>inCluster namespace webhook. may_start H F inCluster namespace webhook" "steps = []" "code = 1"
    then show ?thesis by simp
  next
    fix inCluster namespace webhook
    let ?opts = "main_options F (if fl_leader_elect F \<and> fl_leader_namespace F = '''' then namespace else fl_leader_namespace F)
      (fst webhook) (snd webhook)"
    assume ok: "may_start H F inCluster namespace webhook"
      and run: "take_steps H (main_steps F inCluster ?opts) = (steps, code)"
    from main_steps_wiring [of F inCluster ?opts] obtain mid where
      xs: "main_steps F inCluster ?opts = GetConfig # NewManager ?opts # mid @ [StartManager]"
      and d: "distinct (GetConfig # NewManager ?opts # mid @ [StartManager])"
      and mid: "set mid = {x. x = SetupService \<and> fl_service F \<or> x = SetupIngress \<and> fl_ingress F \<or> x = SetupGateway \<and> fl_gateway F \<or>
        x \<in> {SetupRules \<lparr>rc_cm_namespace = fl_cm_namespace F, rc_cm_name = fl_cm_name F, rc_cm_key = fl_cm_key F,
          rc_update_delay = 0\<rparr> inCluster, SetupWebhook, AddHealthz, AddReadyz}}" by blast
    note t = take_steps_all [OF run [unfolded xs] d, unfolded mid]
    note opts = t(1-4) [unfolded main_options_def leader_election_id_def]
    show ?thesis
    proof (intro conjI allI impI)
      show "code = 0 \<longleftrightarrow> StartManager \<in> set steps \<and> ho_step H StartManager = None" "code = 0 \<or> code = 1"
        by (fact t(5), fact t(6))
      show "post = []" if "steps = pre @ x # post" "ho_step H x \<noteq> None" for pre x post
        using take_steps_stop [OF run that] .
    qed (intro disjI2 exI [of _ inCluster] exI [of _ namespace] exI [of _ webhook], unfold Let_def, intro conjI ok opts)
  qed
qed

definition demo_host :: "step \<Rightarrow> host" where
  "demo_host bad = \<lparr>ho_stat = (\<lambda>path. Exists), ho_read_file = (\<lambda>path. Inr ''dns''),
     ho_step = (\<lambda>x. if x = bad then Some ''failed'' else None), ho_wrap = (\<lambda>err msg. msg @ err), ho_quote = id\<rparr>"

text \<open>
  A start with leader election in the namespace of the file and with the service controller, in which the manager fails; and one
  in which the second probe cannot be set up.
\<close>

theorem startup_order_witness:
  "\<exists>steps opts. main_run (demo_host StartManager) (default_flags\<lparr>fl_leader_elect := True, fl_service := True\<rparr>) = (steps, 1) \<and>
    StartManager \<in> set steps \<and> SetupService \<in> set steps \<and> SetupIngress \<notin> set steps \<and> NewManager opts \<in> set steps \<and>
    mo_leader_election_namespace opts = ''dns'' \<and> mo_metrics_addr opts = '':8080'' \<and>
    (\<exists>steps'. main_run (demo_host AddReadyz) default_flags = (steps', 1) \<and> StartManager \<notin> set steps')"
proof -
  let ?F = "default_flags\<lparr>fl_leader_elect := True, fl_service := True\<rparr>"
  obtain h where h: "parse_address id '':9443'' = Inr (h, 9443)"
    using parse_address_iff [of id "'':9443''" "''''" 9443]
    by (auto simp: host_port_def is_digit_def digit_value_def)
  then have ok: "may_start (demo_host bad) F True ''dns'' (h, 9443)" if "fl_webhook_addr F = '':9443''" for bad F
    by (simp add: may_start_def demo_host_def that)
  obtain steps code where run: "main_run (demo_host StartManager) ?F = (steps, code)" by fastforce
  obtain steps' code' where run': "main_run (demo_host AddReadyz) default_flags = (steps', code')" by fastforce
  have no: "\<not> (\<nexists>inCluster namespace webhook. may_start (demo_host bad) F inCluster namespace webhook)"
    if "fl_webhook_addr F = '':9443''" for bad F using ok [OF that] by blast
  have ns: "may_start (demo_host bad) F inCluster namespace webhook \<Longrightarrow> namespace = ''dns''" for bad F inCluster namespace webhook
    by (auto simp: may_start_def demo_host_def split: if_splits)
  have f: "fl_webhook_addr ?F = '':9443''" "fl_webhook_addr default_flags = '':9443''" by (simp_all add: default_flags_def)
  have fail_simp: "ho_step (demo_host bad) x = None \<longleftrightarrow> x \<noteq> bad" for bad x by (simp add: demo_host_def)
  have all: "\<forall>x \<in> S. ho_step (demo_host bad) x = None" if "bad \<notin> S" for S bad using that by (auto simp: demo_host_def)
  have e: "fl_leader_elect ?F" "fl_leader_namespace ?F = ''''" "fl_service ?F" "\<not> fl_ingress ?F" "fl_metrics_addr ?F = '':8080''"
    by (simp_all add: default_flags_def)
  note A = startup_order [OF run, unfolded Let_def]
  have 1: "StartManager \<in> set steps"
    using A [THEN conjunct1] no [OF f(1)] e by (elim disjE exE conjE) (simp_all add: fail_simp)
  have 2: "code = 1" using A [THEN conjunct2, THEN conjunct2] by (auto simp: fail_simp)
  have 3: "SetupService \<in> set steps"
    using A [THEN conjunct1] no [OF f(1)] e 1 by (elim disjE exE conjE) (simp_all add: subset_iff)
  have 4: "SetupIngress \<notin> set steps"
    using A [THEN conjunct1] no [OF f(1)] e 1 by (elim disjE exE conjE) (auto simp: subset_iff)
  have 5: "\<exists>opts. NewManager opts \<in> set steps \<and> mo_leader_election_namespace opts = ''dns'' \<and> mo_metrics_addr opts = '':8080''"
    using A [THEN conjunct1] no [OF f(1)] 1
  proof (elim disjE exE conjE, simp, simp)
    fix inCluster namespace webhook rest
    assume "may_start (demo_host StartManager) ?F inCluster namespace webhook"
    then have "namespace = ''dns''" by (rule ns)
    assume "steps = GetConfig # NewManager
         \<lparr>mo_disable_cache_for = [Uncached_MasqueradingRule, Uncached_ConfigMap], mo_leader_election = fl_leader_elect ?F,
          mo_leader_election_namespace =
            (if fl_leader_elect ?F \<and> fl_leader_namespace ?F = '''' then namespace else fl_leader_namespace ?F),
          mo_leader_election_id = ''masquerading-operator.cs.sap.com'', mo_leader_election_release_on_cancel = True,
          mo_webhook_host = fst webhook, mo_webhook_port = snd webhook, mo_webhook_cert_dir = fl_webhook_cert_dir ?F,
          mo_metrics_addr = fl_metrics_addr ?F, mo_probe_addr = fl_probe_addr ?F\<rparr> # rest"
    with \<open>namespace = ''dns''\<close> e show ?thesis by (intro exI conjI) auto
  qed
  from no [OF f(2), of AddReadyz] startup_order [OF run'] have "code' = 1 \<and> StartManager \<notin> set steps'"
    by (auto simp: Let_def default_flags_def demo_host_def)
  with 1 2 3 4 5 run run' show ?thesis by blast
qed

end
