(* ===== verification/Go_Store.thy ===== *)
theory Go_Store
  imports Go_Prelude
begin

text \<open>
  A store of cells for code that shares memory: pointers, slices with their backing arrays, \<^verbatim>\<open>new\<close>, \<^verbatim>\<open>make\<close> and
  \<^verbatim>\<open>append\<close>, and the interface of functions that copy deeply. An address is a position in the list of
  cells, so allocation appends a cell. A cell is an array of one type; what \<^verbatim>\<open>new\<close> allocates is an
  array with one element, and a pointer is an address with an index.
\<close>

section \<open>Cells and slices\<close>

type_synonym addr = nat
type_synonym pointer = "(addr \<times> nat) option" \<comment> \<open>\<^const>\<open>None\<close> is nil\<close>

record slice =
  sl_array :: addr
  sl_off :: nat
  sl_len :: nat
  sl_cap :: nat

definition extends :: "'c list \<Rightarrow> 'c list \<Rightarrow> bool" where
  "extends s s' \<longleftrightarrow> take (length s) s' = s"

lemma extends_length: "extends s s' \<Longrightarrow> length s \<le> length s'"
  by (metis extends_def length_take min.cobounded1 min.commute)

lemma extends_nth: "extends s s' \<Longrightarrow> a < length s \<Longrightarrow> s' ! a = s ! a"
  by (metis extends_def nth_take)

lemma extendsI: "length s \<le> length s' \<Longrightarrow> (\<And>a. a < length s \<Longrightarrow> s' ! a = s ! a) \<Longrightarrow> extends s s'"
  unfolding extends_def by (rule nth_equalityI) simp_all

lemma extends_refl [simp]: "extends s s"
  by (simp add: extends_def)

lemma extends_append [simp]: "extends s (s @ t)"
  by (simp add: extends_def)

lemma extends_trans: "extends s t \<Longrightarrow> extends t u \<Longrightarrow> extends s u"
  by (rule extendsI) (metis extends_length le_trans, metis extends_length extends_nth less_le_trans)

lemma extends_update: "extends s s' \<Longrightarrow> length s \<le> b \<Longrightarrow> extends s (s'[b := c])"
  by (simp add: extends_def)

section \<open>Copying deeply\<close>

text \<open>
  A value is read with \<open>view\<close>; it is spread over the cells \<open>cells\<close>, and \<open>ok\<close> says that its pointers lead to
  cells of the right kind. A copy leaves every cell that was there as it is, reads like the
  original, and lies in new cells only.
\<close>

locale deep_copier =
  fixes copy :: "'c list \<Rightarrow> 'a \<Rightarrow> 'a \<times> 'c list"
    and view :: "'c list \<Rightarrow> 'a \<Rightarrow> 'v"
    and cells :: "'c list \<Rightarrow> 'a \<Rightarrow> addr set"
    and ok :: "'c list \<Rightarrow> 'a \<Rightarrow> bool"
  assumes copies: "ok s x \<Longrightarrow> copy s x = (y, s') \<Longrightarrow>
      extends s s' \<and> ok s' y \<and> view s' y = view s x \<and> cells s' y \<subseteq> {length s ..< length s'}"
    and frame: "ok s x \<Longrightarrow> length s \<le> length s' \<Longrightarrow> \<forall>a \<in> cells s x. s' ! a = s ! a \<Longrightarrow>
      ok s' x \<and> view s' x = view s x \<and> cells s' x = cells s x"
    and allocated: "ok s x \<Longrightarrow> cells s x \<subseteq> {..< length s}"
begin

lemma extended:
  assumes "ok s x" and "extends s s'"
  shows "ok s' x \<and> view s' x = view s x \<and> cells s' x = cells s x"
proof -
  have "\<forall>a \<in> cells s x. s' ! a = s ! a" using allocated [OF assms(1)] extends_nth [OF assms(2)] by blast
  with frame [OF assms(1) extends_length [OF assms(2)]] show ?thesis by blast
qed

lemma untouched:
  "ok s x \<Longrightarrow> a \<notin> cells s x \<Longrightarrow> ok (s[a := c]) x \<and> view (s[a := c]) x = view s x \<and> cells (s[a := c]) x = cells s x"
  using frame [of s x "s[a := c]"] by (metis length_list_update nth_list_update_neq order_refl)

text \<open>Writing to the copy does not show in the original, nor the other way round.\<close>

lemma independent:
  assumes "ok s x" and "copy s x = (y, s')"
  shows "view s' y = view s x" "view s' x = view s x" "cells s' x \<inter> cells s' y = {}"
    "a \<in> cells s' y \<Longrightarrow> view (s'[a := c]) x = view s x"
    "a \<in> cells s' x \<Longrightarrow> view (s'[a := c]) y = view s x"
proof -
  from copies [OF assms] have y: "extends s s'" "ok s' y" "view s' y = view s x"
    and fresh: "cells s' y \<subseteq> {length s ..< length s'}" by simp_all
  from extended [OF assms(1) y(1)] have x: "ok s' x" "view s' x = view s x" "cells s' x = cells s x" by simp_all
  show "view s' y = view s x" "view s' x = view s x" by (fact y(3), fact x(2))
  show d: "cells s' x \<inter> cells s' y = {}" using fresh allocated [OF assms(1)] x(3) by fastforce
  show "view (s'[a := c]) x = view s x" if "a \<in> cells s' y"
    using untouched [OF x(1), of a c] that d x(2) by auto
  show "view (s'[a := c]) y = view s x" if "a \<in> cells s' x"
    using untouched [OF y(2), of a c] that d y(3) by auto
qed

end

subsection \<open>Values without pointers, optional values, pairs\<close>

lemma deep_copier_plain: "deep_copier (\<lambda>s x. (x, s)) (\<lambda>s x. f x) (\<lambda>s x. {}) (\<lambda>s. P)"
  by unfold_locales auto

text \<open>The pattern \<^verbatim>\<open>if in.F != nil\<close>.\<close>

definition copy_option :: "('c list \<Rightarrow> 'a \<Rightarrow> 'a \<times> 'c list) \<Rightarrow> 'c list \<Rightarrow> 'a option \<Rightarrow> 'a option \<times> 'c list" where
  "copy_option cp s x = (case x of None \<Rightarrow> (None, s) | Some a \<Rightarrow> let (b, s1) = cp s a in (Some b, s1))"

definition option_cells :: "('c list \<Rightarrow> 'a \<Rightarrow> addr set) \<Rightarrow> 'c list \<Rightarrow> 'a option \<Rightarrow> addr set" where
  "option_cells ce s x = (case x of None \<Rightarrow> {} | Some a \<Rightarrow> ce s a)"

definition option_ok :: "('c list \<Rightarrow> 'a \<Rightarrow> bool) \<Rightarrow> 'c list \<Rightarrow> 'a option \<Rightarrow> bool" where
  "option_ok ok s x = (case x of None \<Rightarrow> True | Some a \<Rightarrow> ok s a)"

lemma deep_copier_option:
  assumes "deep_copier cp vw ce ok"
  shows "deep_copier (copy_option cp) (\<lambda>s. map_option (vw s)) (option_cells ce) (option_ok ok)"
proof
  fix s x y s'
  assume *: "option_ok ok s x" "copy_option cp s x = (y, s')"
  show "extends s s' \<and> option_ok ok s' y \<and> map_option (vw s') y = map_option (vw s) x \<and>
      option_cells ce s' y \<subseteq> {length s ..< length s'}"
  proof (cases x)
    case None
    with * show ?thesis by (auto simp: option_ok_def copy_option_def option_cells_def)
  next
    case (Some a)
    obtain b s1 where "cp s a = (b, s1)" by fastforce
    with * Some deep_copier.copies [OF assms, of s a b s1] show ?thesis
      by (auto simp: option_ok_def copy_option_def option_cells_def)
  qed
next
  fix s x s'
  assume "option_ok ok s x" "length s \<le> length s'" "\<forall>a \<in> option_cells ce s x. s' ! a = s ! a"
  then show "option_ok ok s' x \<and> map_option (vw s') x = map_option (vw s) x \<and> option_cells ce s' x = option_cells ce s x"
    using deep_copier.frame [OF assms, of s "the x" s'] by (cases x) (simp_all add: option_ok_def option_cells_def)
next
  fix s x
  assume "option_ok ok s x"
  then show "option_cells ce s x \<subseteq> {..< length s}"
    using deep_copier.allocated [OF assms] by (cases x) (auto simp: option_ok_def option_cells_def)
qed

text \<open>Two fields, copied one after the other.\<close>

definition copy_pair ::
  "('c list \<Rightarrow> 'a \<Rightarrow> 'a \<times> 'c list) \<Rightarrow> ('c list \<Rightarrow> 'b \<Rightarrow> 'b \<times> 'c list) \<Rightarrow>
    'c list \<Rightarrow> 'a \<times> 'b \<Rightarrow> ('a \<times> 'b) \<times> 'c list"
where
  "copy_pair cp1 cp2 s x = (let (a, s1) = cp1 s (fst x); (b, s2) = cp2 s1 (snd x) in ((a, b), s2))"

lemma deep_copier_pair:
  assumes "deep_copier cp1 v1 ce1 ok1" and "deep_copier cp2 v2 ce2 ok2"
  shows "deep_copier (copy_pair cp1 cp2) (\<lambda>s x. (v1 s (fst x), v2 s (snd x)))
    (\<lambda>s x. ce1 s (fst x) \<union> ce2 s (snd x)) (\<lambda>s x. ok1 s (fst x) \<and> ok2 s (snd x))"
proof
  fix s s' x y
  assume ok: "ok1 s (fst x) \<and> ok2 s (snd x)" and "copy_pair cp1 cp2 s x = (y, s')"
  then obtain s1 where c1: "cp1 s (fst x) = (fst y, s1)" and c2: "cp2 s1 (snd x) = (snd y, s')"
    by (auto simp: copy_pair_def split: prod.splits)
  from deep_copier.copies [OF assms(1) _ c1] ok have y1: "extends s s1" "ok1 s1 (fst y)"
    "v1 s1 (fst y) = v1 s (fst x)" "ce1 s1 (fst y) \<subseteq> {length s ..< length s1}" by simp_all
  from deep_copier.extended [OF assms(2) _ y1(1)] ok have x2: "ok2 s1 (snd x)" "v2 s1 (snd x) = v2 s (snd x)" by simp_all
  from deep_copier.copies [OF assms(2) x2(1) c2] have y2: "extends s1 s'" "ok2 s' (snd y)"
    "v2 s' (snd y) = v2 s1 (snd x)" "ce2 s' (snd y) \<subseteq> {length s1 ..< length s'}" by simp_all
  from deep_copier.extended [OF assms(1) y1(2) y2(1)] have y1': "ok1 s' (fst y)" "v1 s' (fst y) = v1 s1 (fst y)"
    "ce1 s' (fst y) = ce1 s1 (fst y)" by simp_all
  have "length s \<le> length s1" "length s1 \<le> length s'" using y1(1) y2(1) by (simp_all add: extends_length)
  with y1 y2 y1' x2 show "extends s s' \<and> (ok1 s' (fst y) \<and> ok2 s' (snd y)) \<and>
      (v1 s' (fst y), v2 s' (snd y)) = (v1 s (fst x), v2 s (snd x)) \<and>
      ce1 s' (fst y) \<union> ce2 s' (snd y) \<subseteq> {length s ..< length s'}"
    by (auto intro: extends_trans)
next
  fix s s' x
  assume "ok1 s (fst x) \<and> ok2 s (snd x)" "length s \<le> length s'" "\<forall>a \<in> ce1 s (fst x) \<union> ce2 s (snd x). s' ! a = s ! a"
  then show "(ok1 s' (fst x) \<and> ok2 s' (snd x)) \<and> (v1 s' (fst x), v2 s' (snd x)) = (v1 s (fst x), v2 s (snd x)) \<and>
      ce1 s' (fst x) \<union> ce2 s' (snd x) = ce1 s (fst x) \<union> ce2 s (snd x)"
    using deep_copier.frame [OF assms(1), of s "fst x" s'] deep_copier.frame [OF assms(2), of s "snd x" s'] by simp
next
  fix s x
  assume "ok1 s (fst x) \<and> ok2 s (snd x)"
  then show "ce1 s (fst x) \<union> ce2 s (snd x) \<subseteq> {..< length s}"
    using deep_copier.allocated [OF assms(1), of s "fst x"] deep_copier.allocated [OF assms(2), of s "snd x"] by simp
qed

text \<open>A struct whose fields \<open>g\<close> are copied and put back with \<open>h\<close>; the rest of it is taken over.\<close>

lemma deep_copier_struct:
  assumes "deep_copier cp vw ce ok" and "\<And>r x. g (h r x) = x" and "\<And>r x. Q (h r x) = Q r"
    and "\<And>r x v. w (h r x) v = w r v"
  shows "deep_copier (\<lambda>s r. let (x, s1) = cp s (g r) in (h r x, s1)) (\<lambda>s r. w r (vw s (g r)))
    (\<lambda>s r. ce s (g r)) (\<lambda>s r. ok s (g r) \<and> Q r)"
proof
  fix s r y s'
  assume ok: "ok s (g r) \<and> Q r" and "(let (x, s1) = cp s (g r) in (h r x, s1)) = (y, s')"
  then obtain x where c: "cp s (g r) = (x, s')" and y: "y = h r x" by (auto split: prod.splits)
  from deep_copier.copies [OF assms(1) _ c] ok
  show "extends s s' \<and> (ok s' (g y) \<and> Q y) \<and> w y (vw s' (g y)) = w r (vw s (g r)) \<and> ce s' (g y) \<subseteq> {length s ..< length s'}"
    by (simp add: y assms(2-4))
next
  fix s r s'
  assume "ok s (g r) \<and> Q r" "length s \<le> length s'" "\<forall>a \<in> ce s (g r). s' ! a = s ! a"
  then show "(ok s' (g r) \<and> Q r) \<and> w r (vw s' (g r)) = w r (vw s (g r)) \<and> ce s' (g r) = ce s (g r)"
    using deep_copier.frame [OF assms(1), of s "g r" s'] by simp
qed (use deep_copier.allocated [OF assms(1)] in blast)


subsection \<open>Slices and pointers\<close>

text \<open>
  Arrays of one type: \<open>mk\<close> makes a cell of the elements, \<open>get\<close> reads them. The loop is the one that copies
  \<^verbatim>\<open>(*in)[i].DeepCopyInto(&(*out)[i])\<close> for each index of a range.
\<close>

fun copy_elems ::
  "('c list \<Rightarrow> 'a \<Rightarrow> 'a \<times> 'c list) \<Rightarrow> ('c \<Rightarrow> 'a list) \<Rightarrow> ('a list \<Rightarrow> 'c) \<Rightarrow>
    addr \<Rightarrow> nat \<Rightarrow> addr \<Rightarrow> nat list \<Rightarrow> 'c list \<Rightarrow> 'c list"
where
  "copy_elems cp get mk a off b [] s = s"
| "copy_elems cp get mk a off b (i # is) s =
     (let (y, s1) = cp s (get (s ! a) ! (off + i)) in
      copy_elems cp get mk a off b is (s1[b := mk ((get (s1 ! b))[i := y])]))"

definition copy_slice ::
  "('c list \<Rightarrow> 'a \<Rightarrow> 'a \<times> 'c list) \<Rightarrow> ('c \<Rightarrow> 'a list) \<Rightarrow> ('a list \<Rightarrow> 'c) \<Rightarrow> 'a \<Rightarrow>
    'c list \<Rightarrow> slice \<Rightarrow> slice \<times> 'c list"
where
  "copy_slice cp get mk zero s l =
     (let n = sl_len l; b = length s
      in (\<lparr>sl_array = b, sl_off = 0, sl_len = n, sl_cap = n\<rparr>,
          copy_elems cp get mk (sl_array l) (sl_off l) b [0..<n] (s @ [mk (replicate n zero)])))"

text \<open>The generated method \<^verbatim>\<open>DeepCopy\<close> of a pointer.\<close>

definition copy_pointer ::
  "('c list \<Rightarrow> 'a \<Rightarrow> 'a \<times> 'c list) \<Rightarrow> ('c \<Rightarrow> 'a list) \<Rightarrow> ('a list \<Rightarrow> 'c) \<Rightarrow> 'a \<Rightarrow>
    'c list \<Rightarrow> pointer \<Rightarrow> pointer \<times> 'c list"
where
  "copy_pointer cp get mk zero s p =
     (case p of
        None \<Rightarrow> (None, s)
      | Some (a, i) \<Rightarrow>
          let b = length s
          in (Some (b, 0), copy_elems cp get mk a i b [0] (s @ [mk [zero]])))"

definition elems :: "('c \<Rightarrow> 'a list) \<Rightarrow> 'c list \<Rightarrow> slice \<Rightarrow> 'a list" where
  "elems get s l = take (sl_len l) (drop (sl_off l) (get (s ! sl_array l)))"

definition slice_cells :: "('c \<Rightarrow> 'a list) \<Rightarrow> ('c list \<Rightarrow> 'a \<Rightarrow> addr set) \<Rightarrow> 'c list \<Rightarrow> slice \<Rightarrow> addr set" where
  "slice_cells get ce s l = insert (sl_array l) (\<Union>x \<in> set (elems get s l). ce s x)"

definition slice_ok ::
  "('c \<Rightarrow> 'a list) \<Rightarrow> ('a list \<Rightarrow> 'c) \<Rightarrow> ('c list \<Rightarrow> 'a \<Rightarrow> bool) \<Rightarrow> 'c list \<Rightarrow> slice \<Rightarrow> bool"
where
  "slice_ok get mk ok s l \<longleftrightarrow> sl_array l < length s \<and> s ! sl_array l = mk (get (s ! sl_array l)) \<and>
     sl_len l \<le> sl_cap l \<and> sl_off l + sl_cap l \<le> length (get (s ! sl_array l)) \<and> (\<forall>x \<in> set (elems get s l). ok s x)"

text \<open>
  After the first \<open>k\<close> rounds the new array holds the copies of the first \<open>k\<close> elements.
\<close>

definition elems_copied ::
  "('c list \<Rightarrow> 'a \<Rightarrow> 'v) \<Rightarrow> ('c list \<Rightarrow> 'a \<Rightarrow> addr set) \<Rightarrow> ('c list \<Rightarrow> 'a \<Rightarrow> bool) \<Rightarrow> ('a list \<Rightarrow> 'c) \<Rightarrow>
    'c list \<Rightarrow> 'a list \<Rightarrow> 'a list \<Rightarrow> 'a list \<Rightarrow> 'c list \<Rightarrow> bool"
where
  "elems_copied vw ce ok mk s xs ys zs s' \<longleftrightarrow> extends s s' \<and> length s < length s' \<and> s' ! length s = mk (ys @ zs) \<and>
     length ys + length zs = length xs \<and>
     (\<forall>j < length ys. ok s' (ys ! j) \<and> vw s' (ys ! j) = vw s (xs ! j) \<and> ce s' (ys ! j) \<subseteq> {Suc (length s) ..< length s'})"

lemma copy_elems_round:
  assumes "deep_copier cp vw ce ok" and "elems_copied vw ce ok mk s xs ys (z # zs) s1"
    and "ok s (xs ! length ys)" and "cp s1 (xs ! length ys) = (y, s2)" and "\<And>xs. get (mk xs) = xs"
  shows "elems_copied vw ce ok mk s xs (ys @ [y]) zs (s2[length s := mk ((get (s2 ! length s))[length ys := y])])"
proof -
  let ?b = "length s" and ?s = "s2[length s := mk ((get (s2 ! length s))[length ys := y])]"
  note copier = deep_copier.copies [OF assms(1)] deep_copier.extended [OF assms(1)] deep_copier.untouched [OF assms(1)]
  from assms(2) have e: "extends s s1" and b: "?b < length s1" and cell: "s1 ! ?b = mk (ys @ z # zs)"
    and len: "length ys + length (z # zs) = length xs"
    and ys: "\<forall>j < length ys. ok s1 (ys ! j) \<and> vw s1 (ys ! j) = vw s (xs ! j) \<and> ce s1 (ys ! j) \<subseteq> {Suc ?b ..< length s1}"
    by (simp_all add: elems_copied_def)
  from copier(2) [OF assms(3) e] have x: "ok s1 (xs ! length ys)" "vw s1 (xs ! length ys) = vw s (xs ! length ys)" by simp_all
  from copier(1) [OF x(1) assms(4)] have e2: "extends s1 s2" and y: "ok s2 y" "vw s2 y = vw s (xs ! length ys)"
    and cy: "ce s2 y \<subseteq> {length s1 ..< length s2}" using x(2) by simp_all
  have b2: "length s1 \<le> length s2" "s2 ! ?b = mk (ys @ z # zs)"
    using extends_length [OF e2] extends_nth [OF e2 b] cell by simp_all
  have kept: "ok ?s w \<and> vw ?s w = vw s2 w \<and> ce ?s w = ce s2 w" if "ok s2 w" "ce s2 w \<subseteq> {Suc ?b ..< length s2}" for w
    using that by (intro copier(3)) auto
  have "ok ?s ((ys @ [y]) ! j) \<and> vw ?s ((ys @ [y]) ! j) = vw s (xs ! j) \<and>
      ce ?s ((ys @ [y]) ! j) \<subseteq> {Suc ?b ..< length ?s}" if "j < Suc (length ys)" for j
  proof (cases "j = length ys")
    case True
    moreover have "ce s2 y \<subseteq> {Suc ?b ..< length s2}" using cy b by auto
    ultimately show ?thesis using kept [OF y(1)] y(2) by simp
  next
    case False
    with that have j: "j < length ys" by simp
    with ys have o: "ok s1 (ys ! j)" "vw s1 (ys ! j) = vw s (xs ! j)" "ce s1 (ys ! j) \<subseteq> {Suc ?b ..< length s1}" by simp_all
    from copier(2) [OF o(1) e2] o b2(1) have o2: "ok s2 (ys ! j)" "vw s2 (ys ! j) = vw s (xs ! j)"
      "ce s2 (ys ! j) \<subseteq> {Suc ?b ..< length s2}" by auto
    from kept [OF o2(1,3)] o2 j show ?thesis by (simp add: nth_append)
  qed
  moreover have "?s ! ?b = mk (ys @ y # zs)" using b b2 by (simp add: assms(5))
  moreover have "extends s ?s" using extends_trans [OF e e2] by (simp add: extends_update)
  ultimately show ?thesis using b b2(1) len by (simp add: elems_copied_def)
qed

lemma copy_elems_rounds:
  assumes "deep_copier cp vw ce ok" and "\<And>xs. get (mk xs) = xs"
    and "a < length s" and "\<And>i. i < length xs \<Longrightarrow> xs ! i = get (s ! a) ! (off + i)" and "\<forall>x \<in> set xs. ok s x"
  shows "elems_copied vw ce ok mk s xs ys zs s1 \<Longrightarrow>
    \<exists>ys'. elems_copied vw ce ok mk s xs ys' [] (copy_elems cp get mk a off (length s) [length ys ..< length xs] s1)"
proof (induction zs arbitrary: ys s1)
  case Nil
  then have "length ys = length xs" by (simp add: elems_copied_def)
  with Nil show ?case by auto
next
  case (Cons z zs)
  then have k: "length ys < length xs" and e: "extends s s1" by (auto simp: elems_copied_def)
  obtain y s2 where c: "cp s1 (get (s1 ! a) ! (off + length ys)) = (y, s2)" by fastforce
  have "s1 ! a = s ! a" using extends_nth [OF e assms(3)] .
  then have x: "get (s1 ! a) ! (off + length ys) = xs ! length ys" using assms(4) [OF k] by simp
  have okx: "ok s (xs ! length ys)" using assms(5) k by simp
  from Cons.IH [OF copy_elems_round [OF assms(1) Cons.prems okx c [unfolded x] assms(2)]]
  show ?case using k by (simp add: upt_conv_Cons c)
qed

lemma elems_copied_start:
  "length zs = length xs \<Longrightarrow> elems_copied vw ce ok mk s xs [] zs (s @ [mk zs])"
  by (simp add: elems_copied_def)

lemma elems_nth: "i < sl_len l \<Longrightarrow> sl_off l + sl_len l \<le> length (get (s ! sl_array l)) \<Longrightarrow>
    elems get s l ! i = get (s ! sl_array l) ! (sl_off l + i)"
  by (simp add: elems_def)

lemma slice_frame:
  assumes "deep_copier cp vw ce ok" and "slice_ok get mk ok s l" and "length s \<le> length s'"
    and "\<forall>a \<in> slice_cells get ce s l. s' ! a = s ! a"
  shows "slice_ok get mk ok s' l \<and> elems get s' l = elems get s l \<and>
    map (vw s') (elems get s l) = map (vw s) (elems get s l) \<and> slice_cells get ce s' l = slice_cells get ce s l"
proof -
  have a: "s' ! sl_array l = s ! sl_array l" using assms(4) by (simp add: slice_cells_def)
  then have e: "elems get s' l = elems get s l" by (simp add: elems_def)
  have f: "ok s' x \<and> vw s' x = vw s x \<and> ce s' x = ce s x" if "x \<in> set (elems get s l)" for x
    using deep_copier.frame [OF assms(1) _ assms(3), of x] assms(2,4) that
    by (auto simp: slice_cells_def slice_ok_def)
  then show ?thesis using assms(2,3) a e by (auto simp: slice_ok_def slice_cells_def)
qed

lemma deep_copier_slice:
  assumes "deep_copier cp vw ce ok" and "\<And>xs. get (mk xs) = xs"
  shows "deep_copier (copy_slice cp get mk zero) (\<lambda>s l. map (vw s) (elems get s l)) (slice_cells get ce) (slice_ok get mk ok)"
proof
  fix s l y s'
  assume ok: "slice_ok get mk ok s l" and "copy_slice cp get mk zero s l = (y, s')"
  then have y: "y = \<lparr>sl_array = length s, sl_off = 0, sl_len = sl_len l, sl_cap = sl_len l\<rparr>"
    and s': "s' = copy_elems cp get mk (sl_array l) (sl_off l) (length s) [0..<sl_len l]
      (s @ [mk (replicate (sl_len l) zero)])" by (simp_all add: copy_slice_def Let_def)
  let ?xs = "elems get s l"
  have r: "sl_array l < length s" "sl_off l + sl_len l \<le> length (get (s ! sl_array l))" "\<forall>x \<in> set ?xs. ok s x"
    using ok by (auto simp: slice_ok_def)
  then have len: "length ?xs = sl_len l" by (simp add: elems_def)
  have nth: "?xs ! i = get (s ! sl_array l) ! (sl_off l + i)" if "i < length ?xs" for i
    using that len r(2) by (simp add: elems_nth)
  from copy_elems_rounds [OF assms r(1) nth r(3) elems_copied_start, of "replicate (sl_len l) zero"] obtain ys where
    c: "elems_copied vw ce ok mk s ?xs ys [] s'" by (auto simp: s' len)
  then have el: "elems get s' y = ys" "length ys = length ?xs" by (simp_all add: elems_copied_def elems_def y assms(2) len)
  have "map (vw s') ys = map (vw s) ?xs"
    using c el(2) by (intro nth_equalityI) (simp_all add: elems_copied_def)
  moreover have "ok s' x \<and> ce s' x \<subseteq> {Suc (length s) ..< length s'}" if "x \<in> set ys" for x
    using that c by (auto simp: elems_copied_def in_set_conv_nth)
  ultimately show "extends s s' \<and> slice_ok get mk ok s' y \<and> map (vw s') (elems get s' y) = map (vw s) ?xs \<and>
      slice_cells get ce s' y \<subseteq> {length s ..< length s'}"
    using c el len by (fastforce simp: elems_copied_def slice_ok_def slice_cells_def y assms(2))
next
  fix s l s'
  assume "slice_ok get mk ok s l" "length s \<le> length s'" "\<forall>a \<in> slice_cells get ce s l. s' ! a = s ! a"
  from slice_frame [OF assms(1) this] show "slice_ok get mk ok s' l \<and>
      map (vw s') (elems get s' l) = map (vw s) (elems get s l) \<and> slice_cells get ce s' l = slice_cells get ce s l" by simp
next
  fix s l
  assume "slice_ok get mk ok s l"
  then show "slice_cells get ce s l \<subseteq> {..< length s}"
    using deep_copier.allocated [OF assms(1)] by (fastforce simp: slice_ok_def slice_cells_def)
qed



text \<open>A pointer is a slice of one element, as far as copying is concerned.\<close>

abbreviation one :: "addr \<times> nat \<Rightarrow> slice" where
  "one p \<equiv> \<lparr>sl_array = fst p, sl_off = snd p, sl_len = 1, sl_cap = 1\<rparr>"

definition deref :: "('c \<Rightarrow> 'a list) \<Rightarrow> 'c list \<Rightarrow> addr \<times> nat \<Rightarrow> 'a" where
  "deref get s p = get (s ! fst p) ! snd p"

definition pointer_ok ::
  "('c \<Rightarrow> 'a list) \<Rightarrow> ('a list \<Rightarrow> 'c) \<Rightarrow> ('c list \<Rightarrow> 'a \<Rightarrow> bool) \<Rightarrow> 'c list \<Rightarrow> addr \<times> nat \<Rightarrow> bool"
where
  "pointer_ok get mk ok s p \<longleftrightarrow> fst p < length s \<and> s ! fst p = mk (get (s ! fst p)) \<and>
     snd p < length (get (s ! fst p)) \<and> ok s (deref get s p)"

definition pointer_cells :: "('c \<Rightarrow> 'a list) \<Rightarrow> ('c list \<Rightarrow> 'a \<Rightarrow> addr set) \<Rightarrow> 'c list \<Rightarrow> addr \<times> nat \<Rightarrow> addr set" where
  "pointer_cells get ce s p = insert (fst p) (ce s (deref get s p))"

lemma elems_one: "snd p < length (get (s ! fst p)) \<Longrightarrow> elems get s (one p) = [deref get s p]"
  by (simp add: elems_def deref_def take_Suc hd_drop_conv_nth)

lemma pointer_slice:
  assumes "pointer_ok get mk ok s p"
  shows "slice_ok get mk ok s (one p)" "slice_cells get ce s (one p) = pointer_cells get ce s p"
    "elems get s (one p) = [deref get s p]"
  using assms elems_one [of p get s] by (simp_all add: pointer_ok_def slice_ok_def slice_cells_def pointer_cells_def)

lemma slice_pointer: "slice_ok get mk ok s (one p) \<Longrightarrow> pointer_ok get mk ok s p"
  using elems_one [of p get s] by (simp add: pointer_ok_def slice_ok_def)

lemma copy_pointer_slice:
  "copy_pointer cp get mk zero s p =
    copy_option (\<lambda>s p. let (l, s1) = copy_slice cp get mk zero s (one p) in ((sl_array l, sl_off l), s1)) s p"
  by (cases p) (simp_all add: copy_pointer_def copy_option_def copy_slice_def Let_def split: prod.splits)

lemma deep_copier_pointer:
  assumes "deep_copier cp vw ce ok" and "\<And>xs. get (mk xs) = xs"
  shows "deep_copier (copy_pointer cp get mk zero) (\<lambda>s. map_option (\<lambda>p. vw s (deref get s p)))
    (option_cells (pointer_cells get ce)) (option_ok (pointer_ok get mk ok))"
  unfolding copy_pointer_slice [abs_def]
proof (rule deep_copier_option)
  let ?cp = "\<lambda>s p. let (l, s1) = copy_slice cp get mk zero s (one p) in ((sl_array l, sl_off l), s1)"
  note slice = deep_copier_slice [of cp vw ce ok get mk zero, OF assms]
  show "deep_copier ?cp (\<lambda>s p. vw s (deref get s p)) (pointer_cells get ce) (pointer_ok get mk ok)"
  proof
    fix s p q s'
    assume ok: "pointer_ok get mk ok s p" and "?cp s p = (q, s')"
    then have q: "q = (length s, 0)" and c: "copy_slice cp get mk zero s (one p) = (one q, s')"
      by (auto simp: copy_slice_def Let_def)
    from deep_copier.copies [OF slice pointer_slice(1) [OF ok] c] have y: "extends s s'" "slice_ok get mk ok s' (one q)"
      "map (vw s') (elems get s' (one q)) = map (vw s) (elems get s (one p))"
      "slice_cells get ce s' (one q) \<subseteq> {length s ..< length s'}" by simp_all
    from y pointer_slice [OF ok] pointer_slice [OF slice_pointer [OF y(2)]]
    show "extends s s' \<and> pointer_ok get mk ok s' q \<and> vw s' (deref get s' q) = vw s (deref get s p) \<and>
      pointer_cells get ce s' q \<subseteq> {length s ..< length s'}" by (simp add: slice_pointer)
  next
    fix s p s'
    assume ok: "pointer_ok get mk ok s p" and l: "length s \<le> length s'" "\<forall>a \<in> pointer_cells get ce s p. s' ! a = s ! a"
    from deep_copier.frame [OF slice pointer_slice(1) [OF ok] l(1)] l(2) pointer_slice [OF ok]
    have y: "slice_ok get mk ok s' (one p)" "map (vw s') (elems get s' (one p)) = map (vw s) (elems get s (one p))"
      "slice_cells get ce s' (one p) = slice_cells get ce s (one p)" by simp_all
    from y pointer_slice [OF ok] pointer_slice [OF slice_pointer [OF y(1)]]
    show "pointer_ok get mk ok s' p \<and> vw s' (deref get s' p) = vw s (deref get s p) \<and>
      pointer_cells get ce s' p = pointer_cells get ce s p" by (simp add: slice_pointer)
  next
    fix s p
    assume ok: "pointer_ok get mk ok s p"
    from deep_copier.allocated [OF slice pointer_slice(1) [OF ok]] pointer_slice(2) [OF ok]
    show "pointer_cells get ce s p \<subseteq> {..< length s}" by simp
  qed
qed



text \<open>A cell with one value of a type that holds no pointers, allocated anew for the copy.\<close>

definition copy_value :: "('c \<Rightarrow> 'a list) \<Rightarrow> ('a list \<Rightarrow> 'c) \<Rightarrow> 'c list \<Rightarrow> addr \<times> nat \<Rightarrow> (addr \<times> nat) \<times> 'c list" where
  "copy_value get mk s p = ((length s, 0), s @ [mk [deref get s p]])"

lemma deep_copier_value:
  assumes "\<And>xs. get (mk xs) = xs"
  shows "deep_copier (copy_value get mk) (deref get) (pointer_cells get (\<lambda>s x. {})) (pointer_ok get mk (\<lambda>s x. True))"
  by unfold_locales (auto simp: copy_value_def pointer_ok_def pointer_cells_def deref_def assms)

text \<open>What a copy promises, spelled out.\<close>

definition independent_copy ::
  "('c list \<Rightarrow> 'a \<Rightarrow> 'v) \<Rightarrow> ('c list \<Rightarrow> 'a \<Rightarrow> addr set) \<Rightarrow> 'c list \<Rightarrow> 'a \<Rightarrow> 'a \<Rightarrow> 'c list \<Rightarrow> bool"
where
  "independent_copy vw ce s x y s' \<longleftrightarrow>
     extends s s' \<and> vw s' y = vw s x \<and> vw s' x = vw s x \<and> ce s' x \<inter> ce s' y = {} \<and>
     (\<forall>a \<in> ce s' y. \<forall>c. vw (s'[a := c]) x = vw s x) \<and> (\<forall>a \<in> ce s' x. \<forall>c. vw (s'[a := c]) y = vw s x)"

context deep_copier
begin

lemma copy_independent: "ok s x \<Longrightarrow> copy s x = (y, s') \<Longrightarrow> independent_copy view cells s x y s'"
  using independent [of s x y s'] copies [of s x y s'] by (simp add: independent_copy_def)

end


end
