(* ===== verification/Api_Copy.thy ===== *)
theory Api_Copy
  imports Go_Store Api_Properties
begin

text \<open>
  \<^verbatim>\<open>api/v1alpha1/zz_generated.deepcopy.go\<close> over a store of cells. In \<open>Masq_Api\<close> a rule is a value; here it is what
  the code has, structs with pointers to times and slices of conditions. The copying of times and metadata
  is code of the API machinery: the fields of \<open>copy_lib\<close>, with the laws of the locale \<open>copy_laws\<close>.
\<close>

section \<open>The types in memory\<close>

text \<open>The status of a condition is \<^const>\<open>None\<close> where the code has the empty string.\<close>

record ref_condition =
  cn_type :: string
  cn_status :: "condition_status option"
  cn_last_update :: pointer
  cn_last_transition :: pointer
  cn_reason :: string
  cn_message :: string

record ref_status =
  rs_observed_generation :: int
  rs_conditions :: "slice option"
  rs_state :: rule_state

record 'm ref_rule =
  ru_type_meta :: "string \<times> string"
  ru_meta :: 'm
  ru_spec :: rule_spec
  ru_status :: ref_status

record 'n ref_rule_list =
  rl_type_meta :: "string \<times> string"
  rl_list_meta :: 'n
  rl_items :: "slice option"

datatype ('l, 'm, 'n) cell =
    Lib "'l list"
  | Times "time list"
  | Conditions "ref_condition list"
  | Specs "rule_spec list"
  | Statuses "ref_status list"
  | Rules "'m ref_rule list"
  | Rule_Lists "'n ref_rule_list list"

fun lib_of :: "('l, 'm, 'n) cell \<Rightarrow> 'l list" where
  "lib_of (Lib xs) = xs" | "lib_of c = []"

fun times_of :: "('l, 'm, 'n) cell \<Rightarrow> time list" where
  "times_of (Times xs) = xs" | "times_of c = []"

fun conditions_of :: "('l, 'm, 'n) cell \<Rightarrow> ref_condition list" where
  "conditions_of (Conditions xs) = xs" | "conditions_of c = []"

fun specs_of :: "('l, 'm, 'n) cell \<Rightarrow> rule_spec list" where
  "specs_of (Specs xs) = xs" | "specs_of c = []"

fun statuses_of :: "('l, 'm, 'n) cell \<Rightarrow> ref_status list" where
  "statuses_of (Statuses xs) = xs" | "statuses_of c = []"

fun rules_of :: "('l, 'm, 'n) cell \<Rightarrow> 'm ref_rule list" where
  "rules_of (Rules xs) = xs" | "rules_of c = []"

fun rule_lists_of :: "('l, 'm, 'n) cell \<Rightarrow> 'n ref_rule_list list" where
  "rule_lists_of (Rule_Lists xs) = xs" | "rule_lists_of c = []"

text \<open>The zero values that \<^verbatim>\<open>new\<close> and \<^verbatim>\<open>make\<close> give.\<close>

definition zero_condition :: ref_condition where
  "zero_condition = \<lparr>cn_type = '''', cn_status = None, cn_last_update = None, cn_last_transition = None,
     cn_reason = '''', cn_message = ''''\<rparr>"

definition zero_spec :: rule_spec where
  "zero_spec = \<lparr>sp_from = '''', sp_to = ''''\<rparr>"

definition zero_status :: ref_status where
  "zero_status = \<lparr>rs_observed_generation = 0, rs_conditions = None, rs_state = StateUnset\<rparr>"

section \<open>The generated methods\<close>

type_synonym ('l, 'm, 'n, 'a) copying =
  "('l, 'm, 'n) cell list \<Rightarrow> 'a \<Rightarrow> 'a \<times> ('l, 'm, 'n) cell list"

record ('l, 'm, 'n) copy_lib =
  dl_time :: "('l, 'm, 'n, addr \<times> nat) copying"
  dl_meta :: "('l, 'm, 'n, 'm) copying"
  dl_list_meta :: "('l, 'm, 'n, 'n) copying"
  dl_zero_meta :: 'm
  dl_zero_list_meta :: 'n

definition zero_rule :: "('l, 'm, 'n) copy_lib \<Rightarrow> 'm ref_rule" where
  "zero_rule D = \<lparr>ru_type_meta = ('''', ''''), ru_meta = dl_zero_meta D, ru_spec = zero_spec, ru_status = zero_status\<rparr>"

definition zero_rule_list :: "('l, 'm, 'n) copy_lib \<Rightarrow> 'n ref_rule_list" where
  "zero_rule_list D = \<lparr>rl_type_meta = ('''', ''''), rl_list_meta = dl_zero_list_meta D, rl_items = None\<rparr>"

text \<open>\<^verbatim>\<open>DeepCopyInto\<close> returns what it writes to its argument \<^verbatim>\<open>out\<close>; a struct is taken over first.\<close>

definition condition_deep_copy_into :: "('l, 'm, 'n) copy_lib \<Rightarrow> ('l, 'm, 'n, ref_condition) copying" where
  "condition_deep_copy_into D s c =
     (let (u, s1) = copy_option (dl_time D) s (cn_last_update c);
          (t, s2) = copy_option (dl_time D) s1 (cn_last_transition c)
      in (c\<lparr>cn_last_update := u, cn_last_transition := t\<rparr>, s2))"

definition spec_deep_copy_into :: "('l, 'm, 'n, rule_spec) copying" where
  "spec_deep_copy_into s sp = (sp, s)"

definition status_deep_copy_into :: "('l, 'm, 'n) copy_lib \<Rightarrow> ('l, 'm, 'n, ref_status) copying" where
  "status_deep_copy_into D s st =
     (let (cs, s1) = copy_option
           (copy_slice (condition_deep_copy_into D) conditions_of Conditions zero_condition) s (rs_conditions st)
      in (st\<lparr>rs_conditions := cs\<rparr>, s1))"

definition rule_deep_copy_into :: "('l, 'm, 'n) copy_lib \<Rightarrow> ('l, 'm, 'n, 'm ref_rule) copying" where
  "rule_deep_copy_into D s r =
     (let (m, s1) = dl_meta D s (ru_meta r);
          (st, s2) = status_deep_copy_into D s1 (ru_status r)
      in (r\<lparr>ru_meta := m, ru_status := st\<rparr>, s2))"

definition rule_list_deep_copy_into :: "('l, 'm, 'n) copy_lib \<Rightarrow> ('l, 'm, 'n, 'n ref_rule_list) copying" where
  "rule_list_deep_copy_into D s l =
     (let (m, s1) = dl_list_meta D s (rl_list_meta l);
          (is, s2) = copy_option (copy_slice (rule_deep_copy_into D) rules_of Rules (zero_rule D)) s1 (rl_items l)
      in (l\<lparr>rl_list_meta := m, rl_items := is\<rparr>, s2))"

text \<open>\<^verbatim>\<open>DeepCopy\<close> of pointers; \<^verbatim>\<open>DeepCopyObject\<close> returns the same pointer as an object, or nil.\<close>

definition condition_deep_copy :: "('l, 'm, 'n) copy_lib \<Rightarrow> ('l, 'm, 'n, pointer) copying" where
  "condition_deep_copy D = copy_pointer (condition_deep_copy_into D) conditions_of Conditions zero_condition"

definition spec_deep_copy :: "('l, 'm, 'n, pointer) copying" where
  "spec_deep_copy = copy_pointer spec_deep_copy_into specs_of Specs zero_spec"

definition status_deep_copy :: "('l, 'm, 'n) copy_lib \<Rightarrow> ('l, 'm, 'n, pointer) copying" where
  "status_deep_copy D = copy_pointer (status_deep_copy_into D) statuses_of Statuses zero_status"

definition rule_deep_copy :: "('l, 'm, 'n) copy_lib \<Rightarrow> ('l, 'm, 'n, pointer) copying" where
  "rule_deep_copy D = copy_pointer (rule_deep_copy_into D) rules_of Rules (zero_rule D)"

definition rule_list_deep_copy :: "('l, 'm, 'n) copy_lib \<Rightarrow> ('l, 'm, 'n, pointer) copying" where
  "rule_list_deep_copy D = copy_pointer (rule_list_deep_copy_into D) rule_lists_of Rule_Lists (zero_rule_list D)"

definition rule_deep_copy_object :: "('l, 'm, 'n) copy_lib \<Rightarrow> ('l, 'm, 'n, pointer) copying" where
  "rule_deep_copy_object D s p =
     (let (c, s1) = rule_deep_copy D s p in case c of Some q \<Rightarrow> (Some q, s1) | None \<Rightarrow> (None, s1))"

definition rule_list_deep_copy_object :: "('l, 'm, 'n) copy_lib \<Rightarrow> ('l, 'm, 'n, pointer) copying" where
  "rule_list_deep_copy_object D s p =
     (let (c, s1) = rule_list_deep_copy D s p in case c of Some q \<Rightarrow> (Some q, s1) | None \<Rightarrow> (None, s1))"


section \<open>Reading the memory\<close>

abbreviation time_ok :: "('l, 'm, 'n) cell list \<Rightarrow> addr \<times> nat \<Rightarrow> bool" where
  "time_ok \<equiv> pointer_ok times_of Times (\<lambda>s x. True)"

abbreviation time_cells :: "('l, 'm, 'n) cell list \<Rightarrow> addr \<times> nat \<Rightarrow> addr set" where
  "time_cells \<equiv> pointer_cells times_of (\<lambda>s x. {})"

definition condition_view :: "('l, 'm, 'n) cell list \<Rightarrow> ref_condition \<Rightarrow> rule_condition" where
  "condition_view s c =
     \<lparr>rc_type = cn_type c, rc_status = (case cn_status c of None \<Rightarrow> ConditionUnknown | Some st \<Rightarrow> st),
      rc_last_update = map_option (deref times_of s) (cn_last_update c),
      rc_last_transition = map_option (deref times_of s) (cn_last_transition c),
      rc_reason = cn_reason c, rc_message = cn_message c\<rparr>"

definition condition_cells :: "('l, 'm, 'n) cell list \<Rightarrow> ref_condition \<Rightarrow> addr set" where
  "condition_cells s c =
     option_cells time_cells s (cn_last_update c) \<union> option_cells time_cells s (cn_last_transition c)"

definition condition_ok :: "('l, 'm, 'n) cell list \<Rightarrow> ref_condition \<Rightarrow> bool" where
  "condition_ok s c \<longleftrightarrow> option_ok time_ok s (cn_last_update c) \<and> option_ok time_ok s (cn_last_transition c) \<and>
     cn_status c \<noteq> None"

definition conditions_view :: "('l, 'm, 'n) cell list \<Rightarrow> slice option \<Rightarrow> rule_condition list" where
  "conditions_view s cs =
     (case cs of None \<Rightarrow> [] | Some l \<Rightarrow> map (condition_view s) (elems conditions_of s l))"

definition conditions_cells :: "('l, 'm, 'n) cell list \<Rightarrow> slice option \<Rightarrow> addr set" where
  "conditions_cells = option_cells (slice_cells conditions_of condition_cells)"

definition conditions_in_order :: "('l, 'm, 'n) cell list \<Rightarrow> slice option \<Rightarrow> bool" where
  "conditions_in_order = option_ok (slice_ok conditions_of Conditions condition_ok)"

definition status_view :: "('l, 'm, 'n) cell list \<Rightarrow> ref_status \<Rightarrow> rule_status" where
  "status_view s st =
     \<lparr>st_observed_generation = rs_observed_generation st, st_conditions = conditions_view s (rs_conditions st),
      st_state = rs_state st\<rparr>"

definition status_cells :: "('l, 'm, 'n) cell list \<Rightarrow> ref_status \<Rightarrow> addr set" where
  "status_cells s st = conditions_cells s (rs_conditions st)"

definition status_ok :: "('l, 'm, 'n) cell list \<Rightarrow> ref_status \<Rightarrow> bool" where
  "status_ok s st \<longleftrightarrow> conditions_in_order s (rs_conditions st)"

text \<open>The metadata is read by a function of the API machinery. The kind and version of an object come first.\<close>

definition rule_view ::
  "(('l, 'm, 'n) cell list \<Rightarrow> 'm \<Rightarrow> object_meta) \<Rightarrow> ('l, 'm, 'n) cell list \<Rightarrow> 'm ref_rule \<Rightarrow>
    (string \<times> string) \<times> masquerading_rule"
where
  "rule_view mv s r =
     (ru_type_meta r, \<lparr>mr_meta = mv s (ru_meta r), mr_spec = ru_spec r, mr_status = status_view s (ru_status r)\<rparr>)"

definition rule_cells ::
  "(('l, 'm, 'n) cell list \<Rightarrow> 'm \<Rightarrow> addr set) \<Rightarrow> ('l, 'm, 'n) cell list \<Rightarrow> 'm ref_rule \<Rightarrow> addr set"
where
  "rule_cells mc s r = mc s (ru_meta r) \<union> status_cells s (ru_status r)"

definition rule_ok ::
  "(('l, 'm, 'n) cell list \<Rightarrow> 'm \<Rightarrow> bool) \<Rightarrow> ('l, 'm, 'n) cell list \<Rightarrow> 'm ref_rule \<Rightarrow> bool"
where
  "rule_ok mo s r \<longleftrightarrow> mo s (ru_meta r) \<and> status_ok s (ru_status r)"

definition rule_list_view ::
  "(('l, 'm, 'n) cell list \<Rightarrow> 'm \<Rightarrow> object_meta) \<Rightarrow> (('l, 'm, 'n) cell list \<Rightarrow> 'n \<Rightarrow> 'k) \<Rightarrow>
    ('l, 'm, 'n) cell list \<Rightarrow> 'n ref_rule_list \<Rightarrow>
    (string \<times> string) \<times> 'k \<times> ((string \<times> string) \<times> masquerading_rule) list option"
where
  "rule_list_view mv lv s l =
     (rl_type_meta l, lv s (rl_list_meta l), map_option (\<lambda>i. map (rule_view mv s) (elems rules_of s i)) (rl_items l))"

definition rule_list_cells ::
  "(('l, 'm, 'n) cell list \<Rightarrow> 'm \<Rightarrow> addr set) \<Rightarrow> (('l, 'm, 'n) cell list \<Rightarrow> 'n \<Rightarrow> addr set) \<Rightarrow>
    ('l, 'm, 'n) cell list \<Rightarrow> 'n ref_rule_list \<Rightarrow> addr set"
where
  "rule_list_cells mc lc s l =
     lc s (rl_list_meta l) \<union> option_cells (slice_cells rules_of (rule_cells mc)) s (rl_items l)"

definition rule_list_ok ::
  "(('l, 'm, 'n) cell list \<Rightarrow> 'm \<Rightarrow> bool) \<Rightarrow> (('l, 'm, 'n) cell list \<Rightarrow> 'n \<Rightarrow> bool) \<Rightarrow>
    ('l, 'm, 'n) cell list \<Rightarrow> 'n ref_rule_list \<Rightarrow> bool"
where
  "rule_list_ok mo lo s l \<longleftrightarrow>
     lo s (rl_list_meta l) \<and> option_ok (slice_ok rules_of Rules (rule_ok mo)) s (rl_items l)"

section \<open>The generated methods copy deeply\<close>

locale copy_laws =
  time: deep_copier "dl_time D" "deref times_of" time_cells time_ok +
  meta: deep_copier "dl_meta D" mv mc mo +
  list_meta: deep_copier "dl_list_meta D" lv lc lo
  for D :: "('l, 'm, 'n) copy_lib"
    and mv :: "('l, 'm, 'n) cell list \<Rightarrow> 'm \<Rightarrow> object_meta" and mc mo
    and lv :: "('l, 'm, 'n) cell list \<Rightarrow> 'n \<Rightarrow> 'k" and lc lo
begin

lemma condition_copier: "deep_copier (condition_deep_copy_into D) condition_view condition_cells condition_ok"
proof -
  let ?g = "\<lambda>c. (cn_last_update c, cn_last_transition c)"
  let ?h = "\<lambda>c x. c\<lparr>cn_last_update := fst x, cn_last_transition := snd x\<rparr>"
  let ?w = "\<lambda>c v. \<lparr>rc_type = cn_type c, rc_status = (case cn_status c of None \<Rightarrow> ConditionUnknown | Some st \<Rightarrow> st),
      rc_last_update = fst v, rc_last_transition = snd v, rc_reason = cn_reason c, rc_message = cn_message c\<rparr>"
  note o = deep_copier_option [OF time.deep_copier_axioms]
  have "deep_copier (\<lambda>s c. let (x, s1) = copy_pair (copy_option (dl_time D)) (copy_option (dl_time D)) s (?g c) in (?h c x, s1))
    (\<lambda>s c. ?w c (map_option (deref times_of s) (fst (?g c)), map_option (deref times_of s) (snd (?g c))))
    (\<lambda>s c. option_cells time_cells s (fst (?g c)) \<union> option_cells time_cells s (snd (?g c)))
    (\<lambda>s c. (option_ok time_ok s (fst (?g c)) \<and> option_ok time_ok s (snd (?g c))) \<and> cn_status c \<noteq> None)"
    by (rule deep_copier_struct [OF deep_copier_pair [OF o o]]) simp_all
  also have "(\<lambda>s c. let (x, s1) = copy_pair (copy_option (dl_time D)) (copy_option (dl_time D)) s (?g c) in (?h c x, s1)) =
      condition_deep_copy_into D"
    by (intro ext) (simp add: condition_deep_copy_into_def copy_pair_def Let_def split: prod.splits)
  finally show ?thesis
    by (simp add: condition_view_def [abs_def] condition_cells_def [abs_def] condition_ok_def [abs_def])
qed

lemma conditions_copier:
  "deep_copier (copy_option (copy_slice (condition_deep_copy_into D) conditions_of Conditions zero_condition))
    conditions_view conditions_cells conditions_in_order"
proof -
  have "conditions_view = (\<lambda>s :: ('l, 'm, 'n) cell list. case_option [] (\<lambda>l. map (condition_view s) (elems conditions_of s l)))"
    by (intro ext) (simp add: conditions_view_def)
  moreover note deep_copier_struct [OF deep_copier_option [OF deep_copier_slice [OF condition_copier, of _ Conditions]],
      of conditions_of "\<lambda>x. x" "\<lambda>r x. x" "\<lambda>r. True" "\<lambda>r v. case v of None \<Rightarrow> [] | Some xs \<Rightarrow> xs" zero_condition]
  ultimately show ?thesis by (simp add: conditions_cells_def conditions_in_order_def case_prod_beta' comp_def)
qed

lemma status_copier: "deep_copier (status_deep_copy_into D) status_view status_cells status_ok"
  using deep_copier_struct [OF conditions_copier, of rs_conditions "\<lambda>st x. st\<lparr>rs_conditions := x\<rparr>" "\<lambda>st. True"
      "\<lambda>st v. \<lparr>st_observed_generation = rs_observed_generation st, st_conditions = v, st_state = rs_state st\<rparr>"]
  by (simp add: status_deep_copy_into_def [abs_def] status_view_def [abs_def] status_cells_def [abs_def] status_ok_def [abs_def])

lemma rule_copier: "deep_copier (rule_deep_copy_into D) (rule_view mv) (rule_cells mc) (rule_ok mo)"
proof -
  have "rule_deep_copy_into D = (\<lambda>s r. let (x, s1) = copy_pair (dl_meta D) (status_deep_copy_into D) s (ru_meta r, ru_status r)
      in (r\<lparr>ru_meta := fst x, ru_status := snd x\<rparr>, s1))"
    by (intro ext) (simp add: rule_deep_copy_into_def copy_pair_def split: prod.splits)
  moreover note deep_copier_struct [OF deep_copier_pair [OF meta.deep_copier_axioms status_copier],
      of "\<lambda>r. (ru_meta r, ru_status r)" "\<lambda>r x. r\<lparr>ru_meta := fst x, ru_status := snd x\<rparr>" "\<lambda>r. True"
      "\<lambda>r v. (ru_type_meta r, \<lparr>mr_meta = fst v, mr_spec = ru_spec r, mr_status = snd v\<rparr>)"]
  ultimately show ?thesis by (simp add: rule_view_def [abs_def] rule_cells_def [abs_def] rule_ok_def [abs_def])
qed

lemma rule_list_copier:
  "deep_copier (rule_list_deep_copy_into D) (rule_list_view mv lv) (rule_list_cells mc lc) (rule_list_ok mo lo)"
proof -
  let ?is = "copy_option (copy_slice (rule_deep_copy_into D) rules_of Rules (zero_rule D))"
  have "rule_list_deep_copy_into D = (\<lambda>s l. let (x, s1) = copy_pair (dl_list_meta D) ?is s (rl_list_meta l, rl_items l)
      in (l\<lparr>rl_list_meta := fst x, rl_items := snd x\<rparr>, s1))"
    by (intro ext) (simp add: rule_list_deep_copy_into_def copy_pair_def split: prod.splits)
  moreover note deep_copier_struct [OF deep_copier_pair [OF list_meta.deep_copier_axioms
        deep_copier_option [OF deep_copier_slice [OF rule_copier, of rules_of Rules]]],
      of "\<lambda>l. (rl_list_meta l, rl_items l)" "\<lambda>l x. l\<lparr>rl_list_meta := fst x, rl_items := snd x\<rparr>" "\<lambda>l. True"
      "\<lambda>l v. (rl_type_meta l, fst v, snd v)" "zero_rule D"]
  ultimately show ?thesis
    by (simp add: rule_list_view_def [abs_def] rule_list_cells_def [abs_def] rule_list_ok_def [abs_def])
qed

lemmas pointer_copiers =
  deep_copier_pointer [OF condition_copier, of conditions_of Conditions zero_condition, folded condition_deep_copy_def]
  deep_copier_pointer [OF status_copier, of statuses_of Statuses zero_status, folded status_deep_copy_def]
  deep_copier_pointer [OF rule_copier, of rules_of Rules "zero_rule D", folded rule_deep_copy_def]
  deep_copier_pointer [OF rule_list_copier, of rule_lists_of Rule_Lists "zero_rule_list D", folded rule_list_deep_copy_def]

end

sublocale copy_laws \<subseteq> condition: deep_copier "condition_deep_copy_into D" condition_view condition_cells condition_ok
  by (rule condition_copier)

sublocale copy_laws \<subseteq> status: deep_copier "status_deep_copy_into D" status_view status_cells status_ok
  by (rule status_copier)

sublocale copy_laws \<subseteq> rule: deep_copier "rule_deep_copy_into D" "rule_view mv" "rule_cells mc" "rule_ok mo"
  by (rule rule_copier)

sublocale copy_laws \<subseteq> rule_list: deep_copier "rule_list_deep_copy_into D" "rule_list_view mv lv" "rule_list_cells mc lc"
  "rule_list_ok mo lo"
  by (rule rule_list_copier)

lemma spec_copier: "deep_copier spec_deep_copy_into (\<lambda>s sp. sp) (\<lambda>s sp. {}) (\<lambda>s sp. True)"
  by unfold_locales (auto simp: spec_deep_copy_into_def)

interpretation spec: deep_copier spec_deep_copy_into "\<lambda>s sp. sp" "\<lambda>s sp. {}" "\<lambda>s sp. True"
  by (rule spec_copier)

end
