(* ===== verification/State_Memory.thy ===== *)
theory State_Memory
  imports Api_Copy
begin

text \<open>
  \<^verbatim>\<open>SetState\<close> of \<^verbatim>\<open>masqueradingrule_utils.go\<close> as it works on the memory of a status: \<^verbatim>\<open>append\<close> to the
  slice of conditions, writes through the pointer that \<^verbatim>\<open>getCondition\<close> returns, and times behind pointers. It
  refines the function on values of \<open>Masq_Api\<close>, and never shows in a deep copy.
\<close>

section \<open>Setting the state in memory\<close>

text \<open>\<^verbatim>\<open>getCondition\<close> returns the address of the element in the array of the slice.\<close>

fun condition_index :: "ref_condition list \<Rightarrow> string \<Rightarrow> nat option" where
  "condition_index [] ty = None"
| "condition_index (c # cs) ty = (if cn_type c = ty then Some 0 else map_option Suc (condition_index cs ty))"

definition condition_pointer :: "('l, 'm, 'n) cell list \<Rightarrow> slice option \<Rightarrow> string \<Rightarrow> pointer" where
  "condition_pointer s cs ty =
     (case cs of
        None \<Rightarrow> None
      | Some l \<Rightarrow> map_option (\<lambda>i. (sl_array l, sl_off l + i)) (condition_index (elems conditions_of s l) ty))"

text \<open>A write through a pointer to a condition.\<close>

definition write_condition ::
  "('l, 'm, 'n) cell list \<Rightarrow> addr \<times> nat \<Rightarrow> ref_condition \<Rightarrow> ('l, 'm, 'n) cell list"
where
  "write_condition s p c = s[fst p := Conditions ((conditions_of (s ! fst p))[snd p := c])]"

text \<open>
  \<^verbatim>\<open>append\<close> of one condition: in place while the capacity lasts, otherwise into a new array, to which the runtime gives
  \<open>spare\<close> more elements than needed.
\<close>

definition append_condition ::
  "(nat \<Rightarrow> nat) \<Rightarrow> ('l, 'm, 'n) cell list \<Rightarrow> slice option \<Rightarrow> ref_condition \<Rightarrow> slice \<times> ('l, 'm, 'n) cell list"
where
  "append_condition spare s cs c =
     (let grown = (\<lambda>xs. (\<lparr>sl_array = length s, sl_off = 0, sl_len = length xs + 1,
                         sl_cap = length xs + 1 + spare (length xs)\<rparr>,
            s @ [Conditions (xs @ c # replicate (spare (length xs)) zero_condition)]))
      in
      case cs of
        None \<Rightarrow> grown []
      | Some l \<Rightarrow>
          if sl_len l < sl_cap l then
            (l\<lparr>sl_len := sl_len l + 1\<rparr>, write_condition s (sl_array l, sl_off l + sl_len l) c)
          else grown (elems conditions_of s l))"

text \<open>\<^verbatim>\<open>now\<close> escapes to a cell of its own, to which both times of the condition may point.\<close>

definition set_condition_at ::
  "(nat \<Rightarrow> nat) \<Rightarrow> time \<Rightarrow> ('l, 'm, 'n) cell list \<Rightarrow> slice option \<Rightarrow> string \<Rightarrow> condition_status \<Rightarrow> string \<Rightarrow> string \<Rightarrow>
    slice option \<times> ('l, 'm, 'n) cell list"
where
  "set_condition_at spare now s0 cs0 ty status reason message =
     (let t = (length s0, 0);
          s = s0 @ [Times [now]];
          (cs, p, s1) =
            (case condition_pointer s cs0 ty of
               None \<Rightarrow>
                 let (l, s1) = append_condition spare s cs0 (zero_condition\<lparr>cn_type := ty, cn_last_transition := Some t\<rparr>)
                 in (Some l, (sl_array l, sl_off l + (sl_len l - 1)), s1)
             | Some p \<Rightarrow>
                 let cond = deref conditions_of s p in
                 if cn_status cond \<noteq> Some status
                 then (cs0, p, write_condition s p (cond\<lparr>cn_last_transition := Some t\<rparr>))
                 else (cs0, p, s))
      in (cs, write_condition s1 p ((deref conditions_of s1 p)
            \<lparr>cn_last_update := Some t, cn_status := Some status, cn_reason := reason, cn_message := message\<rparr>)))"

definition set_state_at ::
  "(nat \<Rightarrow> nat) \<Rightarrow> time \<Rightarrow> ('l, 'm, 'n) cell list \<Rightarrow> ref_status \<Rightarrow> rule_state \<Rightarrow> string \<Rightarrow>
    ref_status \<times> ('l, 'm, 'n) cell list"
where
  "set_state_at spare now s st state message =
     (let (cs, s1) = set_condition_at spare now s (rs_conditions st) condition_type_ready
            (condition_status_of state) (state_string state) message
      in (st\<lparr>rs_conditions := cs, rs_state := state\<rparr>, s1))"



subsection \<open>The slice of the conditions\<close>

definition times_kept :: "('l, 'm, 'n) cell list \<Rightarrow> ('l, 'm, 'n) cell list \<Rightarrow> bool" where
  "times_kept s s' \<longleftrightarrow> length s \<le> length s' \<and> (\<forall>a ts. a < length s \<longrightarrow> s ! a = Times ts \<longrightarrow> s' ! a = Times ts)"

lemma times_kept_append [simp]: "times_kept s (s @ t)"
  by (simp add: times_kept_def nth_append)

lemma times_kept_write: "s ! fst p = Conditions xs \<Longrightarrow> times_kept s (write_condition s p c)"
  by (auto simp: times_kept_def write_condition_def) (metis cell.distinct nth_list_update_neq)

lemma times_kept_trans: "times_kept s t \<Longrightarrow> times_kept t u \<Longrightarrow> times_kept s u"
  unfolding times_kept_def by fastforce

lemma time_kept:
  assumes "time_ok s p" and "times_kept s s'"
  shows "time_ok s' p \<and> deref times_of s' p = deref times_of s p"
proof -
  from assms(1) obtain ts where ts: "s ! fst p = Times ts" "fst p < length s" "snd p < length ts"
    by (auto simp: pointer_ok_def)
  with assms(2) have "s' ! fst p = Times ts" "fst p < length s'" by (auto simp: times_kept_def)
  with ts show ?thesis by (simp add: pointer_ok_def deref_def)
qed

lemma condition_kept:
  assumes "condition_ok s c" and "times_kept s s'"
  shows "condition_ok s' c \<and> condition_view s' c = condition_view s c \<and> condition_cells s' c = condition_cells s c"
  using assms(1) time_kept [OF _ assms(2)]
  by (cases "cn_last_update c"; cases "cn_last_transition c")
    (simp_all add: condition_ok_def condition_view_def condition_cells_def option_ok_def option_cells_def pointer_cells_def)

text \<open>The conditions that a slice holds.\<close>

definition holds_conditions :: "('l, 'm, 'n) cell list \<Rightarrow> slice option \<Rightarrow> ref_condition list \<Rightarrow> bool" where
  "holds_conditions s cs xs \<longleftrightarrow> (case cs of
     None \<Rightarrow> xs = []
   | Some l \<Rightarrow> slice_ok conditions_of Conditions condition_ok s l \<and> elems conditions_of s l = xs)"

lemma holds_view: "holds_conditions s cs xs \<Longrightarrow> conditions_in_order s cs \<and> conditions_view s cs = map (condition_view s) xs"
  by (auto simp: holds_conditions_def conditions_in_order_def conditions_view_def option_ok_def split: option.splits)

lemma holdsI: "conditions_in_order s cs \<Longrightarrow> \<exists>xs. holds_conditions s cs xs"
  by (auto simp: holds_conditions_def conditions_in_order_def option_ok_def split: option.splits)

lemma holds_ok: "holds_conditions s cs xs \<Longrightarrow> x \<in> set xs \<Longrightarrow> condition_ok s x"
  by (auto simp: holds_conditions_def slice_ok_def split: option.splits)

lemma holds_kept:
  assumes "holds_conditions s cs xs" and "times_kept s s'"
    and "\<And>l. cs = Some l \<Longrightarrow> s' ! sl_array l = s ! sl_array l"
  shows "holds_conditions s' cs xs"
proof (cases cs)
  case (Some l)
  then have "elems conditions_of s' l = elems conditions_of s l" using assms(3) by (simp add: elems_def)
  with assms Some condition_kept [OF _ assms(2)] show ?thesis
    by (auto simp: holds_conditions_def slice_ok_def times_kept_def)
qed (use assms(1) in \<open>simp add: holds_conditions_def\<close>)

lemma write_twice [simp]:
  "fst p < length s \<Longrightarrow> write_condition (write_condition s p c) p d = write_condition s p d"
  by (simp add: write_condition_def)

lemma deref_write [simp]:
  "fst p < length s \<Longrightarrow> snd p < length (conditions_of (s ! fst p)) \<Longrightarrow>
    deref conditions_of (write_condition s p c) p = c"
  by (simp add: write_condition_def deref_def)

text \<open>A write to an element, or to the first one behind the slice, which then grows by it.\<close>

lemma write_holds:
  assumes "holds_conditions s (Some l) xs" and "k < sl_cap l" and "condition_ok s c"
    and "k < length xs \<and> n = sl_len l \<and> ys = xs[k := c] \<or> k = length xs \<and> n = sl_len l + 1 \<and> ys = xs @ [c]"
  shows "holds_conditions (write_condition s (sl_array l, sl_off l + k) c) (Some (l\<lparr>sl_len := n\<rparr>)) ys"
proof -
  let ?s = "write_condition s (sl_array l, sl_off l + k) c" and ?arr = "conditions_of (s ! sl_array l)"
  from assms(1) have a: "sl_array l < length s" "s ! sl_array l = Conditions ?arr" "sl_len l \<le> sl_cap l"
    "sl_off l + sl_cap l \<le> length ?arr" and ok: "\<forall>x \<in> set xs. condition_ok s x"
    and xs: "xs = take (sl_len l) (drop (sl_off l) ?arr)" by (auto simp: holds_conditions_def slice_ok_def elems_def)
  then have len: "length xs = sl_len l" by simp
  have s: "?s ! sl_array l = Conditions (?arr[sl_off l + k := c])" using a(1) by (simp add: write_condition_def)
  have "elems conditions_of ?s (l\<lparr>sl_len := n\<rparr>) = (take n (drop (sl_off l) ?arr))[k := c]"
    by (simp add: elems_def s drop_update_swap take_update_swap)
  also have "\<dots> = ys"
    using assms(2,4) a(3,4) len unfolding xs
    by (auto simp: take_Suc_conv_app_nth list_update_append)
  finally have e: "elems conditions_of ?s (l\<lparr>sl_len := n\<rparr>) = ys" .
  have "set ys \<subseteq> insert c (set xs)" using assms(4) set_update_subset_insert [of xs k c] by auto
  moreover have "times_kept s ?s" using a(2) by (intro times_kept_write) simp
  ultimately have "\<forall>y \<in> set ys. condition_ok ?s y" using ok assms(3) condition_kept by blast
  moreover have "n \<le> sl_cap l" using assms(2,4) len a(3) by auto
  moreover have "length ?s = length s" by (simp add: write_condition_def)
  ultimately show ?thesis using a s e by (simp add: holds_conditions_def slice_ok_def)
qed



text \<open>The changes of a step: times stay, and of the other cells at most the array of the slice changes.\<close>

definition conditions_change :: "('l, 'm, 'n) cell list \<Rightarrow> slice option \<Rightarrow> ('l, 'm, 'n) cell list \<Rightarrow> bool" where
  "conditions_change s cs s' \<longleftrightarrow> times_kept s s' \<and>
     (\<forall>a < length s. (\<forall>l. cs = Some l \<longrightarrow> a \<noteq> sl_array l) \<longrightarrow> s' ! a = s ! a)"

lemma holds_array: "holds_conditions s (Some l) xs \<Longrightarrow> sl_array l < length s \<and> (\<exists>ys. s ! sl_array l = Conditions ys) \<and>
    length xs = sl_len l \<and> sl_off l + sl_cap l \<le> length (conditions_of (s ! sl_array l)) \<and> sl_len l \<le> sl_cap l"
  by (auto simp: holds_conditions_def slice_ok_def elems_def)

lemma write_change:
  "holds_conditions s (Some l) xs \<Longrightarrow> conditions_change s (Some l) (write_condition s (sl_array l, k) c)"
  using holds_array [of s l xs] times_kept_write [of s "(sl_array l, k)" _ c]
  by (fastforce simp: conditions_change_def write_condition_def)

text \<open>The appended element, when it is written once more.\<close>

lemma append_holds:
  assumes h: "holds_conditions s cs xs" and a: "append_condition spare s cs c0 = (l, s1)"
    and ok: "condition_ok s c" and p: "p = (sl_array l, sl_off l + (sl_len l - 1))"
  shows "deref conditions_of s1 p = c0" "holds_conditions (write_condition s1 p c) (Some l) (xs @ [c])"
    "conditions_change s cs (write_condition s1 p c)"
    "sl_array l \<ge> length s \<or> (\<exists>l0. cs = Some l0 \<and> sl_array l = sl_array l0)"
proof -
  have "deref conditions_of s1 p = c0 \<and> holds_conditions (write_condition s1 p c) (Some l) (xs @ [c]) \<and>
    conditions_change s cs (write_condition s1 p c) \<and> (sl_array l \<ge> length s \<or> (\<exists>l0. cs = Some l0 \<and> sl_array l = sl_array l0))"
  proof (cases "\<exists>l0. cs = Some l0 \<and> sl_len l0 < sl_cap l0")
    case True
    then obtain l0 where l0: "cs = Some l0" "sl_len l0 < sl_cap l0" by blast
    with a p have l: "l = l0\<lparr>sl_len := sl_len l0 + 1\<rparr>" and p0: "p = (sl_array l0, sl_off l0 + sl_len l0)"
      and s1: "s1 = write_condition s p c0" by (auto simp: append_condition_def Let_def)
    from holds_array [of s l0 xs] h l0(1) have b: "sl_array l0 < length s" "length xs = sl_len l0"
      "sl_off l0 + sl_cap l0 \<le> length (conditions_of (s ! sl_array l0))" by simp_all
    then have w: "write_condition s1 p c = write_condition s p c" "deref conditions_of s1 p = c0"
      using l0(2) by (simp_all add: s1 p0)
    from write_holds [OF h [unfolded l0(1)] l0(2) ok, of "sl_len l0 + 1" "xs @ [c]"] b(2)
    have "holds_conditions (write_condition s p c) (Some l) (xs @ [c])" by (simp add: p0 l)
    moreover from write_change [of s l0 xs] h l0(1) have "conditions_change s cs (write_condition s p c)" by (simp add: p0)
    ultimately show ?thesis using w l l0(1) by simp
  next
    case False
    let ?rest = "replicate (spare (length xs)) zero_condition"
    from False a h have l: "l = \<lparr>sl_array = length s, sl_off = 0, sl_len = length xs + 1,
        sl_cap = length xs + 1 + spare (length xs)\<rparr>" and s1: "s1 = s @ [Conditions (xs @ c0 # ?rest)]"
      by (auto simp: append_condition_def Let_def holds_conditions_def split: option.splits if_splits)
    then have w: "write_condition s1 p c = s @ [Conditions (xs @ c # ?rest)]" "deref conditions_of s1 p = c0"
      by (simp_all add: p write_condition_def deref_def)
    have "\<forall>x \<in> set (xs @ [c]). condition_ok (s @ [Conditions (xs @ c # ?rest)]) x"
      using holds_ok [OF h] ok condition_kept [OF _ times_kept_append] by auto
    then have "holds_conditions (write_condition s1 p c) (Some l) (xs @ [c])"
      unfolding w(1) by (simp add: holds_conditions_def slice_ok_def elems_def l)
    moreover have "conditions_change s cs (write_condition s1 p c)"
      by (simp add: w(1) conditions_change_def nth_append)
    ultimately show ?thesis using w(2) l by simp
  qed
  then show "deref conditions_of s1 p = c0" "holds_conditions (write_condition s1 p c) (Some l) (xs @ [c])"
    "conditions_change s cs (write_condition s1 p c)"
    "sl_array l \<ge> length s \<or> (\<exists>l0. cs = Some l0 \<and> sl_array l = sl_array l0)" by simp_all
qed

lemma condition_index_view: "get_condition (map (condition_view s) xs) ty = condition_index xs ty"
  by (induction xs) (simp_all add: condition_view_def)

lemma condition_index_Some: "condition_index xs ty = Some i \<Longrightarrow> i < length xs"
  by (induction xs arbitrary: i) (auto split: if_splits)



text \<open>The value of the condition that was found or appended, when \<^verbatim>\<open>setCondition\<close> is through with it.\<close>

definition condition_set :: "addr \<times> nat \<Rightarrow> condition_status \<Rightarrow> string \<Rightarrow> string \<Rightarrow> ref_condition \<Rightarrow> ref_condition" where
  "condition_set t status reason message c =
     c\<lparr>cn_last_update := Some t, cn_status := Some status, cn_reason := reason, cn_message := message\<rparr>"

lemma condition_set_memory:
  assumes "time_ok s t" and "deref times_of s t = now" and "condition_ok s c \<or> cn_last_transition c = Some t"
  shows "condition_ok s (condition_set t status reason message c)"
    "condition_view s (condition_set t status reason message c) =
       (condition_view s c)\<lparr>rc_last_update := Some now, rc_status := status, rc_reason := reason, rc_message := message\<rparr>"
    "condition_cells s (condition_set t status reason message c) \<subseteq> insert (fst t) (condition_cells s c)"
  using assms
  by (auto simp: condition_set_def condition_ok_def condition_view_def condition_cells_def option_ok_def option_cells_def
      pointer_cells_def split: option.splits)

text \<open>Either an element is overwritten, or one is appended.\<close>

lemma set_condition_at_cases:
  assumes h: "holds_conditions s0 cs0 xs" and r: "set_condition_at spare now s0 cs0 ty status reason message = (cs, s')"
  defines "t \<equiv> (length s0, 0)" and "s \<equiv> s0 @ [Times [now]]"
  obtains i c where "condition_index xs ty = Some i" "holds_conditions s' cs (xs[i := condition_set t status reason message c])"
    "c = (if cn_status (xs ! i) \<noteq> Some status then (xs ! i)\<lparr>cn_last_transition := Some t\<rparr> else xs ! i)"
    "conditions_change s cs0 s'" "cs = cs0"
  | l c where "condition_index xs ty = None" "holds_conditions s' cs (xs @ [condition_set t status reason message c])"
    "c = zero_condition\<lparr>cn_type := ty, cn_last_transition := Some t\<rparr>" "conditions_change s cs0 s'"
    "cs = Some l" "sl_array l \<ge> length s \<or> (\<exists>l0. cs0 = Some l0 \<and> sl_array l = sl_array l0)"
proof -
  have hs: "holds_conditions s cs0 xs" unfolding s_def
    using h holds_array [of s0 _ xs] by (intro holds_kept [OF h]) (auto simp: nth_append)
  have t: "time_ok s t" "deref times_of s t = now" by (simp_all add: s_def t_def pointer_ok_def deref_def)
  have ptr: "condition_pointer s cs0 ty =
      (case cs0 of None \<Rightarrow> None | Some l \<Rightarrow> map_option (\<lambda>i. (sl_array l, sl_off l + i)) (condition_index xs ty))"
    using hs by (simp add: condition_pointer_def holds_conditions_def split: option.splits)
  show thesis
  proof (cases "condition_index xs ty")
    case (Some i)
    then have i: "i < length xs" using condition_index_Some by blast
    then obtain l where l: "cs0 = Some l" using hs by (cases cs0) (auto simp: holds_conditions_def)
    let ?p = "(sl_array l, sl_off l + i)"
    let ?c = "if cn_status (xs ! i) \<noteq> Some status then (xs ! i)\<lparr>cn_last_transition := Some t\<rparr> else xs ! i"
    from holds_array [of s l xs] hs l i have b: "sl_array l < length s" "sl_off l + i < length (conditions_of (s ! sl_array l))"
      "i < sl_cap l" "length xs = sl_len l" by auto
    have d: "deref conditions_of s ?p = xs ! i"
      using hs l i by (auto simp: holds_conditions_def elems_def deref_def slice_ok_def)
    have "condition_pointer s cs0 ty = Some ?p" unfolding ptr by (simp add: l Some)
    with r d b have w: "cs = cs0" "s' = write_condition s ?p (condition_set t status reason message ?c)"
      unfolding set_condition_at_def s_def [symmetric] t_def [symmetric]
      by (auto simp: condition_set_def Let_def split: if_splits)
    have "condition_ok s (xs ! i)" using holds_ok [OF hs] i by simp
    then have "condition_ok s ?c \<or> cn_last_transition ?c = Some t" by auto
    from condition_set_memory(1) [OF t this] have ok: "condition_ok s (condition_set t status reason message ?c)" .
    from write_holds [OF hs [unfolded l] b(3) ok, of "sl_len l" "xs[i := condition_set t status reason message ?c]"] i
    have "holds_conditions s' cs (xs[i := condition_set t status reason message ?c])" by (simp add: w l)
    moreover from write_change [of s l xs] hs l have "conditions_change s cs0 s'" by (simp add: w)
    ultimately show thesis using that(1) [OF Some _ refl _ w(1)] by blast
  next
    case None
    let ?c = "zero_condition\<lparr>cn_type := ty, cn_last_transition := Some t\<rparr>"
    obtain l s1 where a: "append_condition spare s cs0 ?c = (l, s1)" by fastforce
    let ?p = "(sl_array l, sl_off l + (sl_len l - 1))"
    have ok: "condition_ok s (condition_set t status reason message ?c)" by (rule condition_set_memory(1) [OF t]) simp
    note app = append_holds [OF hs a ok refl]
    have "condition_pointer s cs0 ty = None" unfolding ptr by (simp add: None split: option.splits)
    with r a app(1) have w: "cs = Some l" "s' = write_condition s1 ?p (condition_set t status reason message ?c)"
      unfolding set_condition_at_def s_def [symmetric] t_def [symmetric] by (auto simp: condition_set_def)
    with app(2-4) show thesis using that(2) [OF None _ refl] by blast
  qed
qed



lemma holds_cells: "holds_conditions s cs xs \<Longrightarrow>
    conditions_cells s cs = (case cs of None \<Rightarrow> {} | Some l \<Rightarrow> insert (sl_array l) (\<Union>x \<in> set xs. condition_cells s x))"
  by (simp add: conditions_cells_def option_cells_def slice_cells_def holds_conditions_def split: option.splits)

text \<open>What a call does to the memory: the view changes as in the model of values, and other cells do not.\<close>

definition keeps_others :: "('l, 'm, 'n) cell list \<Rightarrow> addr set \<Rightarrow> ('l, 'm, 'n) cell list \<Rightarrow> addr set \<Rightarrow> bool" where
  "keeps_others s ce s' ce' \<longleftrightarrow> length s \<le> length s' \<and> (\<forall>a < length s. a \<notin> ce \<longrightarrow> s' ! a = s ! a) \<and>
     ce' \<subseteq> ce \<union> {length s ..< length s'}"


text \<open>After a call, in which the time was stored first.\<close>

lemma change_memory:
  assumes "holds_conditions s cs xs" and "conditions_change (s @ [Times [now]]) cs s'"
  shows "times_kept s s'" "time_ok s' (length s, 0)" "deref times_of s' (length s, 0) = now"
    "\<And>a. a < length s \<Longrightarrow> a \<notin> conditions_cells s cs \<Longrightarrow> s' ! a = s ! a"
    "\<And>x. x \<in> set xs \<Longrightarrow> condition_ok s' x \<and> condition_view s' x = condition_view s x \<and>
       condition_cells s' x = condition_cells s x"
proof -
  have k: "times_kept (s @ [Times [now]]) s'" using assms(2) by (simp add: conditions_change_def)
  have "time_ok (s @ [Times [now]]) (length s, 0)" "deref times_of (s @ [Times [now]]) (length s, 0) = now"
    by (simp_all add: pointer_ok_def deref_def)
  with time_kept [OF _ k, of "(length s, 0)"] show "time_ok s' (length s, 0)" "deref times_of s' (length s, 0) = now"
    by simp_all
  show t: "times_kept s s'" by (rule times_kept_trans [OF times_kept_append k])
  show "s' ! a = s ! a" if "a < length s" "a \<notin> conditions_cells s cs" for a
  proof -
    have "\<forall>l. cs = Some l \<longrightarrow> a \<noteq> sl_array l" using that(2) unfolding holds_cells [OF assms(1)] by auto
    moreover have "a < length (s @ [Times [now]])" using that(1) by simp
    ultimately have "s' ! a = (s @ [Times [now]]) ! a" using assms(2) unfolding conditions_change_def by blast
    with that(1) show ?thesis by (simp add: nth_append)
  qed
  show "condition_ok s' x \<and> condition_view s' x = condition_view s x \<and> condition_cells s' x = condition_cells s x"
    if "x \<in> set xs" for x using condition_kept [OF holds_ok [OF assms(1) that] t] .
qed

text \<open>The cells of the new slice are those of the old one or new, if this is so for its array and its elements.\<close>

lemma change_keeps_others:
  assumes h: "holds_conditions s cs xs" and ch: "conditions_change (s @ [Times [now]]) cs s'" and ys: "holds_conditions s' cs' ys"
    and arr: "\<And>l. cs' = Some l \<Longrightarrow> length s \<le> sl_array l \<or> (\<exists>l0. cs = Some l0 \<and> sl_array l = sl_array l0)"
    and u: "\<And>y. y \<in> set ys \<Longrightarrow> y \<in> set xs \<or> (condition_cells s' y \<subseteq> insert (length s) (\<Union>x \<in> set xs. condition_cells s x))"
  shows "keeps_others s (conditions_cells s cs) s' (conditions_cells s' cs')"
proof -
  let ?R = "conditions_cells s cs \<union> {length s ..< length s'}"
  note m = change_memory [OF h ch]
  have l: "length s < length s'" using m(2) by (simp add: pointer_ok_def)
  have "(\<Union>x \<in> set xs. condition_cells s x) \<subseteq> conditions_cells s cs"
    using holds_cells [OF h] h by (auto simp: holds_conditions_def split: option.splits)
  with u m(5) have "condition_cells s' y \<subseteq> insert (length s) (conditions_cells s cs)" if "y \<in> set ys" for y
    using that by blast
  moreover have "insert (length s) (conditions_cells s cs) \<subseteq> ?R" using l by auto
  ultimately have elements: "(\<Union>y \<in> set ys. condition_cells s' y) \<subseteq> ?R" by (intro UN_least) (rule subset_trans)
  have "conditions_cells s' cs' \<subseteq> ?R"
  proof (cases cs')
    case None
    with holds_cells [OF ys] show ?thesis by simp
  next
    case (Some k)
    have "sl_array k \<in> ?R"
    proof (cases "length s \<le> sl_array k")
      case False
      with arr [OF Some] obtain l0 where "cs = Some l0" "sl_array k = sl_array l0" by auto
      then show ?thesis using holds_cells [OF h] by simp
    qed (use holds_array [OF ys [unfolded Some]] in simp)
    moreover have "conditions_cells s' cs' = insert (sl_array k) (\<Union>y \<in> set ys. condition_cells s' y)"
      unfolding holds_cells [OF ys] unfolding Some by simp
    ultimately show ?thesis using elements by (simp only: insert_subset)
  qed
  with m(4) l show ?thesis unfolding keeps_others_def by (intro conjI allI impI) (rule less_imp_le)
qed

lemma overwritten_view:
  assumes "condition_index xs ty = Some i" and "condition_ok s (xs ! i)" and t: "time_ok s' t" "deref times_of s' t = now"
    and old: "\<And>x. x \<in> set xs \<Longrightarrow> condition_ok s' x \<and> condition_view s' x = condition_view s x"
    and c: "c = (if cn_status (xs ! i) \<noteq> Some status then (xs ! i)\<lparr>cn_last_transition := Some t\<rparr> else xs ! i)"
  shows "map (condition_view s') (xs[i := condition_set t status reason message c]) =
      set_condition now (map (condition_view s) xs) ty status reason message"
    "condition_cells s' (condition_set t status reason message c) \<subseteq> insert (fst t) (condition_cells s' (xs ! i))"
proof -
  from condition_index_Some [OF assms(1)] have i: "i < length xs" "xs ! i \<in> set xs" by simp_all
  have st: "cn_status (xs ! i) \<noteq> Some status \<longleftrightarrow> rc_status (condition_view s (xs ! i)) \<noteq> status"
    using assms(2) by (auto simp: condition_ok_def condition_view_def split: option.splits)
  have "condition_ok s' c \<or> cn_last_transition c = Some t" using c old [OF i(2)] by auto
  note set = condition_set_memory [OF t this, of status reason message]
  have "condition_cells s' c \<subseteq> insert (fst t) (condition_cells s' (xs ! i))"
    unfolding c by (auto simp: condition_cells_def option_cells_def pointer_cells_def split: option.splits)
  with set(3) show "condition_cells s' (condition_set t status reason message c) \<subseteq>
      insert (fst t) (condition_cells s' (xs ! i))" by blast
  have "condition_view s' c = (if rc_status (condition_view s (xs ! i)) \<noteq> status
      then (condition_view s (xs ! i))\<lparr>rc_last_transition := Some now\<rparr> else condition_view s (xs ! i))"
    unfolding c st using t(2) old [OF i(2)] by (auto simp: condition_view_def)
  with set(2) i old show "map (condition_view s') (xs[i := condition_set t status reason message c]) =
      set_condition now (map (condition_view s) xs) ty status reason message"
    unfolding set_condition_def condition_index_view assms(1) by (simp add: map_update Let_def cong: map_cong)
qed

lemma appended_view:
  assumes "condition_index xs ty = None" and t: "time_ok s' t" "deref times_of s' t = now"
    and old: "\<And>x. x \<in> set xs \<Longrightarrow> condition_view s' x = condition_view s x"
    and c: "c = zero_condition\<lparr>cn_type := ty, cn_last_transition := Some t\<rparr>"
  shows "map (condition_view s') (xs @ [condition_set t status reason message c]) =
      set_condition now (map (condition_view s) xs) ty status reason message"
    "condition_cells s' (condition_set t status reason message c) \<subseteq> {fst t}"
proof -
  have "condition_view s' (condition_set t status reason message c) = \<lparr>rc_type = ty, rc_status = status,
      rc_last_update = Some now, rc_last_transition = Some now, rc_reason = reason, rc_message = message\<rparr>"
    using t by (simp add: c condition_set_def condition_view_def zero_condition_def)
  with old show "map (condition_view s') (xs @ [condition_set t status reason message c]) =
      set_condition now (map (condition_view s) xs) ty status reason message"
    unfolding set_condition_def condition_index_view assms(1) by simp
  show "condition_cells s' (condition_set t status reason message c) \<subseteq> {fst t}"
    by (simp add: c condition_set_def condition_cells_def option_cells_def pointer_cells_def zero_condition_def)
qed

lemma set_condition_at_refines:
  assumes "conditions_in_order s cs" and "set_condition_at spare now s cs ty status reason message = (cs', s')"
  shows "conditions_in_order s' cs' \<and>
    conditions_view s' cs' = set_condition now (conditions_view s cs) ty status reason message \<and>
    keeps_others s (conditions_cells s cs) s' (conditions_cells s' cs')"
proof -
  from holdsI [OF assms(1)] obtain xs where h: "holds_conditions s cs xs" by blast
  from h assms(2) show ?thesis
  proof (cases rule: set_condition_at_cases)
    case (1 i c)
    note m = change_memory [OF h 1(4)]
    from condition_index_Some [OF 1(1)] have i: "i < length xs" "xs ! i \<in> set xs" by simp_all
    have old: "condition_ok s' x \<and> condition_view s' x = condition_view s x" if "x \<in> set xs" for x
      using m(5) [OF that] by blast
    note w = overwritten_view [OF 1(1) holds_ok [OF h i(2)] m(2,3) old 1(3)]
    have "keeps_others s (conditions_cells s cs) s' (conditions_cells s' cs')"
    proof (rule change_keeps_others [OF h 1(4,2)])
      fix y assume "y \<in> set (xs[i := condition_set (length s, 0) status reason message c])"
      then have "y \<in> set xs \<or> y = condition_set (length s, 0) status reason message c"
        using set_update_subset_insert by fast
      moreover have "condition_cells s (xs ! i) \<subseteq> (\<Union>x \<in> set xs. condition_cells s x)" using i(2) by (rule UN_upper)
      ultimately show "y \<in> set xs \<or> condition_cells s' y \<subseteq> insert (length s) (\<Union>x \<in> set xs. condition_cells s x)"
        using w(2) m(5) [OF i(2)] by auto
    qed (simp add: 1(5))
    with w(1) holds_view [OF 1(2)] holds_view [OF h] show ?thesis by simp
  next
    case (2 l c)
    note m = change_memory [OF h 2(4)]
    have old: "condition_view s' x = condition_view s x" if "x \<in> set xs" for x using m(5) [OF that] by blast
    note w = appended_view [OF 2(1) m(2,3) old 2(3)]
    have "keeps_others s (conditions_cells s cs) s' (conditions_cells s' cs')"
    proof (rule change_keeps_others [OF h 2(4,2)])
      fix y assume "y \<in> set (xs @ [condition_set (length s, 0) status reason message c])"
      then show "y \<in> set xs \<or> condition_cells s' y \<subseteq> insert (length s) (\<Union>x \<in> set xs. condition_cells s x)"
        using w(2) by auto
    qed (use 2(5,6) in auto)
    with w(1) holds_view [OF 2(2)] holds_view [OF h] show ?thesis by simp
  qed
qed



lemma keeps_others_trans:
  assumes "keeps_others s A t B" and "keeps_others t B u C"
  shows "keeps_others s A u C"
proof -
  from assms have l: "length s \<le> length t" "length t \<le> length u"
    and b: "B \<subseteq> A \<union> {length s ..< length t}" and c: "C \<subseteq> B \<union> {length t ..< length u}"
    by (simp_all add: keeps_others_def)
  have "u ! a = s ! a" if "a < length s" "a \<notin> A" for a
  proof -
    have "a \<notin> B" "a < length t" using that l b by auto
    with assms that show ?thesis by (simp add: keeps_others_def)
  qed
  moreover have "C \<subseteq> A \<union> {length s ..< length u}"
  proof
    fix a assume "a \<in> C"
    with c consider "a \<in> B" | "length t \<le> a" "a < length u" by auto
    then show "a \<in> A \<union> {length s ..< length u}" using b l by cases auto
  qed
  ultimately show ?thesis using l by (simp add: keeps_others_def)
qed

lemma set_state_at_refines:
  assumes "status_ok s st" and "mr_status mr = status_view s st" and "set_state_at spare now s st state message = (st', s')"
  shows "status_ok s' st'" "mr_status (set_state now mr state message) = status_view s' st'"
    "keeps_others s (status_cells s st) s' (status_cells s' st')"
proof -
  obtain cs where r: "set_condition_at spare now s (rs_conditions st) condition_type_ready
      (condition_status_of state) (state_string state) message = (cs, s')"
    and st': "st' = st\<lparr>rs_conditions := cs, rs_state := state\<rparr>"
    using assms(3) by (auto simp: set_state_at_def split: prod.splits)
  from set_condition_at_refines [OF _ r] assms(1,2) show "status_ok s' st'"
    "mr_status (set_state now mr state message) = status_view s' st'"
    "keeps_others s (status_cells s st) s' (status_cells s' st')"
    by (simp_all add: st' status_ok_def status_view_def status_cells_def set_state_def)
qed

fun set_states_at ::
  "(nat \<Rightarrow> nat) \<Rightarrow> (time \<times> rule_state \<times> string) list \<Rightarrow> ('l, 'm, 'n) cell list \<Rightarrow> ref_status \<Rightarrow>
    ref_status \<times> ('l, 'm, 'n) cell list"
where
  "set_states_at spare [] s st = (st, s)"
| "set_states_at spare ((now, state, message) # xs) s st =
     (let (st1, s1) = set_state_at spare now s st state message in set_states_at spare xs s1 st1)"

lemma set_states_at_refines:
  assumes "set_states_at spare xs s st = (st', s')" and "status_ok s st" and "mr_status mr = status_view s st"
  shows "status_ok s' st' \<and> mr_status (set_states mr xs) = status_view s' st' \<and>
    keeps_others s (status_cells s st) s' (status_cells s' st')"
  using assms
proof (induction spare xs s st arbitrary: mr rule: set_states_at.induct)
  case (1 spare s st)
  then show ?case by (simp add: keeps_others_def)
next
  case (2 spare now state message xs s st)
  obtain st1 s1 where r: "set_state_at spare now s st state message = (st1, s1)" by fastforce
  note one = set_state_at_refines [OF 2(3,4) r]
  have "set_states mr ((now, state, message) # xs) = set_states (set_state now mr state message) xs"
    by (simp add: set_states_def)
  with 2(1) [OF r [symmetric] refl, of "set_state now mr state message"] 2(2) r one show ?case
    by (simp add: keeps_others_trans [OF one(3)])
qed

section \<open>A concrete memory\<close>

text \<open>Metadata behind a pointer to a cell of the library, and one rule with a condition.\<close>

definition std_copy_lib :: "(object_meta, addr \<times> nat, string) copy_lib" where
  "std_copy_lib = \<lparr>dl_time = copy_value times_of Times, dl_meta = copy_value lib_of Lib,
     dl_list_meta = (\<lambda>s m. (m, s)), dl_zero_meta = (0, 0), dl_zero_list_meta = ''''\<rparr>"

interpretation std_memory: copy_laws std_copy_lib "deref lib_of" "pointer_cells lib_of (\<lambda>s x. {})"
  "pointer_ok lib_of Lib (\<lambda>s x. True)" "\<lambda>s m. m" "\<lambda>s m. {}" "\<lambda>s m. True"
  unfolding copy_laws_def std_copy_lib_def copy_lib.simps
  by (intro conjI deep_copier_value deep_copier_plain) simp_all



lemma deep_copy_object [simp]:
  "rule_deep_copy_object D = rule_deep_copy D" "rule_list_deep_copy_object D = rule_list_deep_copy D"
  by (intro ext, simp add: rule_deep_copy_object_def rule_list_deep_copy_object_def split: prod.splits option.splits)+

lemma copy_pointer_nil: "copy_pointer cp get mk zero s p = (q, s') \<Longrightarrow> q = None \<longleftrightarrow> p = None"
  by (cases p) (auto simp: copy_pointer_def Let_def)

section \<open>Properties\<close>

text \<open>
  C38: a rule or a list of rules that is copied with the generated methods reads as before, and so does the copy;
  nothing of the old memory changes, the two share no cell, and no write to a cell of one of them shows in
  the other; a nil pointer is copied to nil.
\<close>

theorem deep_copy_independent:
  assumes "copy_laws D mv mc mo lv lc lo"
  shows "(option_ok (pointer_ok rules_of Rules (rule_ok mo)) s p \<longrightarrow> rule_deep_copy_object D s p = (q, s') \<longrightarrow>
      independent_copy (\<lambda>s. map_option (\<lambda>a. rule_view mv s (deref rules_of s a)))
        (option_cells (pointer_cells rules_of (rule_cells mc))) s p q s' \<and> (q = None \<longleftrightarrow> p = None)) \<and>
    (option_ok (pointer_ok rule_lists_of Rule_Lists (rule_list_ok mo lo)) t l \<longrightarrow>
      rule_list_deep_copy_object D t l = (k, t') \<longrightarrow>
      independent_copy (\<lambda>s. map_option (\<lambda>a. rule_list_view mv lv s (deref rule_lists_of s a)))
        (option_cells (pointer_cells rule_lists_of (rule_list_cells mc lc))) t l k t' \<and> (k = None \<longleftrightarrow> l = None))"
  using deep_copier.copy_independent [OF copy_laws.pointer_copiers(3) [OF assms], of s p q s']
    deep_copier.copy_independent [OF copy_laws.pointer_copiers(4) [OF assms], of t l k t']
    copy_pointer_nil [of "rule_deep_copy_into D" rules_of Rules "zero_rule D" s p q s']
    copy_pointer_nil [of "rule_list_deep_copy_into D" rule_lists_of Rule_Lists "zero_rule_list D" t l k t']
  by (simp add: rule_deep_copy_def rule_list_deep_copy_def)

definition demo_memory :: "(object_meta, addr \<times> nat, string) cell list" where
  "demo_memory =
     [Lib [mr_meta demo_rule], Times [5],
      Conditions [\<lparr>cn_type = ''Ready'', cn_status = Some ConditionTrue, cn_last_update = Some (1, 0),
        cn_last_transition = Some (1, 0), cn_reason = ''Ready'', cn_message = ''''\<rparr>],
      Rules [\<lparr>ru_type_meta = (''v1alpha1'', ''MasqueradingRule''), ru_meta = (0, 0), ru_spec = mr_spec demo_rule,
        ru_status = \<lparr>rs_observed_generation = 1,
          rs_conditions = Some \<lparr>sl_array = 2, sl_off = 0, sl_len = 1, sl_cap = 1\<rparr>, rs_state = StateReady\<rparr>\<rparr>]]"

abbreviation demo_status :: ref_status where
  "demo_status \<equiv> ru_status (deref rules_of demo_memory (3, 0))"

lemma demo_status_ok: "status_ok demo_memory demo_status"
  by (simp add: status_ok_def demo_memory_def conditions_in_order_def option_ok_def slice_ok_def elems_def deref_def
      condition_ok_def pointer_ok_def)

theorem deep_copy_independent_witness:
  "\<exists>q s'. rule_deep_copy_object std_copy_lib demo_memory (Some (3, 0)) = (Some q, s') \<and>
    rule_view (deref lib_of) s' (deref rules_of s' q) =
      rule_view (deref lib_of) demo_memory (deref rules_of demo_memory (3, 0))"
proof -
  obtain q s' where r: "rule_deep_copy_object std_copy_lib demo_memory (Some (3, 0)) = (q, s')" by fastforce
  have "option_ok (pointer_ok rules_of Rules (rule_ok (pointer_ok lib_of Lib (\<lambda>s x. True)))) demo_memory (Some (3, 0))"
    using demo_status_ok
    by (simp add: option_ok_def pointer_ok_def [of rules_of] rule_ok_def)
      (simp add: demo_memory_def deref_def pointer_ok_def)
  with deep_copy_independent [OF std_memory.copy_laws_axioms, of demo_memory "Some (3, 0)" q s' "[]" None None "[]"] r
  have "independent_copy (\<lambda>s. map_option (\<lambda>a. rule_view (deref lib_of) s (deref rules_of s a)))
      (option_cells (pointer_cells rules_of (rule_cells (pointer_cells lib_of (\<lambda>s x. {})))))
      demo_memory (Some (3, 0)) q s'" "q \<noteq> None" by simp_all
  with r show ?thesis by (auto simp: independent_copy_def)
qed

text \<open>
  C39: any sequence of calls of \<open>SetState\<close> on the memory of a status has the effect of the calls on its value,
  whatever capacity the slice of conditions has and however the runtime lets it grow; and a
  copy of the status that was made before still reads as it did.
\<close>

theorem set_state_in_memory:
  assumes "copy_laws D mv mc mo lv lc lo" and "status_ok s st" and "mr_status mr = status_view s st"
    and "status_deep_copy_into D s st = (previous, s1)" and "set_states_at spare xs s1 st = (st', s')"
  shows "status_view s' st' = mr_status (set_states mr xs) \<and> status_view s' previous = mr_status mr"
proof -
  note copier = copy_laws.status_copier [OF assms(1)]
  from deep_copier.copies [OF copier assms(2,4)] have p: "extends s s1" "status_ok s1 previous"
    "status_view s1 previous = status_view s st" "status_cells s1 previous \<subseteq> {length s ..< length s1}" by simp_all
  from deep_copier.extended [OF copier assms(2) p(1)] have st: "status_ok s1 st" "status_view s1 st = status_view s st"
    "status_cells s1 st = status_cells s st" by simp_all
  from set_states_at_refines [OF assms(5) st(1), of mr] assms(3) st(2)
  have r: "mr_status (set_states mr xs) = status_view s' st'"
    and k: "keeps_others s1 (status_cells s1 st) s' (status_cells s' st')" by simp_all
  have "a \<notin> status_cells s1 st" "a < length s1" if "a \<in> status_cells s1 previous" for a
    using subsetD [OF p(4) that] subsetD [OF deep_copier.allocated [OF copier assms(2)], of a] st(3) by auto
  with k have "\<forall>a \<in> status_cells s1 previous. s' ! a = s1 ! a" "length s1 \<le> length s'" by (auto simp: keeps_others_def)
  from deep_copier.frame [OF copier p(2) this(2,1)] have "status_view s' previous = status_view s1 previous" by simp
  with r p(3) assms(3) show ?thesis by simp
qed

theorem set_state_in_memory_witness:
  "\<exists>previous s1 st' s'. status_deep_copy_into std_copy_lib demo_memory demo_status = (previous, s1) \<and>
    set_state_at (\<lambda>n. n) 9 s1 demo_status StateError ''failed'' = (st', s') \<and>
    st_state (status_view s' st') = StateError \<and> st_state (status_view s' previous) = StateReady"
proof -
  obtain previous s1 where c: "status_deep_copy_into std_copy_lib demo_memory demo_status = (previous, s1)" by fastforce
  obtain st' s' where r: "set_state_at (\<lambda>n. n) 9 s1 demo_status StateError ''failed'' = (st', s')" by fastforce
  then have rs: "set_states_at (\<lambda>n. n) [(9, StateError, ''failed'')] s1 demo_status = (st', s')" by simp
  define mr where "mr = demo_rule\<lparr>mr_status := status_view demo_memory demo_status\<rparr>"
  have m: "mr_status mr = status_view demo_memory demo_status" by (simp add: mr_def)
  have "st_state (mr_status mr) = StateReady" by (simp add: mr_def status_view_def demo_memory_def deref_def)
  with set_state_in_memory [OF std_memory.copy_laws_axioms demo_status_ok m c rs]
  have "st_state (status_view s' st') = StateError" "st_state (status_view s' previous) = StateReady"
    by (simp_all add: set_states_def)
  with c r show ?thesis by blast
qed


end
