(* ===== verification/Reconciler_Types.thy ===== *)
theory Reconciler_Types
  imports Reconciler_Properties
begin

text \<open>
  The type of a status: one condition per type, a Ready condition that agrees with the state, and a state of the
  enumeration in the schema. \<open>Reconcile\<close> writes no other status.
\<close>

section \<open>Well-typed statuses\<close>

abbreviation condition_types :: "masquerading_rule \<Rightarrow> string list" where
  "condition_types mr \<equiv> map rc_type (st_conditions (mr_status mr))"

text \<open>\<^verbatim>\<open>+kubebuilder:validation:Enum\<close> of \<^verbatim>\<open>MasqueradingRuleState\<close>.\<close>

definition state_enum :: "string set" where
  "state_enum = {''New'', ''Processing'', ''DeletionBlocked'', ''Deleting'', ''Ready'', ''Error''}"

lemma state_in_enum: "state_string st \<in> state_enum \<longleftrightarrow> st \<noteq> StateUnset"
  by (cases st) (simp_all add: state_enum_def)

definition status_typed :: "masquerading_rule \<Rightarrow> bool" where
  "status_typed mr \<longleftrightarrow> conditions_ok (mr_status mr) \<and> state_string (st_state (mr_status mr)) \<in> state_enum"

lemma set_state_typed:
  "distinct (condition_types mr) \<Longrightarrow> s \<noteq> StateUnset \<Longrightarrow> status_typed (set_state now mr s msg)"
  using set_state_conditions_ok [of mr now s msg] by (simp add: status_typed_def state_in_enum)

lemma typed_distinct: "status_typed mr \<Longrightarrow> distinct (condition_types mr)"
  by (simp add: status_typed_def conditions_ok_def)

text \<open>An update of a rule brings no second condition of a type into its status.\<close>

definition update_types :: "kube \<Rightarrow> bool" where
  "update_types K \<longleftrightarrow> (\<forall>tr m m'. k_update_rule K tr m = Inr m' \<longrightarrow> distinct (condition_types m) \<longrightarrow>
     distinct (condition_types m'))"

lemma finalized_types:
  "update_types K \<Longrightarrow> finalized K mr tr fs mr' \<Longrightarrow> distinct (condition_types mr) \<Longrightarrow> distinct (condition_types mr')"
  by (auto simp: finalized_def update_types_def)

text \<open>At the end of the body: after an error the state is still to be set, otherwise it was.\<close>

definition end_typed :: "body_end \<Rightarrow> bool" where
  "end_typed b \<longleftrightarrow> distinct (condition_types (be_rule b)) \<and>
     (\<not> be_skip b \<longrightarrow> be_err b = None \<longrightarrow> status_typed (be_rule b))"

lemma plain_end_typed: "plain_end mr d b \<Longrightarrow> status_typed mr \<Longrightarrow> end_typed b"
  using plain_end_cases [of mr d b] typed_distinct [of mr] by (simp add: end_typed_def)

lemma failed_typed: "distinct (condition_types mr) \<Longrightarrow> end_typed (failed mr e)"
  by (simp add: end_typed_def)

lemma ended_typed: "status_typed mr \<Longrightarrow> end_typed (ended mr r)"
  by (simp add: end_typed_def typed_distinct)

lemma path_typed:
  assumes "body_path K L R mr tr0 b ys" and u: "update_types K" and d: "distinct (condition_types mr)"
  shows "end_typed b"
  using assms(1)
proof (cases rule: body_path.cases)
  case (checked gcm cm fs mr' rule rs0 rs zs)
  from finalized_types [OF u checked(5) d] have "distinct (condition_types mr')" .
  with check_active_spec [OF checked(9)] set_state_typed [of mr'] show ?thesis
    by (auto intro!: failed_typed ended_typed split: option.splits)
next
  case (cleared gcm m fs)
  have m: "distinct (condition_types m)" using d cleared(6) by simp
  with u d have "distinct (condition_types mr')" if "k_update_rule K tr m = Inr mr'" for tr mr'
    using that by (simp add: update_types_def)
  with cleared(8) m d show ?thesis by (auto simp: end_typed_def)
next
  case (created gcm msg fs mr' rule ch rs now)
  show ?thesis by (rule plain_end_typed [OF created(8)], rule set_state_typed [OF finalized_types [OF u created(5) d]]) simp
next
  case (changed gcm cm fs mr' rule rs0 rs now ws t)
  show ?thesis by (rule plain_end_typed [OF changed(9)], rule set_state_typed [OF finalized_types [OF u changed(5) d]]) simp
next
  case (removed gcm cm rs0 rs msg ws t)
  show ?thesis by (rule plain_end_typed, rule removed, rule set_state_typed) (use d in simp_all)
next
  case (rejected gcm fs mr' e)
  with finalized_types [OF u rejected(5) d] show ?thesis by (simp add: failed_typed)
qed (use d in \<open>simp_all add: failed_typed ended_typed set_state_typed\<close>)

section \<open>Properties\<close>

text \<open>
  C40: every status that \<open>Reconcile\<close> writes is well-typed, whatever happens in the run: one condition per type, a
  Ready condition with the status and reason that belong to the state, and a state that the schema admits. It is enough
  that the rule that was read has one condition per type.
\<close>

theorem written_status_typed:
  assumes "go_lib L" and "update_types K" and "k_get_rule K [] ns name = Inr mr" and "distinct (condition_types mr)"
    and "UpdateRuleStatus m \<in> set (snd (reconcile_rule K L R ns name))"
  shows "distinct (condition_types m) \<and> state_string (st_state (mr_status m)) \<in> state_enum \<and>
    (\<forall>c \<in> set (st_conditions (mr_status m)). rc_type c = condition_type_ready \<longrightarrow>
      rc_status c = condition_status_of (st_state (mr_status m)) \<and> rc_reason c = state_string (st_state (mr_status m)))"
proof -
  from go_lib.reconcile_run_parts [OF assms(1,3)] obtain b ys zs where
    run: "run_parts K L R ns name mr b ys zs (reconcile_rule K L R ns name)" by blast
  then have "body_path K L R (observed mr) [GetRule ns name] b ys" by (simp add: run_parts_def)
  moreover have "distinct (condition_types (observed mr))" using assms(4) by (simp add: observed_def)
  ultimately have e: "end_typed b" using path_typed assms(2) by blast
  from run_status [OF run assms(5)] obtain us where s: "\<not> be_skip b" "status_calls b m us" by blast
  have "status_typed m"
    using s e set_state_typed [of "be_rule b"] by (auto simp: status_calls_def end_typed_def split: option.splits)
  then show ?thesis by (simp add: status_typed_def conditions_ok_def)
qed

theorem written_status_typed_witness:
  "\<exists>m. UpdateRuleStatus m \<in> set (snd (reconcile_rule (demo_kube other_mr (Inr demo_cm)) std_lib demo_reconciler
      ''ns'' ''a'')) \<and> state_string (st_state (mr_status m)) \<in> state_enum"
proof -
  from go_lib.reconcile_run_parts [OF std.go_lib_axioms demo_kube_simps(1)] obtain b ys zs where
    run: "run_parts (demo_kube other_mr (Inr demo_cm)) std_lib demo_reconciler ''ns'' ''a'' other_mr b ys zs
      (reconcile_rule (demo_kube other_mr (Inr demo_cm)) std_lib demo_reconciler ''ns'' ''a'')" by blast
  then have p: "body_path (demo_kube other_mr (Inr demo_cm)) std_lib demo_reconciler (observed other_mr)
    [GetRule ''ns'' ''a''] b ys" by (simp add: run_parts_def)
  have "deletion_is_zero (mr_meta other_mr)" by (simp add: other_mr_def deletion_is_zero_def)
  with path_result [OF p] have "\<not> be_skip b" by (auto split: if_splits)
  with run obtain m us result err where r: "reconcile_rule (demo_kube other_mr (Inr demo_cm)) std_lib demo_reconciler
      ''ns'' ''a'' = ((result, err), GetRule ''ns'' ''a'' # ys @ zs @ us @ [UpdateRuleStatus m])"
    unfolding run_parts_def by auto
  then have m: "UpdateRuleStatus m \<in>
      set (snd (reconcile_rule (demo_kube other_mr (Inr demo_cm)) std_lib demo_reconciler ''ns'' ''a''))" by simp
  have "distinct (condition_types other_mr)" by (simp add: other_mr_def demo_mr_def)
  moreover have "update_types (demo_kube other_mr (Inr demo_cm))" by (simp add: update_types_def)
  ultimately show ?thesis using written_status_typed [OF std.go_lib_axioms _ demo_kube_simps(1) _ m] m by blast
qed

end
