(* ===== verification/Controller_Events.thy ===== *)
theory Controller_Events
  imports Dependents_Properties Reconciler_Paths
begin

text \<open>
  When the controllers run, and when they come to rest: the events that \<^verbatim>\<open>SetupWithManager\<close> lets through, which
  of their own writes wake them again, and the objects for which a run writes nothing.
\<close>

section \<open>Events\<close>

datatype 'obj event = Created_Event 'obj | Updated_Event 'obj 'obj | Deleted_Event 'obj | Generic_Event 'obj

text \<open>The predicates of the controller library.\<close>

record 'obj event_lib =
  el_generation_changed :: "'obj event \<Rightarrow> bool"
  el_annotation_changed :: "'obj event \<Rightarrow> bool"

definition rule_event_handled :: "'obj event_lib \<Rightarrow> 'obj event \<Rightarrow> bool" where
  "rule_event_handled E e = (el_generation_changed E e \<or> el_annotation_changed E e)"

text \<open>What the library documents of an update.\<close>

definition update_predicates :: "masquerading_rule event_lib \<Rightarrow> bool" where
  "update_predicates E \<longleftrightarrow> (\<forall>old new.
     (el_generation_changed E (Updated_Event old new) \<longleftrightarrow>
        om_generation (mr_meta new) \<noteq> om_generation (mr_meta old)) \<and>
     (el_annotation_changed E (Updated_Event old new) \<longleftrightarrow>
        om_annotations (mr_meta new) \<noteq> om_annotations (mr_meta old)))"

text \<open>
  The controller of the rules does not wake itself: its updates of the finalizers and of the status keep generation and
  annotations of a rule.
\<close>

lemma own_writes_ignored:
  assumes "update_predicates E"
  shows "\<not> rule_event_handled E (Updated_Event mr (with_finalizers fins mr))"
    and "\<not> rule_event_handled E (Updated_Event mr (set_state now mr s msg))"
  using assms by (simp_all add: update_predicates_def rule_event_handled_def with_finalizers_def set_state_def)

text \<open>The predicates of the service controller look at the object of an event, after an update at the new one.\<close>

fun event_object :: "'obj event \<Rightarrow> 'obj" where
  "event_object (Created_Event new) = new"
| "event_object (Updated_Event old new) = new"
| "event_object (Deleted_Event old) = old"
| "event_object (Generic_Event new) = new"

definition service_event :: "(string option \<times> object_meta) event \<Rightarrow> bool" where
  "service_event e = (case event_object e of (ty, obj) \<Rightarrow> service_event_handled ty obj)"

text \<open>The controllers of ingresses and gateways have no predicates: they run for every event.\<close>

definition ingress_event :: "'obj event \<Rightarrow> bool" where
  "ingress_event e = True"

definition gateway_event :: "'obj event \<Rightarrow> bool" where
  "gateway_event e = True"

section \<open>Runs that write nothing\<close>

lemma create_loop_idle:
  assumes "missing_hosts to items hosts = []"
  shows "create_loop K obj to items hosts kept n tr =
    (Inr (kept @ map (\<lambda>h. the (find (matching_rule h to) items)) hosts, n), tr)"
  using assms
  by (induction hosts arbitrary: kept) (auto simp: missing_hosts_Cons split: if_splits option.splits)

lemma delete_loop_idle:
  assumes "\<forall>m \<in> set items. unkept kept m \<longrightarrow> \<not> deletion_is_zero (mr_meta m)"
  shows "delete_loop K kept items n tr = (Inr (n - int (length (filter (unkept kept) items))), tr)"
  using assms
proof (induction items arbitrary: n)
  case (Cons m items)
  have "(\<exists>k \<in> set kept. om_uid (mr_meta k) = om_uid (mr_meta m)) \<longleftrightarrow> \<not> unkept kept m"
    unfolding unkept_def uid_def image_iff by metis
  with Cons show ?case by simp
qed simp

text \<open>The rules found for the hosts are the wanted ones.\<close>

lemma found_wanted:
  assumes "missing_hosts to items hosts = []" and "distinct (map uid items)" and "m \<in> set items"
  shows "unkept (map (\<lambda>h. the (find (matching_rule h to) items)) hosts) m \<longleftrightarrow> \<not> wanted to items hosts m"
proof -
  have found: "\<exists>k \<in> set items. find (matching_rule h to) items = Some k" if "h \<in> set hosts" for h
    using assms(1) that find_matching_Some by (fastforce simp: missing_hosts_def filter_empty_conv)
  have same: "k = m" if "k \<in> set items" "uid k = uid m" for k
    using assms(2,3) that by (auto simp: distinct_map dest: inj_onD)
  show ?thesis
  proof
    assume "unkept (map (\<lambda>h. the (find (matching_rule h to) items)) hosts) m"
    then show "\<not> wanted to items hosts m" by (force simp: unkept_def wanted_def)
  next
    assume "\<not> wanted to items hosts m"
    with found same show "unkept (map (\<lambda>h. the (find (matching_rule h to) items)) hosts) m"
      unfolding unkept_def wanted_def by fastforce
  qed
qed

text \<open>The object has what it wants: its finalizer and exactly the wanted rules, or nothing at all.\<close>

definition settled :: "source_object \<Rightarrow> masquerading_rule list \<Rightarrow> string list \<Rightarrow> bool" where
  "settled obj items hosts \<longleftrightarrow>
     (let to = masquerade_to (so_meta obj) in
      if deletion_is_zero (so_meta obj) \<and> to \<noteq> '''' then
        finalizer \<in> set (source_finalizers obj) \<and> hosts \<noteq> [] \<and> missing_hosts to items hosts = [] \<and>
        (\<forall>m \<in> set items. deletion_is_zero (mr_meta m) \<longrightarrow> wanted to items hosts m)
      else
        finalizer \<notin> set (source_finalizers obj) \<and> (\<forall>m \<in> set items. \<not> deletion_is_zero (mr_meta m)))"


abbreviation found_rules :: "string \<Rightarrow> masquerading_rule list \<Rightarrow> string list \<Rightarrow> masquerading_rule list" where
  "found_rules to items hosts \<equiv> map (\<lambda>h. the (find (matching_rule h to) items)) hosts"

lemma found_rules_Nil:
  assumes "missing_hosts to items hosts = []" and "h \<in> set hosts"
  shows "\<exists>m \<in> set items. \<not> unkept (found_rules to items hosts) m"
proof -
  from assms obtain m where "find (matching_rule h to) items = Some m"
    by (auto simp: missing_hosts_def filter_empty_conv)
  with assms(2) find_matching_Some [OF this] show ?thesis by (force simp: unkept_def)
qed

lemma no_created: "created_rules tr = [] \<Longrightarrow> CreateRule m \<notin> set tr"
  by (induction tr) (auto simp: created_rules_def)

context go_lib
begin

lemma manage_live_idle:
  assumes "finalizer \<in> set (source_finalizers obj)" and "missing_hosts to items hosts = []"
    and "masquerade_to (so_meta obj) = to" and "to \<noteq> ''''"
  shows "manage_live K L obj hosts items tr =
    (case delete_loop K (found_rules to items hosts) items (int (length items)) tr of
       (Inl err, tr3) \<Rightarrow> (Inl err, tr3)
     | (Inr n, tr3) \<Rightarrow> (Inr (obj, n), tr3))"
proof -
  have "ensure_finalizer K L obj tr = (Inr obj, tr)"
    using assms(1) by (simp add: ensure_finalizer_def add_finalizer_eq source_finalizers_def)
  with assms(3,4) show ?thesis by (simp add: manage_live_def Let_def create_loop_idle [OF assms(2)])
qed

lemma drop_finalizer_idle: "drop_finalizer K L obj tr = (None, tr) \<longleftrightarrow> finalizer \<notin> set (source_finalizers obj)"
  by (auto simp: drop_finalizer_def remove_finalizer_eq source_finalizers_def Let_def split: sum.splits)

lemma settled_live:
  assumes items: "k_list_rules K tr0 (om_namespace (so_meta obj)) (om_uid (so_meta obj)) = Inr items"
    and live: "deletion_is_zero (so_meta obj)" and to: "masquerade_to (so_meta obj) = to" "to \<noteq> ''''"
    and d: "distinct (map uid items)" and st: "settled obj items hosts"
  shows "manage_dependents K L obj hosts tr0 =
    (None, tr0 @ [ListRules (om_namespace (so_meta obj)) (om_uid (so_meta obj))])"
proof -
  let ?f = "found_rules to items hosts"
  from st live to have f: "finalizer \<in> set (source_finalizers obj)" and h: "hosts \<noteq> []"
    and m: "missing_hosts to items hosts = []"
    and w: "\<forall>m \<in> set items. deletion_is_zero (mr_meta m) \<longrightarrow> wanted to items hosts m"
    by (auto simp: settled_def Let_def)
  have "\<forall>m \<in> set items. unkept ?f m \<longrightarrow> \<not> deletion_is_zero (mr_meta m)"
    using found_wanted [OF m d] w by blast
  note idle = delete_loop_idle [OF this]
  from h obtain h0 where "h0 \<in> set hosts" by (cases hosts) auto
  from found_rules_Nil [OF m this] have "int (length (filter (unkept ?f) items)) < int (length items)"
    using length_filter_less by force
  with manage_wanted [OF items live] manage_live_idle [OF f m to] idle show ?thesis by simp
qed

lemma idle_settled:
  assumes items: "k_list_rules K tr0 (om_namespace (so_meta obj)) (om_uid (so_meta obj)) = Inr items"
    and live: "deletion_is_zero (so_meta obj)" and to: "masquerade_to (so_meta obj) = to" "to \<noteq> ''''"
    and d: "distinct (map uid items)"
    and run: "manage_dependents K L obj hosts tr0 =
      (None, tr0 @ [ListRules (om_namespace (so_meta obj)) (om_uid (so_meta obj))])"
  shows "settled obj items hosts"
proof -
  let ?f = "found_rules to items hosts"
  let ?tr1 = "tr0 @ [ListRules (om_namespace (so_meta obj)) (om_uid (so_meta obj))]"
  from run manage_wanted [OF items live] obtain obj' n tr3 where
    l: "manage_live K L obj hosts items ?tr1 = (Inr (obj', n), tr3)"
    and r: "(if n = 0 then drop_finalizer K L obj' tr3 else (None, tr3)) = (None, ?tr1)"
    by (auto split: sum.splits prod.splits)
  from r drop_finalizer_spec [of K obj' tr3 None ?tr1] have t: "\<exists>us. ?tr1 = tr3 @ us" by (auto split: if_splits)
  from manage_live_calls [OF l to] obtain fs kept where tr3: "tr3 = ?tr1 @ fs
      @ map (\<lambda>h. CreateRule (dependent_rule obj' to h)) (missing_hosts to items hosts)
      @ map DeleteRule (filter (\<lambda>m. unkept kept m \<and> deletion_is_zero (mr_meta m)) items)"
    and f: "finalizer \<in> set (source_finalizers obj) \<and> fs = [] \<and> obj' = obj \<or> (\<exists>o1. fs = [UpdateSource o1])"
    by blast
  from t tr3 f have m: "missing_hosts to items hosts = []" and fin: "finalizer \<in> set (source_finalizers obj)"
    and same: "tr3 = ?tr1" "obj' = obj" by auto
  from l manage_live_idle [OF fin m to] same have
    del: "delete_loop K ?f items (int (length items)) ?tr1 = (Inr n, ?tr1)"
    by (auto split: sum.splits prod.splits)
  from delete_loop_calls [OF del] have
    e: "filter (\<lambda>m. unkept ?f m \<and> deletion_is_zero (mr_meta m)) items = []"
    and n: "n = int (length items) - int (length (filter (unkept ?f) items))" by auto
  from r fin same drop_finalizer_idle have "n \<noteq> 0" by (auto split: if_splits)
  then have "hosts \<noteq> []" using n by auto
  moreover have "wanted to items hosts m" if "m \<in> set items" "deletion_is_zero (mr_meta m)" for m
    using found_wanted [OF m d that(1)] e that by (auto simp: filter_empty_conv)
  ultimately show ?thesis using m fin to live by (simp add: settled_def)
qed

lemma settled_unwanted:
  assumes items: "k_list_rules K tr0 (om_namespace (so_meta obj)) (om_uid (so_meta obj)) = Inr items"
    and un: "\<not> deletion_is_zero (so_meta obj) \<or> masquerade_to (so_meta obj) = ''''"
  shows "manage_dependents K L obj hosts tr0 =
      (None, tr0 @ [ListRules (om_namespace (so_meta obj)) (om_uid (so_meta obj))]) \<longleftrightarrow> settled obj items hosts"
    (is "?run = (None, ?tr1) \<longleftrightarrow> _")
proof
  assume "settled obj items hosts"
  with un have f: "finalizer \<notin> set (source_finalizers obj)"
    and d: "\<forall>m \<in> set items. unkept [] m \<longrightarrow> \<not> deletion_is_zero (mr_meta m)"
    by (auto simp: settled_def Let_def split: if_splits)
  from manage_unwanted [OF items un] delete_loop_idle [OF d] f show "?run = (None, ?tr1)"
    by (simp add: drop_finalizer_idle)
next
  assume "?run = (None, ?tr1)"
  with manage_unwanted [OF items un] obtain n tr3 where
    d: "delete_loop K [] items (int (length items)) ?tr1 = (Inr n, tr3)"
    and r: "(if n = 0 then drop_finalizer K L obj tr3 else (None, tr3)) = (None, ?tr1)"
    by (auto split: sum.splits prod.splits)
  from delete_all_calls [OF d] have n: "n = 0"
    and tr3: "tr3 = ?tr1 @ map DeleteRule (filter (\<lambda>m. deletion_is_zero (mr_meta m)) items)" by auto
  from r n drop_finalizer_spec [of K obj tr3 None ?tr1] tr3
  have "filter (\<lambda>m. deletion_is_zero (mr_meta m)) items = []" "finalizer \<notin> set (source_finalizers obj)" by auto
  with un show "settled obj items hosts" by (auto simp: settled_def Let_def filter_empty_conv)
qed

text \<open>A run for an object with a target and without hosts deletes what is left, like one for an object without target.\<close>

lemma cleanup_without_hosts:
  assumes r0: "reads_only tr0" and live: "deletion_is_zero (so_meta obj)" and to: "masquerade_to (so_meta obj) \<noteq> ''''"
    and items: "k_list_rules K tr0 (om_namespace (so_meta obj)) (om_uid (so_meta obj)) = Inr items"
    and run: "manage_dependents K L obj [] tr0 = (None, tr)"
  shows "created_rules tr = [] \<and>
    (\<forall>m. DeleteRule m \<in> set tr \<longleftrightarrow> m \<in> set items \<and> deletion_is_zero (mr_meta m)) \<and>
    (finalizer \<in> set (source_finalizers obj) \<longrightarrow>
      (\<exists>s. UpdateSource s \<in> set tr \<and> finalizer \<notin> set (source_finalizers s)))"
proof -
  let ?l = "ListRules (om_namespace (so_meta obj)) (om_uid (so_meta obj))"
  from run manage_wanted [OF items live] obtain obj1 n tr3 where
    l: "manage_live K L obj [] items (tr0 @ [?l]) = (Inr (obj1, n), tr3)"
    and r: "(if n = 0 then drop_finalizer K L obj1 tr3 else (None, tr3)) = (None, tr)"
    by (auto split: sum.splits prod.splits)
  from l to obtain tr1 where e: "ensure_finalizer K L obj (tr0 @ [?l]) = (Inr obj1, tr1)"
    and dl: "delete_loop K [] items (int (length items)) tr1 = (Inr n, tr3)"
    by (auto simp: manage_live_def Let_def split: sum.splits prod.splits)
  from ensure_finalizer_spec [OF e] obtain fs where tr1: "tr1 = tr0 @ ?l # fs"
    and fs: "fs = [] \<and> obj1 = obj \<or> (finalizer \<notin> set (source_finalizers obj) \<or> obj1 = obj) \<and> (\<exists>o1. fs = [UpdateSource o1])"
    using e by (auto simp: ensure_finalizer_def add_finalizer_eq source_finalizers_def Let_def split: if_splits)
  from delete_all_calls [OF dl] have n: "n = 0"
    and tr3: "tr3 = tr1 @ map DeleteRule (filter (\<lambda>m. deletion_is_zero (mr_meta m)) items)" by auto
  from r n have "drop_finalizer K L obj1 tr3 = (None, tr)" by simp
  from drop_finalizer_spec [OF this] fs show ?thesis
    using r0 by (auto simp: tr3 tr1)
qed

end

section \<open>Properties\<close>

text \<open>
  C30: a run for an annotated object writes nothing, and so wakes no controller, exactly if the object is settled: it is live with a
  target, has its finalizer, each host has its rule and no other rule is left; or it is in deletion or without target, holds no
  finalizer and no rule. An object with a target and without hosts is never settled: its runs set the finalizer and take it
  off for ever.
\<close>

theorem dependents_come_to_rest:
  assumes "go_lib L" and "distinct (map uid items)"
    and "k_list_rules K tr0 (om_namespace (so_meta obj)) (om_uid (so_meta obj)) = Inr items"
  shows "manage_dependents K L obj hosts tr0 =
      (None, tr0 @ [ListRules (om_namespace (so_meta obj)) (om_uid (so_meta obj))]) \<longleftrightarrow>
    (if deletion_is_zero (so_meta obj) \<and> masquerade_to (so_meta obj) \<noteq> '''' then
       finalizer \<in> set (source_finalizers obj) \<and> hosts \<noteq> [] \<and>
       (\<forall>h \<in> set hosts. \<exists>m \<in> set items. matching_rule h (masquerade_to (so_meta obj)) m) \<and>
       (\<forall>m \<in> set items. deletion_is_zero (mr_meta m) \<longrightarrow>
          (\<exists>h \<in> set hosts. find (matching_rule h (masquerade_to (so_meta obj))) items = Some m))
     else finalizer \<notin> set (source_finalizers obj) \<and> (\<forall>m \<in> set items. \<not> deletion_is_zero (mr_meta m)))"
proof (cases "deletion_is_zero (so_meta obj) \<and> masquerade_to (so_meta obj) \<noteq> ''''")
  case True
  then have "manage_dependents K L obj hosts tr0 =
      (None, tr0 @ [ListRules (om_namespace (so_meta obj)) (om_uid (so_meta obj))]) \<longleftrightarrow> settled obj items hosts"
    using go_lib.settled_live [OF assms(1,3) _ refl _ assms(2)] go_lib.idle_settled [OF assms(1,3) _ refl _ assms(2)]
    by blast
  with True show ?thesis
    by (auto simp: settled_def Let_def wanted_def missing_hosts_def filter_empty_conv find_None_iff)
next
  case False
  with go_lib.settled_unwanted [OF assms(1,3)] show ?thesis by (auto simp: settled_def Let_def)
qed

theorem dependents_come_to_rest_witness:
  "manage_dependents (demo_api [demo_item]) std_lib (demo_source [finalizer] None) [''old.org''] [] =
      (None, [ListRules ''ns'' ''9'']) \<and>
    manage_dependents (demo_api []) std_lib (demo_source [] None) [] [] \<noteq> (None, [ListRules ''ns'' ''9''])"
  using dependents_come_to_rest [OF std.go_lib_axioms, of "[demo_item]" "demo_api [demo_item]" "[]"
      "demo_source [finalizer] None" "[''old.org'']"]
    dependents_come_to_rest [OF std.go_lib_axioms, of "[]" "demo_api []" "[]" "demo_source [] None" "[]"]
  by (simp add: source_finalizers_def)


text \<open>
  C31: once a service is no load balancer and has no annotation \<^verbatim>\<open>masquerade-from\<close>, no event of it is handled any more, not
  even its deletion: whatever events \<open>es\<close> come while this is so, the handled events are those from before. But if the service, as the
  last of them shows it, is in deletion, or has no target, or no host in any of its annotations, then a run that ends without error would
  create no rule, delete exactly its dependent rules that are alive, and take the finalizer off the service if it has it. So
  the rules stay, and with the finalizer the service cannot be deleted.
\<close>

theorem service_cleanup_missed:
  assumes "go_lib L"
    and "\<forall>e \<in> set es. \<exists>ty obj. event_object e = (Some ty, obj) \<and> ty \<noteq> ''LoadBalancer'' \<and>
      opt_lookup (om_annotations obj) annotation_masquerade_from = None"
    and "es \<noteq> []" and "event_object (last es) = (Some ty, so_meta service)"
    and "\<not> deletion_is_zero (so_meta service) \<or> masquerade_to (so_meta service) = '''' \<or>
      get_hosts_from_service L (so_meta service) = []"
    and "k_list_rules K [GetSource ns name] (om_namespace (so_meta service)) (om_uid (so_meta service)) = Inr items"
    and "reconcile_service K L ns name (Inr service) = (None, tr)"
  shows "filter service_event (before @ es) = filter service_event before \<and>
    (\<forall>m. CreateRule m \<notin> set tr) \<and>
    (\<forall>m. DeleteRule m \<in> set tr \<longleftrightarrow> m \<in> set items \<and> deletion_is_zero (mr_meta m)) \<and>
    (finalizer \<in> set (source_finalizers service) \<longrightarrow>
      (\<exists>s. UpdateSource s \<in> set tr \<and> finalizer \<notin> set (source_finalizers s)))"
proof (rule conjI)
  have "\<not> service_event e" if "e \<in> set es" for e
    using assms(2) that
    by (fastforce simp: service_event_def service_event_handled_def service_type_predicate_def annotation_predicate_def)
  then show "filter service_event (before @ es) = filter service_event before" by (simp add: filter_empty_conv)
next
  from assms(2,3,4) have a: "opt_lookup (om_annotations (so_meta service)) annotation_masquerade_from = None"
    using last_in_set by fastforce
  then have "default_service_target (so_meta service) = so_meta service"
    by (cases "om_annotations (so_meta service)") (auto simp: default_service_target_def opt_index_def opt_lookup_def map_index_def)
  with assms(7) have run: "manage_dependents K L service (get_hosts_from_service L (so_meta service)) [GetSource ns name] =
      (None, tr)" by (simp add: reconcile_service_def Let_def)
  have r: "reads_only [GetSource ns name]" by (simp add: reads_only_def)
  have "created_rules tr = [] \<and>
    (\<forall>m. DeleteRule m \<in> set tr \<longleftrightarrow> m \<in> set items \<and> deletion_is_zero (mr_meta m)) \<and>
    (finalizer \<in> set (source_finalizers service) \<longrightarrow>
      (\<exists>s. UpdateSource s \<in> set tr \<and> finalizer \<notin> set (source_finalizers s)))"
  proof (cases "\<not> deletion_is_zero (so_meta service) \<or> masquerade_to (so_meta service) = ''''")
    case True
    from go_lib.cleanup_run [OF assms(1) r True assms(6) run] show ?thesis .
  next
    case False
    with assms(5) have "deletion_is_zero (so_meta service)" "masquerade_to (so_meta service) \<noteq> ''''"
      "get_hosts_from_service L (so_meta service) = []" by blast+
    from go_lib.cleanup_without_hosts [OF assms(1) r this(1,2) assms(6) run [unfolded this(3)]] show ?thesis .
  qed
  then show "(\<forall>m. CreateRule m \<notin> set tr) \<and>
    (\<forall>m. DeleteRule m \<in> set tr \<longleftrightarrow> m \<in> set items \<and> deletion_is_zero (mr_meta m)) \<and>
    (finalizer \<in> set (source_finalizers service) \<longrightarrow>
      (\<exists>s. UpdateSource s \<in> set tr \<and> finalizer \<notin> set (source_finalizers s)))" using no_created [of tr] by blast
qed

text \<open>A service that loses its annotation, is deleted, and keeps its rule and its finalizer.\<close>

theorem service_cleanup_missed_witness:
  "\<exists>tr. reconcile_service (demo_api [demo_item]) std_lib ''ns'' ''svc'' (Inr (demo_source [finalizer] (Some 7))) =
      (None, tr) \<and> DeleteRule demo_item \<in> set tr \<and>
    filter service_event ([Created_Event (Some ''LoadBalancer'', so_meta (demo_source [] None))] @
      [Updated_Event (Some ''LoadBalancer'', so_meta (demo_source [finalizer] None)) (Some ''ClusterIP'', so_meta (demo_source [finalizer] None)),
       Updated_Event (Some ''ClusterIP'', so_meta (demo_source [finalizer] None)) (Some ''ClusterIP'', so_meta (demo_source [finalizer] (Some 7)))]) =
      [Created_Event (Some ''LoadBalancer'', so_meta (demo_source [] None))]"
proof -
  let ?s = "demo_source [finalizer] (Some 7)" and ?o = "demo_source [finalizer] None"
  let ?new = "Created_Event (Some ''LoadBalancer'', so_meta (demo_source [] None))"
  let ?es = "[Updated_Event (Some ''LoadBalancer'', so_meta ?o) (Some ''ClusterIP'', so_meta ?o),
    Updated_Event (Some ''ClusterIP'', so_meta ?o) (Some ''ClusterIP'', so_meta ?s)]"
  have a: "opt_lookup (om_annotations (so_meta (demo_source f d))) annotation_masquerade_from = None" for f d
    by (simp add: demo_source_def opt_lookup_def annotation_masquerade_from_def annotation_masquerade_to_def)
  have "\<exists>tr. reconcile_service (demo_api [demo_item]) std_lib ''ns'' ''svc'' (Inr ?s) = (None, tr)"
    by (simp add: reconcile_service_def manage_dependents_def drop_finalizer_def Let_def demo_source_def
        default_service_target_def deletion_is_zero_def split: if_splits)
  then obtain tr where run: "reconcile_service (demo_api [demo_item]) std_lib ''ns'' ''svc'' (Inr ?s) = (None, tr)"
    by blast
  have "service_event ?new" by (simp add: service_event_def service_event_handled_def service_type_predicate_def)
  with service_cleanup_missed [OF std.go_lib_axioms, of ?es "''ClusterIP''" ?s "demo_api [demo_item]" "''ns''" "''svc''"
      "[demo_item]" tr "[?new]"] a run show ?thesis by simp
qed

end
