(* ===== verification/Clientset.thy ===== *)
theory Clientset
  imports Go_Prelude
begin

text \<open>
  \<^verbatim>\<open>pkg/client/clientset/versioned/clientset.go\<close> and \<^verbatim>\<open>typed/dns.cs.sap.com/v1alpha1/dns.cs.sap.com_client.go\<close>: the client
  of the API group and the clientset around it, made from a configuration. A configuration is copied before it
  is changed, so it is a value here. The constructors of the client library are the fields of \<open>rest_lib\<close>.
\<close>

section \<open>Configurations\<close>

text \<open>
  \<open>'q\<close> are the rates, \<open>'r\<close> the rate limiters, \<open>'s\<close> the serializers, and \<open>'z\<close> everything else in a configuration.
\<close>

record ('q, 'r, 's, 'z) rest_config =
  cf_user_agent :: string
  cf_rate_limiter :: "'r option"
  cf_qps :: 'q
  cf_burst :: int
  cf_group_version :: "(string \<times> string) option"
  cf_api_path :: string
  cf_serializer :: "'s option"
  cf_rest :: 'z

record ('q, 'r, 's, 'z, 'h, 'c, 'd) rest_lib =
  rl_default_user_agent :: string
  rl_codec_factory :: 's
  rl_positive :: "'q \<Rightarrow> bool" \<comment> \<open>the comparison \<^verbatim>\<open>QPS > 0\<close>\<close>
  rl_token_bucket :: "'q \<Rightarrow> int \<Rightarrow> 'r"
  rl_http_client_for :: "('q, 'r, 's, 'z) rest_config \<Rightarrow> string + 'h"
  rl_rest_client_for :: "('q, 'r, 's, 'z) rest_config \<Rightarrow> 'h \<Rightarrow> string + 'c"
  rl_discovery_for :: "('q, 'r, 's, 'z) rest_config \<Rightarrow> 'h \<Rightarrow> string + 'd"
  rl_discovery_of :: "'c \<Rightarrow> 'd"

text \<open>\<^verbatim>\<open>GroupVersion\<close> of \<^verbatim>\<open>groupversion_info.go\<close>.\<close>

definition group_version :: "string \<times> string" where
  "group_version = (''dns.cs.sap.com'', ''v1alpha1'')"

definition set_config_defaults ::
  "('q, 'r, 's, 'z, 'h, 'c, 'd) rest_lib \<Rightarrow> ('q, 'r, 's, 'z) rest_config \<Rightarrow> ('q, 'r, 's, 'z) rest_config"
where
  "set_config_defaults R config =
     config\<lparr>cf_group_version := Some group_version, cf_api_path := ''/apis'',
       cf_serializer := Some (rl_codec_factory R),
       cf_user_agent := (if cf_user_agent config = '''' then rl_default_user_agent R else cf_user_agent config)\<rparr>"

section \<open>The client of the group\<close>

record 'c dns_client =
  dc_rest_client :: 'c

definition dns_new_for_config_and_client ::
  "('q, 'r, 's, 'z, 'h, 'c, 'd) rest_lib \<Rightarrow> ('q, 'r, 's, 'z) rest_config \<Rightarrow> 'h \<Rightarrow> string + 'c dns_client"
where
  "dns_new_for_config_and_client R c h =
     (case rl_rest_client_for R (set_config_defaults R c) h of
        Inl err \<Rightarrow> Inl err
      | Inr client \<Rightarrow> Inr \<lparr>dc_rest_client = client\<rparr>)"

definition dns_new_for_config ::
  "('q, 'r, 's, 'z, 'h, 'c, 'd) rest_lib \<Rightarrow> ('q, 'r, 's, 'z) rest_config \<Rightarrow> string + 'c dns_client"
where
  "dns_new_for_config R c =
     (let config = set_config_defaults R c in
      case rl_http_client_for R config of
        Inl err \<Rightarrow> Inl err
      | Inr httpClient \<Rightarrow> dns_new_for_config_and_client R config httpClient)"

definition dns_new_for_config_or_die ::
  "('q, 'r, 's, 'z, 'h, 'c, 'd) rest_lib \<Rightarrow> ('q, 'r, 's, 'z) rest_config \<Rightarrow> 'c dns_client outcome"
where
  "dns_new_for_config_or_die R c =
     (case dns_new_for_config R c of Inl err \<Rightarrow> Panics | Inr client \<Rightarrow> Returns client)"

definition dns_new :: "'c \<Rightarrow> 'c dns_client" where
  "dns_new c = \<lparr>dc_rest_client = c\<rparr>"

text \<open>The receiver may be nil.\<close>

definition dns_rest_client :: "'c dns_client option \<Rightarrow> 'c option" where
  "dns_rest_client c = (case c of None \<Rightarrow> None | Some client \<Rightarrow> Some (dc_rest_client client))"

section \<open>The clientset\<close>

record ('c, 'd) clientset =
  cs_discovery :: 'd
  cs_dns_v1alpha1 :: "'c dns_client"

definition burst_error :: string where
  "burst_error = ''burst is required to be greater than 0 when RateLimiter is not set and QPS is set to greater than 0''"

text \<open>The rate limiter that both clients of the set share, where one is made.\<close>

definition with_rate_limiter ::
  "('q, 'r, 's, 'z, 'h, 'c, 'd) rest_lib \<Rightarrow> ('q, 'r, 's, 'z) rest_config \<Rightarrow> string + ('q, 'r, 's, 'z) rest_config"
where
  "with_rate_limiter R c =
     (if cf_rate_limiter c = None \<and> rl_positive R (cf_qps c) then
        if cf_burst c \<le> 0 then Inl burst_error
        else Inr (c\<lparr>cf_rate_limiter := Some (rl_token_bucket R (cf_qps c) (cf_burst c))\<rparr>)
      else Inr c)"

definition new_for_config_and_client ::
  "('q, 'r, 's, 'z, 'h, 'c, 'd) rest_lib \<Rightarrow> ('q, 'r, 's, 'z) rest_config \<Rightarrow> 'h \<Rightarrow> string + ('c, 'd) clientset"
where
  "new_for_config_and_client R c httpClient =
     (case with_rate_limiter R c of
        Inl err \<Rightarrow> Inl err
      | Inr config \<Rightarrow>
          (case dns_new_for_config_and_client R config httpClient of
             Inl err \<Rightarrow> Inl err
           | Inr dns \<Rightarrow>
               (case rl_discovery_for R config httpClient of
                  Inl err \<Rightarrow> Inl err
                | Inr discovery \<Rightarrow> Inr \<lparr>cs_discovery = discovery, cs_dns_v1alpha1 = dns\<rparr>)))"

definition new_for_config ::
  "('q, 'r, 's, 'z, 'h, 'c, 'd) rest_lib \<Rightarrow> ('q, 'r, 's, 'z) rest_config \<Rightarrow> string + ('c, 'd) clientset"
where
  "new_for_config R c =
     (let config = (if cf_user_agent c = '''' then c\<lparr>cf_user_agent := rl_default_user_agent R\<rparr> else c) in
      case rl_http_client_for R config of
        Inl err \<Rightarrow> Inl err
      | Inr httpClient \<Rightarrow> new_for_config_and_client R config httpClient)"

definition new_for_config_or_die ::
  "('q, 'r, 's, 'z, 'h, 'c, 'd) rest_lib \<Rightarrow> ('q, 'r, 's, 'z) rest_config \<Rightarrow> ('c, 'd) clientset outcome"
where
  "new_for_config_or_die R c = (case new_for_config R c of Inl err \<Rightarrow> Panics | Inr cs \<Rightarrow> Returns cs)"

definition new_clientset :: "('q, 'r, 's, 'z, 'h, 'c, 'd) rest_lib \<Rightarrow> 'c \<Rightarrow> ('c, 'd) clientset" where
  "new_clientset R c = \<lparr>cs_discovery = rl_discovery_of R c, cs_dns_v1alpha1 = dns_new c\<rparr>"

definition discovery :: "('c, 'd) clientset option \<Rightarrow> 'd option" where
  "discovery c = (case c of None \<Rightarrow> None | Some cs \<Rightarrow> Some (cs_discovery cs))"

definition dns_v1alpha1 :: "('c, 'd) clientset \<Rightarrow> 'c dns_client" where
  "dns_v1alpha1 c = cs_dns_v1alpha1 c"

section \<open>What a configuration leads to\<close>

text \<open>The configuration that the constructors of the library get.\<close>

definition effective_config ::
  "('q, 'r, 's, 'z, 'h, 'c, 'd) rest_lib \<Rightarrow> ('q, 'r, 's, 'z) rest_config \<Rightarrow> ('q, 'r, 's, 'z) rest_config"
where
  "effective_config R c =
     c\<lparr>cf_user_agent := (if cf_user_agent c = '''' then rl_default_user_agent R else cf_user_agent c),
       cf_rate_limiter := (if cf_rate_limiter c = None \<and> rl_positive R (cf_qps c)
          then Some (rl_token_bucket R (cf_qps c) (cf_burst c)) else cf_rate_limiter c)\<rparr>"

lemma set_config_defaults_idem: "rl_default_user_agent R \<noteq> '''' \<Longrightarrow>
    set_config_defaults R (set_config_defaults R c) = set_config_defaults R c"
  by (simp add: set_config_defaults_def)

text \<open>
  A clientset is made exactly if the burst allows a rate limiter where one is needed and every constructor succeeds;
  its two clients have the same HTTP client and rate limiter, and differ in the defaults of the group alone.
\<close>

lemma new_for_config_iff:
  "new_for_config R c = Inr cs \<longleftrightarrow>
    (cf_rate_limiter c = None \<and> rl_positive R (cf_qps c) \<longrightarrow> 0 < cf_burst c) \<and>
    (\<exists>h. rl_http_client_for R (c\<lparr>cf_user_agent := cf_user_agent (effective_config R c)\<rparr>) = Inr h \<and>
       rl_rest_client_for R (set_config_defaults R (effective_config R c)) h = Inr (dc_rest_client (dns_v1alpha1 cs)) \<and>
       rl_discovery_for R (effective_config R c) h = Inr (cs_discovery cs))"
proof -
  have agent: "(if cf_user_agent c = '''' then c\<lparr>cf_user_agent := rl_default_user_agent R\<rparr> else c) =
      c\<lparr>cf_user_agent := cf_user_agent (effective_config R c)\<rparr>"
    by (simp add: effective_config_def)
  have limiter: "with_rate_limiter R (c\<lparr>cf_user_agent := cf_user_agent (effective_config R c)\<rparr>) =
      (if (cf_rate_limiter c = None \<and> rl_positive R (cf_qps c) \<longrightarrow> 0 < cf_burst c)
       then Inr (effective_config R c) else Inl burst_error)"
    by (auto simp: with_rate_limiter_def effective_config_def)
  show ?thesis
    unfolding new_for_config_def agent Let_def new_for_config_and_client_def limiter dns_new_for_config_and_client_def
    by (cases cs) (auto simp: dns_v1alpha1_def split: sum.splits)
qed

lemma new_for_config_or_die_panics: "new_for_config_or_die R c = Panics \<longleftrightarrow> (\<exists>err. new_for_config R c = Inl err)"
  by (simp add: new_for_config_or_die_def split: sum.splits)

end
