(* ===== verification/Registration.thy ===== *)
theory Registration
  imports Clientset
begin

text \<open>
  The registration of the types with schemes: \<^verbatim>\<open>api/v1alpha1/groupversion_info.go\<close>, and what runs before \<^verbatim>\<open>main\<close> and
  before a clientset is used: the \<^verbatim>\<open>init\<close> functions of \<^verbatim>\<open>main.go\<close>, of \<^verbatim>\<open>pkg/client/clientset/versioned/scheme\<close>
  and of the fake clientset. Schemes and their builders are code of the API machinery.
\<close>

section \<open>The builder of the group\<close>

text \<open>
  \<open>'s\<close> are schemes and \<open>'b\<close> builders. A function that adds types to a scheme returns its error, if any, and the scheme.
  \<open>sc_run\<close> is \<^verbatim>\<open>runtime.SchemeBuilder.AddToScheme\<close>.
\<close>

type_synonym 's add_types = "'s \<Rightarrow> string option \<times> 's"

record ('s, 'b) scheme_lib =
  sc_new :: 's
  sc_builder :: "string \<times> string \<Rightarrow> 'b"
  sc_register :: "'b \<Rightarrow> string list \<Rightarrow> 'b"
  sc_add_to_scheme :: "'b \<Rightarrow> 's add_types"
  sc_run :: "'s add_types list \<Rightarrow> 's add_types"
  sc_add_group_version :: "'s \<Rightarrow> string \<times> string \<Rightarrow> 's"
  sc_client_go :: "'s add_types"
  sc_istio :: "'s add_types"
  sc_must :: "string option \<Rightarrow> unit outcome" \<comment> \<open>\<^verbatim>\<open>utilruntime.Must\<close>\<close>

text \<open>\<^verbatim>\<open>SchemeBuilder\<close> is a pointer, so what its \<^verbatim>\<open>init\<close> registers is there whenever \<^verbatim>\<open>AddToScheme\<close> is called.\<close>

definition scheme_builder :: "('s, 'b) scheme_lib \<Rightarrow> 'b" where
  "scheme_builder B = sc_builder B group_version"

definition registered_builder :: "('s, 'b) scheme_lib \<Rightarrow> 'b" where
  "registered_builder B = sc_register B (scheme_builder B) [''MasqueradingRule'', ''MasqueradingRuleList'']"

definition v1alpha1_add_to_scheme :: "('s, 'b) scheme_lib \<Rightarrow> 's add_types" where
  "v1alpha1_add_to_scheme B = sc_add_to_scheme B (registered_builder B)"

definition scheme_group_version :: "string \<times> string" where
  "scheme_group_version = group_version"

section \<open>What runs first\<close>

text \<open>A registration that must succeed.\<close>

definition must :: "('s, 'b) scheme_lib \<Rightarrow> string option \<times> 's \<Rightarrow> 's outcome" where
  "must B r = (case sc_must B (fst r) of Panics \<Rightarrow> Panics | Returns u \<Rightarrow> Returns (snd r))"

definition then_must :: "('s, 'b) scheme_lib \<Rightarrow> 's outcome \<Rightarrow> 's add_types \<Rightarrow> 's outcome" where
  "then_must B r add = (case r of Panics \<Rightarrow> Panics | Returns s \<Rightarrow> must B (add s))"

text \<open>\<^verbatim>\<open>main.go\<close>: the scheme that the manager gets.\<close>

definition main_init :: "('s, 'b) scheme_lib \<Rightarrow> 's outcome" where
  "main_init B =
     then_must B (then_must B (must B (sc_client_go B (sc_new B))) (sc_istio B)) (v1alpha1_add_to_scheme B)"

text \<open>\<^verbatim>\<open>scheme/register.go\<close>: the scheme of the typed client.\<close>

definition client_add_to_scheme :: "('s, 'b) scheme_lib \<Rightarrow> 's add_types" where
  "client_add_to_scheme B = sc_run B [v1alpha1_add_to_scheme B]"

definition client_scheme_init :: "('s, 'b) scheme_lib \<Rightarrow> 's outcome" where
  "client_scheme_init B = must B (client_add_to_scheme B (sc_add_group_version B (sc_new B) ('''', ''v1'')))"

text \<open>\<^verbatim>\<open>fake/register.go\<close>: the same for the fake clientset, with a scheme of its own.\<close>

definition fake_add_to_scheme :: "('s, 'b) scheme_lib \<Rightarrow> 's add_types" where
  "fake_add_to_scheme B = sc_run B [v1alpha1_add_to_scheme B]"

definition fake_scheme_init :: "('s, 'b) scheme_lib \<Rightarrow> 's outcome" where
  "fake_scheme_init B = must B (fake_add_to_scheme B (sc_add_group_version B (sc_new B) ('''', ''v1'')))"

section \<open>Lemmas\<close>

definition must_panics :: "('s, 'b) scheme_lib \<Rightarrow> bool" where
  "must_panics B \<longleftrightarrow> (\<forall>r. sc_must B r = (case r of None \<Rightarrow> Returns () | Some err \<Rightarrow> Panics))"

lemma must_returns: "must_panics B \<Longrightarrow> must B r = Returns s \<longleftrightarrow> r = (None, s)"
  by (cases r) (auto simp: must_def must_panics_def split: option.splits)

lemma then_must_returns:
  "must_panics B \<Longrightarrow> then_must B r add = Returns s \<longleftrightarrow> (\<exists>s0. r = Returns s0 \<and> add s0 = (None, s))"
  by (cases r) (simp_all add: must_returns then_must_def)

text \<open>The program starts exactly if the three registrations succeed, each on the scheme that the one before left.\<close>

lemma main_init_returns:
  "must_panics B \<Longrightarrow> main_init B = Returns s \<longleftrightarrow>
    (\<exists>s1 s2. sc_client_go B (sc_new B) = (None, s1) \<and> sc_istio B s1 = (None, s2) \<and>
       sc_add_to_scheme B (registered_builder B) s2 = (None, s))"
  by (auto simp: main_init_def then_must_returns must_returns v1alpha1_add_to_scheme_def)

text \<open>
  Where a scheme keeps what it knows when types are added to it, and a builder adds the types that were registered, the
  scheme of the program knows the types of this operator besides those of Kubernetes and Istio.
\<close>

lemma main_init_knows:
  assumes must: "must_panics B" and init: "main_init B = Returns s"
    and builder: "\<And>gv kinds s0 s1. sc_add_to_scheme B (sc_register B (sc_builder B gv) kinds) s0 = (None, s1) \<Longrightarrow>
      knows s1 = knows s0 \<union> Pair gv ` set kinds"
    and istio: "\<And>s0 s1. sc_istio B s0 = (None, s1) \<Longrightarrow> knows s0 \<subseteq> knows s1"
  shows "(group_version, ''MasqueradingRule'') \<in> knows s" and "(group_version, ''MasqueradingRuleList'') \<in> knows s"
    and "\<exists>s1. sc_client_go B (sc_new B) = (None, s1) \<and> knows s1 \<subseteq> knows s"
proof -
  from init obtain s1 s2 where s: "sc_client_go B (sc_new B) = (None, s1)" "sc_istio B s1 = (None, s2)"
    "sc_add_to_scheme B (registered_builder B) s2 = (None, s)" by (auto simp: main_init_returns [OF must])
  from builder [OF s(3) [unfolded registered_builder_def scheme_builder_def]] have
    k: "knows s = knows s2 \<union> Pair group_version ` set [''MasqueradingRule'', ''MasqueradingRuleList'']" .
  then show "(group_version, ''MasqueradingRule'') \<in> knows s" "(group_version, ''MasqueradingRuleList'') \<in> knows s"
    by simp_all
  from k istio [OF s(2)] have "knows s1 \<subseteq> knows s" by blast
  with s(1) show "\<exists>s1. sc_client_go B (sc_new B) = (None, s1) \<and> knows s1 \<subseteq> knows s" by blast
qed

text \<open>Objects that the fake tracker accepts are of the types the typed client can read: the two schemes are equal.\<close>

lemma fake_scheme_same: "fake_scheme_init B = client_scheme_init B"
  by (simp add: fake_scheme_init_def client_scheme_init_def fake_add_to_scheme_def client_add_to_scheme_def)

end
