(* ===== verification/Informers.thy ===== *)
theory Informers
  imports Go_Prelude
begin

text \<open>
  \<^verbatim>\<open>pkg/client/informers/externalversions/factory.go\<close>: the factory of shared
  informers. Every method holds the lock of the factory while it uses the state, so a method is one step;
  \<open>Shutdown\<close> is two, because it waits for the running informers between setting the flag and releasing
  the name. An informer is a value of type \<^typ>\<open>'i\<close> from the client library, a transform a value of type \<^typ>\<open>'f\<close>; list options
  have the type \<^typ>\<open>'o\<close>, and a function or name that is nil is \<^const>\<open>None\<close>. A reflected type is its name.
\<close>

section \<open>The factory\<close>

record ('c, 'o, 'i, 'f) informer_factory =
  sf_client :: 'c
  sf_namespace :: string
  sf_tweak_list_options :: "('o \<Rightarrow> 'o) option"
  sf_default_resync :: int
  sf_custom_resync :: "(string, int) fmap"
  sf_transform :: "'f option"
  sf_informer_name :: "string option"
  sf_informers :: "(string, 'i) fmap"
  sf_started :: "(string, bool) fmap"
  sf_wait_group :: nat
  sf_shutting_down :: bool

type_synonym ('c, 'o, 'i, 'f) factory_option = "('c, 'o, 'i, 'f) informer_factory \<Rightarrow> ('c, 'o, 'i, 'f) informer_factory"

text \<open>The argument lists the entries of the map in the order in which they are visited.\<close>

definition with_custom_resync_config :: "(string \<times> int) list \<Rightarrow> ('c, 'o, 'i, 'f) factory_option" where
  "with_custom_resync_config config f =
     fold (\<lambda>(ty, d) f. f\<lparr>sf_custom_resync := fmupd ty d (sf_custom_resync f)\<rparr>) config f"

definition with_tweak_list_options :: "('o \<Rightarrow> 'o) option \<Rightarrow> ('c, 'o, 'i, 'f) factory_option" where
  "with_tweak_list_options tweak f = f\<lparr>sf_tweak_list_options := tweak\<rparr>"

definition with_namespace :: "string \<Rightarrow> ('c, 'o, 'i, 'f) factory_option" where
  "with_namespace namespace f = f\<lparr>sf_namespace := namespace\<rparr>"

definition with_transform :: "'f option \<Rightarrow> ('c, 'o, 'i, 'f) factory_option" where
  "with_transform transform f = f\<lparr>sf_transform := transform\<rparr>"

definition with_informer_name :: "string option \<Rightarrow> ('c, 'o, 'i, 'f) factory_option" where
  "with_informer_name name f = f\<lparr>sf_informer_name := name\<rparr>"

definition new_factory_with_options :: "'c \<Rightarrow> int \<Rightarrow> ('c, 'o, 'i, 'f) factory_option list \<Rightarrow> ('c, 'o, 'i, 'f) informer_factory" where
  "new_factory_with_options client defaultResync options =
     fold (\<lambda>opt f. opt f) options
       \<lparr>sf_client = client, sf_namespace = '''', sf_tweak_list_options = None, sf_default_resync = defaultResync,
        sf_custom_resync = fmempty, sf_transform = None, sf_informer_name = None,
        sf_informers = fmempty, sf_started = fmempty, sf_wait_group = 0, sf_shutting_down = False\<rparr>"

definition new_filtered_factory :: "'c \<Rightarrow> int \<Rightarrow> string \<Rightarrow> ('o \<Rightarrow> 'o) option \<Rightarrow> ('c, 'o, 'i, 'f) informer_factory" where
  "new_filtered_factory client defaultResync namespace tweak =
     new_factory_with_options client defaultResync [with_namespace namespace, with_tweak_list_options tweak]"

definition new_factory :: "'c \<Rightarrow> int \<Rightarrow> ('c, 'o, 'i, 'f) informer_factory" where
  "new_factory client defaultResync = new_factory_with_options client defaultResync []"

section \<open>Its methods\<close>

definition is_started :: "('c, 'o, 'i, 'f) informer_factory \<Rightarrow> string \<Rightarrow> bool" where
  "is_started f ty = (case fmlookup (sf_started f) ty of None \<Rightarrow> False | Some b \<Rightarrow> b)"

text \<open>The informers that a call of \<open>Start\<close> runs are returned in the order of the loop.\<close>

fun start_loop ::
  "string list \<Rightarrow> ('c, 'o, 'i, 'f) informer_factory \<Rightarrow> ('c, 'o, 'i, 'f) informer_factory \<times> (string \<times> 'i) list"
where
  "start_loop [] f = (f, [])"
| "start_loop (ty # tys) f =
     (case fmlookup (sf_informers f) ty of
        None \<Rightarrow> start_loop tys f
      | Some informer \<Rightarrow>
          if \<not> is_started f ty then
            let f1 = f\<lparr>sf_wait_group := sf_wait_group f + 1, sf_started := fmupd ty True (sf_started f)\<rparr>;
                (f2, runs) = start_loop tys f1
            in (f2, (ty, informer) # runs)
          else start_loop tys f)"

definition start_with_context ::
  "lib \<Rightarrow> ('c, 'o, 'i, 'f) informer_factory \<Rightarrow> ('c, 'o, 'i, 'f) informer_factory \<times> (string \<times> 'i) list"
where
  "start_with_context L f =
     (if sf_shutting_down f then (f, [])
      else start_loop (range_order L (fmdom (sf_informers f))) f)"

text \<open>The variant with a channel in place of a context.\<close>

definition start_with_channel ::
  "lib \<Rightarrow> ('c, 'o, 'i, 'f) informer_factory \<Rightarrow> ('c, 'o, 'i, 'f) informer_factory \<times> (string \<times> 'i) list"
where
  "start_with_channel L f = start_with_context L f"

definition factory_informer_name :: "('c, 'o, 'i, 'f) informer_factory \<Rightarrow> string option" where
  "factory_informer_name f = sf_informer_name f"

definition shutdown_flag :: "('c, 'o, 'i, 'f) informer_factory \<Rightarrow> ('c, 'o, 'i, 'f) informer_factory" where
  "shutdown_flag f = f\<lparr>sf_shutting_down := True\<rparr>"

text \<open>The wait returns when no goroutine is left.\<close>

definition wait_returns :: "('c, 'o, 'i, 'f) informer_factory \<Rightarrow> bool" where
  "wait_returns f \<longleftrightarrow> sf_wait_group f = 0"

definition started_informers :: "('c, 'o, 'i, 'f) informer_factory \<Rightarrow> (string, 'i) fmap" where
  "started_informers f = fmfilter (is_started f) (sf_informers f)"

text \<open>\<open>cause\<close> is the cause for which the context ended, if it has.\<close>

definition wait_for_cache_sync ::
  "('i \<Rightarrow> bool) \<Rightarrow> string option \<Rightarrow> ('c, 'o, 'i, 'f) informer_factory \<Rightarrow> (string, bool) fmap \<times> string option"
where
  "wait_for_cache_sync hasSynced cause f =
     (let synced = fmmap hasSynced (started_informers f) in
      (synced, if \<exists>ty |\<in>| fmdom synced. fmlookup synced ty = Some False then cause else None))"

text \<open>With a channel, only which informers have synced is returned.\<close>

definition wait_with_channel ::
  "('i \<Rightarrow> bool) \<Rightarrow> string option \<Rightarrow> ('c, 'o, 'i, 'f) informer_factory \<Rightarrow> (string, bool) fmap"
where
  "wait_with_channel hasSynced cause f = fst (wait_for_cache_sync hasSynced cause f)"

definition informer_for ::
  "('f \<Rightarrow> 'i \<Rightarrow> 'i) \<Rightarrow> string \<Rightarrow> ('c \<Rightarrow> int \<Rightarrow> 'i) \<Rightarrow> ('c, 'o, 'i, 'f) informer_factory \<Rightarrow> 'i \<times> ('c, 'o, 'i, 'f) informer_factory"
where
  "informer_for setTransform ty newFunc f =
     (case fmlookup (sf_informers f) ty of
        Some informer \<Rightarrow> (informer, f)
      | None \<Rightarrow>
          let resync = (case fmlookup (sf_custom_resync f) ty of None \<Rightarrow> sf_default_resync f | Some d \<Rightarrow> d);
              informer = newFunc (sf_client f) resync;
              informer1 = (case sf_transform f of None \<Rightarrow> informer | Some t \<Rightarrow> setTransform t informer)
          in (informer1, f\<lparr>sf_informers := fmupd ty informer1 (sf_informers f)\<rparr>))"

lemma informer_for_again:
  "informer_for tf ty newFunc f = (informer, f1) \<Longrightarrow> informer_for tf ty newFunc' f1 = (informer, f1)"
  by (cases "fmlookup (sf_informers f) ty") (auto simp: informer_for_def Let_def)

section \<open>Histories of a factory\<close>

datatype 'i factory_event = Got string 'i | Ran string 'i | Finished | ShutdownBegan | ShutdownDone

text \<open>The options that the package offers.\<close>

definition standard_option :: "('c, 'o, 'i, 'f) factory_option \<Rightarrow> bool" where
  "standard_option opt \<longleftrightarrow>
     (\<exists>config. opt = with_custom_resync_config config) \<or> (\<exists>tweak. opt = with_tweak_list_options tweak) \<or>
     (\<exists>namespace. opt = with_namespace namespace) \<or> (\<exists>transform. opt = with_transform transform) \<or>
     (\<exists>name. opt = with_informer_name name)"

text \<open>Calls from any number of goroutines, in the order in which they get the lock.\<close>

inductive factory_step ::
  "lib \<Rightarrow> ('f \<Rightarrow> 'i \<Rightarrow> 'i) \<Rightarrow> ('c, 'o, 'i, 'f) informer_factory \<times> 'i factory_event list \<Rightarrow>
    ('c, 'o, 'i, 'f) informer_factory \<times> 'i factory_event list \<Rightarrow> bool"
  for L tf
where
  "informer_for tf ty newFunc f = (informer, f') \<Longrightarrow> factory_step L tf (f, es) (f', es @ [Got ty informer])"
| "start_with_context L f = (f', runs) \<Longrightarrow>
    factory_step L tf (f, es) (f', es @ map (\<lambda>(ty, informer). Ran ty informer) runs)"
| "0 < sf_wait_group f \<Longrightarrow>
    factory_step L tf (f, es) (f\<lparr>sf_wait_group := sf_wait_group f - 1\<rparr>, es @ [Finished])"
| "factory_step L tf (f, es) (shutdown_flag f, es @ [ShutdownBegan])"
| "ShutdownBegan \<in> set es \<Longrightarrow> wait_returns f \<Longrightarrow> factory_step L tf (f, es) (f, es @ [ShutdownDone])"

inductive factory_history ::
  "lib \<Rightarrow> ('f \<Rightarrow> 'i \<Rightarrow> 'i) \<Rightarrow> ('c, 'o, 'i, 'f) informer_factory \<times> 'i factory_event list \<Rightarrow> bool"
  for L tf
where
  "list_all standard_option options \<Longrightarrow> factory_history L tf (new_factory_with_options client resync options, [])"
| "factory_history L tf s \<Longrightarrow> factory_step L tf s s' \<Longrightarrow> factory_history L tf s'"


section \<open>What holds in every history\<close>

lemma standard_option_keeps:
  assumes "standard_option opt"
  shows "sf_informers (opt f) = sf_informers f \<and> sf_started (opt f) = sf_started f \<and>
    sf_wait_group (opt f) = sf_wait_group f \<and> sf_shutting_down (opt f) = sf_shutting_down f"
proof -
  have "sf_informers (with_custom_resync_config c f) = sf_informers f \<and>
      sf_started (with_custom_resync_config c f) = sf_started f \<and>
      sf_wait_group (with_custom_resync_config c f) = sf_wait_group f \<and>
      sf_shutting_down (with_custom_resync_config c f) = sf_shutting_down f" for c
    unfolding with_custom_resync_config_def by (induction c arbitrary: f) (simp_all add: case_prod_beta)
  with assms show ?thesis
    by (auto simp: standard_option_def with_tweak_list_options_def with_namespace_def
        with_transform_def with_informer_name_def)
qed

lemma new_factory_fresh:
  assumes "list_all standard_option options"
  shows "sf_informers (new_factory_with_options client resync options) = fmempty \<and>
    sf_started (new_factory_with_options client resync options) = fmempty \<and>
    sf_wait_group (new_factory_with_options client resync options) = 0 \<and>
    \<not> sf_shutting_down (new_factory_with_options client resync options)"
proof -
  have "sf_informers (fold (\<lambda>opt f. opt f) options f) = sf_informers f \<and>
      sf_started (fold (\<lambda>opt f. opt f) options f) = sf_started f \<and>
      sf_wait_group (fold (\<lambda>opt f. opt f) options f) = sf_wait_group f \<and>
      sf_shutting_down (fold (\<lambda>opt f. opt f) options f) = sf_shutting_down f" for f
    using assms by (induction options arbitrary: f) (auto simp: standard_option_keeps)
  then show ?thesis unfolding new_factory_with_options_def by simp
qed

fun is_run :: "'i factory_event \<Rightarrow> bool" where
  "is_run (Ran ty i) = True"
| "is_run e = False"

fun run_types :: "'i factory_event list \<Rightarrow> string list" where
  "run_types [] = []"
| "run_types (Ran ty i # es) = ty # run_types es"
| "run_types (e # es) = run_types es"

lemma run_types_append [simp]: "run_types (xs @ ys) = run_types xs @ run_types ys"
  by (induction xs rule: run_types.induct) auto

lemma run_types_in: "Ran ty i \<in> set es \<Longrightarrow> ty \<in> set (run_types es)"
  by (induction es rule: run_types.induct) auto

definition history_ok :: "('c, 'o, 'i, 'f) informer_factory \<Rightarrow> 'i factory_event list \<Rightarrow> bool" where
  "history_ok f es \<longleftrightarrow>
     distinct (run_types es) \<and> (\<forall>ty. is_started f ty \<longleftrightarrow> ty \<in> set (run_types es)) \<and>
     (\<forall>ty i. Ran ty i \<in> set es \<longrightarrow> fmlookup (sf_informers f) ty = Some i) \<and>
     (\<forall>ty i. Got ty i \<in> set es \<longleftrightarrow> fmlookup (sf_informers f) ty = Some i) \<and>
     length (filter is_run es) = sf_wait_group f + count_list es Finished \<and>
     (sf_shutting_down f \<longleftrightarrow> ShutdownBegan \<in> set es) \<and>
     (\<forall>pre post. es = pre @ ShutdownBegan # post \<longrightarrow> run_types post = []) \<and>
     (\<forall>pre post. es = pre @ ShutdownDone # post \<longrightarrow> length (filter is_run pre) = count_list pre Finished)"

lemma start_loop_spec:
  "start_loop tys f = (f', runs) \<Longrightarrow>
    sf_informers f' = sf_informers f \<and> sf_shutting_down f' = sf_shutting_down f \<and>
    sf_wait_group f' = sf_wait_group f + length runs \<and> distinct (map fst runs) \<and>
    (\<forall>ty \<in> set (map fst runs). \<not> is_started f ty) \<and>
    (\<forall>ty. is_started f' ty \<longleftrightarrow> is_started f ty \<or> ty \<in> set (map fst runs)) \<and>
    (\<forall>(ty, i) \<in> set runs. fmlookup (sf_informers f) ty = Some i)"
proof (induction tys f arbitrary: f' runs rule: start_loop.induct)
  case (2 ty tys f)
  show ?case
  proof (cases "fmlookup (sf_informers f) ty = None \<or> is_started f ty")
    case True
    with 2(4) have l: "start_loop tys f = (f', runs)" by (auto split: option.splits)
    show ?thesis
    proof (cases "fmlookup (sf_informers f) ty")
      case None
      from 2(1) [OF None l] show ?thesis .
    next
      case (Some i)
      with True have "\<not> \<not> is_started f ty" by simp
      from 2(3) [OF Some this l] show ?thesis .
    qed
  next
    case False
    then obtain i where i: "fmlookup (sf_informers f) ty = Some i" and n: "\<not> is_started f ty" by auto
    let ?f = "f\<lparr>sf_wait_group := sf_wait_group f + 1, sf_started := fmupd ty True (sf_started f)\<rparr>"
    from 2(4) i n obtain rs where r: "start_loop tys ?f = (f', rs)" "runs = (ty, i) # rs"
      by (auto simp: Let_def split: prod.splits)
    have st: "is_started (f\<lparr>sf_wait_group := w, sf_started := fmupd ty True (sf_started f)\<rparr>) t \<longleftrightarrow>
        t = ty \<or> is_started f t" for w t by (simp add: is_started_def)
    from 2(2) [OF i n refl r(1)] have
      ih: "sf_informers f' = sf_informers f" "sf_shutting_down f' = sf_shutting_down f"
        "sf_wait_group f' = Suc (sf_wait_group f + length rs)" "distinct (map fst rs)"
        "\<forall>t \<in> set (map fst rs). t \<noteq> ty \<and> \<not> is_started f t"
        "\<forall>t. is_started f' t \<longleftrightarrow> (t = ty \<or> is_started f t) \<or> t \<in> set (map fst rs)"
        "\<forall>(t, j) \<in> set rs. fmlookup (sf_informers f) t = Some j"
      by (simp_all add: st)
    then have "ty \<notin> set (map fst rs)" by blast
    show ?thesis
      unfolding r(2)
    proof (intro conjI)
      show "distinct (map fst ((ty, i) # rs))" using ih(4) \<open>ty \<notin> set (map fst rs)\<close> by simp
      show "\<forall>t \<in> set (map fst ((ty, i) # rs)). \<not> is_started f t" using ih(5) n by simp
      show "\<forall>t. is_started f' t \<longleftrightarrow> is_started f t \<or> t \<in> set (map fst ((ty, i) # rs))"
        unfolding ih(6) [rule_format] by auto
      show "\<forall>(t, j) \<in> set ((ty, i) # rs). fmlookup (sf_informers f) t = Some j" using ih(7) i by simp
    qed (simp_all add: ih(1-3))
  qed
qed simp

lemma snoc_split:
  "es @ [e] = pre @ x # post \<longleftrightarrow> (post = [] \<and> pre = es \<and> e = x) \<or> (\<exists>post'. post = post' @ [e] \<and> es = pre @ x # post')"
  by (cases post rule: rev_cases) auto

lemma run_types_map [simp]: "run_types (map (\<lambda>(ty, i). Ran ty i) runs) = map fst runs"
  by (induction runs) auto

lemma history_init: "list_all standard_option options \<Longrightarrow> history_ok (new_factory_with_options client resync options) []"
  using new_factory_fresh [of options client resync] by (simp add: history_ok_def is_started_def)

lemma history_append:
  assumes ok: "history_ok f es" and new: "\<not> sf_shutting_down f"
    and f': "sf_informers f' = sf_informers f" "sf_shutting_down f' = sf_shutting_down f"
      "sf_wait_group f' = sf_wait_group f + length runs"
    and d: "distinct (map fst runs)" "\<forall>ty \<in> set (map fst runs). \<not> is_started f ty"
    and s: "\<forall>ty. is_started f' ty \<longleftrightarrow> is_started f ty \<or> ty \<in> set (map fst runs)"
    and i: "\<forall>(ty, i) \<in> set runs. fmlookup (sf_informers f) ty = Some i"
  shows "history_ok f' (es @ map (\<lambda>(ty, i). Ran ty i) runs)"
proof -
  let ?rs = "map (\<lambda>(ty, i). Ran ty i) runs"
  have no: "ShutdownBegan \<notin> set es" "ShutdownBegan \<notin> set ?rs" "ShutdownDone \<notin> set ?rs" "Finished \<notin> set ?rs"
    using ok new by (auto simp: history_ok_def)
  have len: "length (filter is_run ?rs) = length runs" by (induction runs) auto
  have done_in: "\<exists>post'. es = pre @ ShutdownDone # post'" if "es @ ?rs = pre @ ShutdownDone # post" for pre post
    using split_before [OF that no(3)] .
  have "count_list ?rs Finished = 0" using no(4) by (simp add: count_list_0_iff)
  moreover have "distinct (run_types (es @ ?rs))"
    using ok d unfolding history_ok_def by (auto simp: run_types_map)
  moreover have "\<forall>ty. is_started f' ty \<longleftrightarrow> ty \<in> set (run_types (es @ ?rs))"
    using ok s unfolding history_ok_def by (simp add: run_types_map)
  moreover have "\<forall>ty j. Ran ty j \<in> set (es @ ?rs) \<longrightarrow> fmlookup (sf_informers f') ty = Some j"
    using ok i unfolding history_ok_def by (auto simp: f')
  moreover have "\<forall>ty j. Got ty j \<in> set (es @ ?rs) \<longleftrightarrow> fmlookup (sf_informers f') ty = Some j"
    using ok unfolding history_ok_def by (auto simp: f')
  moreover have "\<forall>pre post. es @ ?rs = pre @ ShutdownBegan # post \<longrightarrow> run_types post = []"
    using no(1,2) by (metis Un_iff in_set_conv_decomp set_append)
  moreover have "\<forall>pre post. es @ ?rs = pre @ ShutdownDone # post \<longrightarrow> length (filter is_run pre) = count_list pre Finished"
    using done_in ok unfolding history_ok_def by blast
  ultimately show ?thesis
    using ok no len f' unfolding history_ok_def by simp
qed

lemma history_step:
  assumes "history_ok f es" and "factory_step L tf (f, es) (f', es')"
  shows "history_ok f' es'"
  using assms(2)
proof cases
  case (1 ty newFunc informer)
  have "f' = f \<and> fmlookup (sf_informers f) ty = Some informer \<or> fmlookup (sf_informers f) ty = None \<and>
      f' = f\<lparr>sf_informers := fmupd ty informer (sf_informers f)\<rparr>"
    using 1(2) by (auto simp: informer_for_def Let_def split: option.splits)
  then show ?thesis
  proof (elim disjE conjE)
    assume n: "fmlookup (sf_informers f) ty = None" and f': "f' = f\<lparr>sf_informers := fmupd ty informer (sf_informers f)\<rparr>"
    have no: "Ran ty j \<notin> set es" "Got ty j \<notin> set es" for j using assms(1) n by (auto simp: history_ok_def)
    then have "\<forall>t j. Ran t j \<in> set es' \<longrightarrow> fmlookup (sf_informers f') t = Some j"
      using assms(1) by (auto simp: history_ok_def f' 1(1))
    moreover have "\<forall>t j. Got t j \<in> set es' \<longleftrightarrow> fmlookup (sf_informers f') t = Some j"
      using assms(1) no by (auto simp: history_ok_def f' 1(1))
    ultimately show ?thesis using assms(1) unfolding 1(1) by (auto simp: history_ok_def f' is_started_def snoc_split)
  next
    assume "f' = f" "fmlookup (sf_informers f) ty = Some informer"
    with assms(1) show ?thesis unfolding 1(1) by (auto simp: history_ok_def snoc_split)
  qed
next
  case (2 runs)
  show ?thesis
  proof (cases "sf_shutting_down f")
    case True
    with 2 assms(1) show ?thesis by (simp add: start_with_context_def)
  next
    case False
    with 2(2) have "start_loop (range_order L (fmdom (sf_informers f))) f = (f', runs)"
      by (simp add: start_with_context_def)
    from start_loop_spec [OF this] history_append [OF assms(1) False] show ?thesis unfolding 2(1) by blast
  qed
next
  case 3
  with assms(1) show ?thesis
    by (auto simp: history_ok_def is_started_def snoc_split)
next
  case 4
  with assms(1) show ?thesis
    by (auto simp: history_ok_def is_started_def shutdown_flag_def snoc_split)
next
  case 5
  with assms(1) show ?thesis
    by (auto simp: history_ok_def wait_returns_def snoc_split)
qed

lemma history_all: "factory_history L tf (f, es) \<Longrightarrow> history_ok f es"
proof (induction "(f, es)" arbitrary: f es rule: factory_history.induct)
  case (2 s f es)
  then show ?case by (cases s) (auto dest: history_step)
qed (rule history_init)

section \<open>Properties\<close>

text \<open>
  C37: in every history of a factory, all requests for a type get the same informer, also those that come later; each type has
  its informer run at most once, and it is this one; no informer is started after \<open>Shutdown\<close> was called; and
  \<open>Shutdown\<close> returns only when as many informers have finished as were started.
\<close>

theorem informers_run_once:
  assumes "factory_history L tf (f, es)"
  shows "(\<forall>pre ty i post. es = pre @ Ran ty i # post \<longrightarrow>
      (\<forall>j. Ran ty j \<notin> set pre \<and> Ran ty j \<notin> set post) \<and> ShutdownBegan \<notin> set pre \<and>
      Got ty i \<in> set es) \<and>
    (\<forall>ty i. Got ty i \<in> set es \<longrightarrow> informer_for tf ty newFunc f = (i, f) \<and> (\<forall>j. Got ty j \<in> set es \<longrightarrow> j = i)) \<and>
    (\<forall>pre post. es = pre @ ShutdownDone # post \<longrightarrow> length (filter is_run pre) = count_list pre Finished)"
proof (intro conjI allI impI)
  from history_all [OF assms] have ok: "history_ok f es" .
  { fix pre ty i post assume es: "es = pre @ Ran ty i # post"
    have "distinct (run_types pre @ ty # run_types post)" using ok es by (simp add: history_ok_def)
    then have "ty \<notin> set (run_types pre)" "ty \<notin> set (run_types post)" by auto
    then show "Ran ty j \<notin> set pre" "Ran ty j \<notin> set post" for j by (metis run_types_in)+
    show "ShutdownBegan \<notin> set pre"
    proof
      assume "ShutdownBegan \<in> set pre"
      then obtain a b where "pre = a @ ShutdownBegan # b" by (auto simp: in_set_conv_decomp)
      then have "es = a @ ShutdownBegan # b @ Ran ty i # post" by (simp add: es)
      with ok have "run_types (b @ Ran ty i # post) = []" unfolding history_ok_def by blast
      then show False by simp
    qed
    from ok show "Got ty i \<in> set es" by (auto simp: history_ok_def es) }
  { fix ty i assume "Got ty i \<in> set es"
    with ok have i: "fmlookup (sf_informers f) ty = Some i" by (simp add: history_ok_def)
    then show "informer_for tf ty newFunc f = (i, f)" by (simp add: informer_for_def)
    show "j = i" if "Got ty j \<in> set es" for j using ok i that by (simp add: history_ok_def) }
  { fix pre post assume "es = pre @ ShutdownDone # post"
    with ok show "length (filter is_run pre) = count_list pre Finished" unfolding history_ok_def by blast }
qed


theorem informers_run_once_witness:
  "\<exists>(f :: (unit, unit, nat, string) informer_factory) es. factory_history std_lib (\<lambda>t i. i) (f, es) \<and>
    Ran ''MasqueradingRule'' 7 \<in> set es \<and> informer_for (\<lambda>t i. i) ''MasqueradingRule'' (\<lambda>c d. 8) f = (7, f) \<and>
    (\<forall>j. Got ''MasqueradingRule'' j \<in> set es \<longrightarrow> j = 7)"
proof -
  let ?f0 = "new_factory_with_options () 10 [] :: (unit, unit, nat, string) informer_factory"
  obtain f1 where f1: "informer_for (\<lambda>t i. i) ''MasqueradingRule'' (\<lambda>c d. 7) ?f0 = (7, f1)"
    and i: "sf_informers f1 = fmupd ''MasqueradingRule'' 7 fmempty" "\<not> sf_shutting_down f1" "sf_started f1 = fmempty"
    by (simp add: informer_for_def new_factory_with_options_def)
  have 0: "factory_history std_lib (\<lambda>t i. i) (?f0, [])" by (rule factory_history.intros(1)) simp
  from factory_history.intros(2) [OF 0 factory_step.intros(1) [OF f1]] have
    1: "factory_history std_lib (\<lambda>t i. i) (f1, [Got ''MasqueradingRule'' 7])" by simp
  obtain f2 where "start_with_context std_lib f1 = (f2, [(''MasqueradingRule'', 7)])"
    using i by (simp add: start_with_context_def is_started_def sorted_list_of_fset.rep_eq)
  from factory_history.intros(2) [OF 1 factory_step.intros(2) [OF this]] have
    2: "factory_history std_lib (\<lambda>t i. i) (f2, [Got ''MasqueradingRule'' 7, Ran ''MasqueradingRule'' 7])" by simp
  moreover from informers_run_once [OF 2, of "\<lambda>c d. 8"] have
    "informer_for (\<lambda>t i. i) ''MasqueradingRule'' (\<lambda>c d. 8) f2 = (7, f2)" by simp
  ultimately show ?thesis by (intro exI [of _ f2] exI [of _ "[Got ''MasqueradingRule'' 7, Ran ''MasqueradingRule'' 7]"]) simp
qed

end
