(* ===== verification/Rule_Informers.thy ===== *)
theory Rule_Informers
  imports Informers
begin

text \<open>
  \<^verbatim>\<open>pkg/client/informers/externalversions\<close>: the informer of masquerading rules
  (\<^verbatim>\<open>dns.cs.sap.com/v1alpha1/masqueradingrule.go\<close>), the way to it through group and version
  (\<^verbatim>\<open>interface.go\<close>), and \<^verbatim>\<open>ForResource\<close> of \<^verbatim>\<open>generic.go\<close>. The client is given by its list and watch
  functions; an informer is made by the client library from the functions it calls.
\<close>

section \<open>The informer of rules\<close>

text \<open>\<open>'x\<close> stands for contexts, \<open>'l\<close> and \<open>'w\<close> for the answers to list and watch.\<close>

record ('x, 'o, 'l, 'w) rule_client =
  rcl_list :: "string \<Rightarrow> 'x \<Rightarrow> 'o \<Rightarrow> 'l"
  rcl_watch :: "string \<Rightarrow> 'x \<Rightarrow> 'o \<Rightarrow> 'w"

record ('x, 'o, 'l, 'w) list_watch =
  lw_list :: "'o \<Rightarrow> 'l"
  lw_watch :: "'o \<Rightarrow> 'w"
  lw_list_with_context :: "'x \<Rightarrow> 'o \<Rightarrow> 'l"
  lw_watch_with_context :: "'x \<Rightarrow> 'o \<Rightarrow> 'w"

record ('o, 'ix) informer_options =
  io_resync :: int
  io_indexers :: 'ix
  io_informer_name :: "string option"
  io_tweak_list_options :: "('o \<Rightarrow> 'o) option"

text \<open>The client library: the background context, the index by namespace, the identifier of an informer, its construction.\<close>

record ('x, 'o, 'l, 'w, 'ix, 'id, 'i, 'f) informer_lib =
  il_background :: 'x
  il_namespace_indexers :: 'ix
  il_with_resource :: "string option \<Rightarrow> string \<times> string \<times> string \<Rightarrow> 'id"
  il_new_informer :: "('x, 'o, 'l, 'w) list_watch \<Rightarrow> ('x, 'o, 'l, 'w) rule_client \<Rightarrow> int \<Rightarrow> 'ix \<Rightarrow> 'id \<Rightarrow> 'i"
  il_set_transform :: "'f \<Rightarrow> 'i \<Rightarrow> 'i"

definition masqueradingrules_resource :: "string \<times> string \<times> string" where
  "masqueradingrules_resource = (''dns.cs.sap.com'', ''v1alpha1'', ''masqueradingrules'')"

definition tweaked :: "('o \<Rightarrow> 'o) option \<Rightarrow> 'o \<Rightarrow> 'o" where
  "tweaked tweak opts = (case tweak of None \<Rightarrow> opts | Some f \<Rightarrow> f opts)"

definition rule_list_watch ::
  "'x \<Rightarrow> ('x, 'o, 'l, 'w) rule_client \<Rightarrow> string \<Rightarrow> ('o \<Rightarrow> 'o) option \<Rightarrow> ('x, 'o, 'l, 'w) list_watch"
where
  "rule_list_watch background client namespace tweak =
     \<lparr>lw_list = (\<lambda>opts. rcl_list client namespace background (tweaked tweak opts)),
      lw_watch = (\<lambda>opts. rcl_watch client namespace background (tweaked tweak opts)),
      lw_list_with_context = (\<lambda>ctx opts. rcl_list client namespace ctx (tweaked tweak opts)),
      lw_watch_with_context = (\<lambda>ctx opts. rcl_watch client namespace ctx (tweaked tweak opts))\<rparr>"

definition new_rule_informer_with_options ::
  "('x, 'o, 'l, 'w, 'ix, 'id, 'i, 'f) informer_lib \<Rightarrow> ('x, 'o, 'l, 'w) rule_client \<Rightarrow> string \<Rightarrow>
    ('o, 'ix) informer_options \<Rightarrow> 'i"
where
  "new_rule_informer_with_options IL client namespace options =
     il_new_informer IL
       (rule_list_watch (il_background IL) client namespace (io_tweak_list_options options)) client
       (io_resync options) (io_indexers options)
       (il_with_resource IL (io_informer_name options) masqueradingrules_resource)"

definition new_rule_informer ::
  "('x, 'o, 'l, 'w, 'ix, 'id, 'i, 'f) informer_lib \<Rightarrow> ('x, 'o, 'l, 'w) rule_client \<Rightarrow> string \<Rightarrow> int \<Rightarrow> 'ix \<Rightarrow> 'i"
where
  "new_rule_informer IL client namespace resync indexers =
     new_rule_informer_with_options IL client namespace
       \<lparr>io_resync = resync, io_indexers = indexers, io_informer_name = None, io_tweak_list_options = None\<rparr>"

definition new_filtered_rule_informer ::
  "('x, 'o, 'l, 'w, 'ix, 'id, 'i, 'f) informer_lib \<Rightarrow> ('x, 'o, 'l, 'w) rule_client \<Rightarrow> string \<Rightarrow> int \<Rightarrow> 'ix \<Rightarrow>
    ('o \<Rightarrow> 'o) option \<Rightarrow> 'i"
where
  "new_filtered_rule_informer IL client namespace resync indexers tweak =
     new_rule_informer_with_options IL client namespace
       \<lparr>io_resync = resync, io_indexers = indexers, io_informer_name = None, io_tweak_list_options = tweak\<rparr>"

section \<open>The way to the informer\<close>

text \<open>
  \<^verbatim>\<open>Dns()\<close>, \<^verbatim>\<open>V1alpha1()\<close> and \<^verbatim>\<open>Masqueradingrules()\<close> pass the namespace and the tweak function of the factory on; the
  factory itself is the state of the functions below.
\<close>

record 'o informer_access =
  ia_namespace :: string
  ia_tweak_list_options :: "('o \<Rightarrow> 'o) option"

definition new_group :: "string \<Rightarrow> ('o \<Rightarrow> 'o) option \<Rightarrow> 'o informer_access" where
  "new_group namespace tweak = \<lparr>ia_namespace = namespace, ia_tweak_list_options = tweak\<rparr>"

definition new_version :: "string \<Rightarrow> ('o \<Rightarrow> 'o) option \<Rightarrow> 'o informer_access" where
  "new_version namespace tweak = \<lparr>ia_namespace = namespace, ia_tweak_list_options = tweak\<rparr>"

definition dns_group :: "('c, 'o, 'i, 'f) informer_factory \<Rightarrow> 'o informer_access" where
  "dns_group f = new_group (sf_namespace f) (sf_tweak_list_options f)"

definition v1alpha1_version :: "'o informer_access \<Rightarrow> 'o informer_access" where
  "v1alpha1_version g = new_version (ia_namespace g) (ia_tweak_list_options g)"

definition masqueradingrules_informer :: "'o informer_access \<Rightarrow> 'o informer_access" where
  "masqueradingrules_informer v = \<lparr>ia_namespace = ia_namespace v, ia_tweak_list_options = ia_tweak_list_options v\<rparr>"

definition default_informer ::
  "('x, 'o, 'l, 'w, 'ix, 'id, 'i, 'f) informer_lib \<Rightarrow> string option \<Rightarrow> 'o informer_access \<Rightarrow>
    ('x, 'o, 'l, 'w) rule_client \<Rightarrow> int \<Rightarrow> 'i"
where
  "default_informer IL name f client resync =
     new_rule_informer_with_options IL client (ia_namespace f)
       \<lparr>io_resync = resync, io_indexers = il_namespace_indexers IL, io_informer_name = name,
        io_tweak_list_options = ia_tweak_list_options f\<rparr>"

definition rule_informer ::
  "('x, 'o, 'l, 'w, 'ix, 'id, 'i, 'f) informer_lib \<Rightarrow> 'o informer_access \<Rightarrow>
    (('x, 'o, 'l, 'w) rule_client, 'o, 'i, 'f) informer_factory \<Rightarrow>
    'i \<times> (('x, 'o, 'l, 'w) rule_client, 'o, 'i, 'f) informer_factory"
where
  "rule_informer IL access f =
     informer_for (il_set_transform IL) ''MasqueradingRule'' (default_informer IL (sf_informer_name f) access) f"

text \<open>The resource is group, version and name; \<open>show_gvr\<close> is how an unknown one is printed.\<close>

definition for_resource ::
  "('x, 'o, 'l, 'w, 'ix, 'id, 'i, 'f) informer_lib \<Rightarrow> (string \<times> string \<times> string \<Rightarrow> string) \<Rightarrow>
    string \<times> string \<times> string \<Rightarrow> (('x, 'o, 'l, 'w) rule_client, 'o, 'i, 'f) informer_factory \<Rightarrow>
    (string + ((string \<times> string) \<times> 'i)) \<times> (('x, 'o, 'l, 'w) rule_client, 'o, 'i, 'f) informer_factory"
where
  "for_resource IL show_gvr resource f =
     (if resource = masqueradingrules_resource then
        let (informer, f1) = rule_informer IL (masqueradingrules_informer (v1alpha1_version (dns_group f))) f in
        (Inr ((fst resource, snd (snd resource)), informer), f1)
      else (Inl (''no informer found for '' @ show_gvr resource), f))"

section \<open>Lemmas\<close>

lemma access_simps [simp]:
  "ia_namespace (masqueradingrules_informer (v1alpha1_version (dns_group f))) = sf_namespace f"
  "ia_tweak_list_options (masqueradingrules_informer (v1alpha1_version (dns_group f))) = sf_tweak_list_options f"
  by (simp_all add: masqueradingrules_informer_def v1alpha1_version_def dns_group_def new_group_def new_version_def)

text \<open>
  The first request makes an informer that asks the client of the factory for rules of its namespace, with its
  tweak applied to the options; every later request, also by resource, gets the same informer.
\<close>

lemma rule_informer_new:
  assumes "fmlookup (sf_informers f) ''MasqueradingRule'' = None" and "sf_transform f = None"
    and "rule_informer IL (masqueradingrules_informer (v1alpha1_version (dns_group f))) f = (i, f')"
  shows "i = il_new_informer IL (rule_list_watch (il_background IL) (sf_client f) (sf_namespace f) (sf_tweak_list_options f))
      (sf_client f)
      (case fmlookup (sf_custom_resync f) ''MasqueradingRule'' of None \<Rightarrow> sf_default_resync f | Some d \<Rightarrow> d)
      (il_namespace_indexers IL) (il_with_resource IL (sf_informer_name f) masqueradingrules_resource)"
    "for_resource IL show_gvr masqueradingrules_resource f' = (Inr ((''dns.cs.sap.com'', ''masqueradingrules''), i), f')"
  using assms
  by (auto simp: rule_informer_def informer_for_def Let_def default_informer_def new_rule_informer_with_options_def
      for_resource_def masqueradingrules_resource_def)

text \<open>A second request for the informer of rules gives the same one and changes nothing.\<close>

lemma rule_informer_again:
  "rule_informer IL access f = (i, f1) \<Longrightarrow> rule_informer IL access' f1 = (i, f1)"
  unfolding rule_informer_def by (rule informer_for_again)

lemma tweaked_list:
  "lw_list_with_context (rule_list_watch bg client namespace (Some tweak)) ctx opts =
     rcl_list client namespace ctx (tweak opts)"
  "lw_list (rule_list_watch bg client namespace tw) opts =
     lw_list_with_context (rule_list_watch bg client namespace tw) bg opts"
  "lw_watch (rule_list_watch bg client namespace tw) opts =
     lw_watch_with_context (rule_list_watch bg client namespace tw) bg opts"
  by (simp_all add: rule_list_watch_def tweaked_def)

end
