(* ===== verification/Typed_Client.thy ===== *)
theory Typed_Client
  imports Rule_Informers Clientset Api_Copy
begin

text \<open>
  The typed client of rules (\<^verbatim>\<open>typed/dns.cs.sap.com/v1alpha1/masqueradingrule.go\<close>), the listers
  (\<^verbatim>\<open>pkg/client/listers\<close>) and \<^verbatim>\<open>Lister\<close> of the informer. The generic clients and indexers they
  instantiate are code of the client library: the fields of \<open>typed_lib\<close>.
\<close>

section \<open>The typed client\<close>

text \<open>
  \<open>gt_new_client\<close> is \<^verbatim>\<open>gentype.NewClientWithList\<close>; its last two arguments are the contents of the objects that the
  functions passed to it allocate.
\<close>

record ('c, 'p, 'm, 'n, 't, 'ind, 'i, 'l) typed_lib =
  gt_parameter_codec :: 'p
  gt_new_client :: "string \<Rightarrow> 'c option \<Rightarrow> 'p \<Rightarrow> string \<Rightarrow> 'm ref_rule \<Rightarrow> 'n ref_rule_list \<Rightarrow> 't"
  gt_indexer :: "'i \<Rightarrow> 'ind"
  gt_new_lister :: "'ind \<Rightarrow> string \<times> string \<Rightarrow> 'l"
  gt_namespaced :: "'l \<Rightarrow> string \<Rightarrow> 'l"
  gt_new_generic_lister :: "'ind \<Rightarrow> string \<times> string \<Rightarrow> 'l"

definition new_masqueradingrules ::
  "('c, 'p, 'm, 'n, 't, 'ind, 'i, 'll) typed_lib \<Rightarrow> ('l, 'm, 'n) copy_lib \<Rightarrow> 'c dns_client \<Rightarrow> string \<Rightarrow> 't"
where
  "new_masqueradingrules T D c namespace =
     gt_new_client T ''masqueradingrules'' (dns_rest_client (Some c)) (gt_parameter_codec T) namespace
       (zero_rule D) (zero_rule_list D)"

definition client_masqueradingrules ::
  "('c, 'p, 'm, 'n, 't, 'ind, 'i, 'll) typed_lib \<Rightarrow> ('l, 'm, 'n) copy_lib \<Rightarrow> 'c dns_client \<Rightarrow> string \<Rightarrow> 't"
where
  "client_masqueradingrules T D c namespace = new_masqueradingrules T D c namespace"

section \<open>Listers\<close>

definition group_resource :: "string \<Rightarrow> string \<times> string" where
  "group_resource resource = (fst group_version, resource)"

definition new_rule_lister :: "('c, 'p, 'm, 'n, 't, 'ind, 'i, 'll) typed_lib \<Rightarrow> 'ind \<Rightarrow> 'll" where
  "new_rule_lister T indexer = gt_new_lister T indexer (group_resource ''masqueradingrule'')"

definition lister_masqueradingrules :: "('c, 'p, 'm, 'n, 't, 'ind, 'i, 'll) typed_lib \<Rightarrow> 'll \<Rightarrow> string \<Rightarrow> 'll" where
  "lister_masqueradingrules T s namespace = gt_namespaced T s namespace"

definition rule_lister ::
  "('c, 'p, 'm, 'n, 't, 'ind, 'i, 'll) typed_lib \<Rightarrow> ('x, 'o, 'lr, 'w, 'ix, 'id, 'i, 'f) informer_lib \<Rightarrow> 'o informer_access \<Rightarrow>
    (('x, 'o, 'lr, 'w) rule_client, 'o, 'i, 'f) informer_factory \<Rightarrow>
    'll \<times> (('x, 'o, 'lr, 'w) rule_client, 'o, 'i, 'f) informer_factory"
where
  "rule_lister T IL access f =
     (let (informer, f1) = rule_informer IL access f in (new_rule_lister T (gt_indexer T informer), f1))"

text \<open>\<^verbatim>\<open>generic.go\<close>: what \<open>for_resource\<close> returns is a group resource and an informer.\<close>

type_synonym 'i generic_informer = "(string \<times> string) \<times> 'i"

definition generic_informer_informer :: "'i generic_informer \<Rightarrow> 'i" where
  "generic_informer_informer g = snd g"

definition generic_informer_lister :: "('c, 'p, 'm, 'n, 't, 'ind, 'i, 'll) typed_lib \<Rightarrow> 'i generic_informer \<Rightarrow> 'll" where
  "generic_informer_lister T g = gt_new_generic_lister T (gt_indexer T (generic_informer_informer g)) (fst g)"

text \<open>A lister reads the index of the one informer of rules, whichever is asked for first.\<close>

lemma lister_after_informer:
  assumes "rule_informer IL access f = (i, f1)"
  shows "rule_lister T IL access' f1 = (new_rule_lister T (gt_indexer T i), f1)"
  by (simp add: rule_lister_def rule_informer_again [OF assms])

lemma informer_after_lister:
  assumes "rule_lister T IL access f = (l, f1)"
  shows "\<exists>i. rule_informer IL access' f1 = (i, f1) \<and> l = new_rule_lister T (gt_indexer T i)"
proof -
  obtain i f' where i: "rule_informer IL access f = (i, f')" by fastforce
  with assms have "f' = f1" "l = new_rule_lister T (gt_indexer T i)" by (simp_all add: rule_lister_def)
  with rule_informer_again [OF i] show ?thesis by blast
qed

text \<open>The generic lister of the resource reads the same index.\<close>

lemma generic_lister_of_rules:
  assumes "rule_informer IL access f = (i, f1)"
  shows "\<exists>g. for_resource IL show_gvr masqueradingrules_resource f1 = (Inr g, f1) \<and>
    generic_informer_lister T g = gt_new_generic_lister T (gt_indexer T i) (group_resource ''masqueradingrules'')"
  using rule_informer_again [OF assms]
  by (simp add: for_resource_def Let_def masqueradingrules_resource_def generic_informer_lister_def
      generic_informer_informer_def group_resource_def group_version_def)

text \<open>The typed client of a clientset speaks through the REST client that was made for the group.\<close>

lemma clientset_rules:
  "new_for_config R c = Inr cs \<Longrightarrow>
    \<exists>h client. rl_rest_client_for R (set_config_defaults R (effective_config R c)) h = Inr client \<and>
      client_masqueradingrules T D (dns_v1alpha1 cs) namespace =
        gt_new_client T ''masqueradingrules'' (Some client) (gt_parameter_codec T) namespace (zero_rule D) (zero_rule_list D)"
  by (auto simp: new_for_config_iff client_masqueradingrules_def new_masqueradingrules_def dns_rest_client_def)

end
