(* ===== verification/Fake_Client.thy ===== *)
theory Fake_Client
  imports Registration Typed_Client
begin

text \<open>
  The fake clientset (\<^verbatim>\<open>pkg/client/clientset/versioned/fake\<close>) and the fake client of the rules
  (\<^verbatim>\<open>typed/dns.cs.sap.com/v1alpha1/fake\<close>). The object tracker, the chain of reactors and the generic fake client are code of the client
  library: the fields of \<open>fake_lib\<close> and \<open>fake_typed_lib\<close>. The tracker is shared by reference, so a reaction is a
  function of the tracker at the time of the action.
\<close>

section \<open>The library\<close>

text \<open>
  \<open>'t\<close> are trackers, \<open>'ob\<close> objects, \<open>'a\<close> actions, \<open>'x\<close> list options, \<open>'w\<close> watches, \<open>'r\<close> answers to the
  other actions, and \<open>'f\<close> values of \<^verbatim>\<open>testing.Fake\<close> with their chains of reactors. \<open>fl_watch_options\<close> is the assertion that an
  action is a \<^verbatim>\<open>WatchActionImpl\<close>, with its options.
\<close>

type_synonym ('t, 'a, 'w) watch_reaction = "'t \<Rightarrow> 'a \<Rightarrow> (bool \<times> 'w option \<times> string option) \<times> 't"

record ('s, 't, 'ob, 'a, 'x, 'w, 'r, 'f) fake_lib =
  fl_new_tracker :: "'s \<Rightarrow> 't"
  fl_add :: "'t \<Rightarrow> 'ob \<Rightarrow> string option \<times> 't"
  fl_watch :: "'t \<Rightarrow> string \<times> string \<times> string \<Rightarrow> string \<Rightarrow> 'x \<Rightarrow> (string + 'w) \<times> 't"
  fl_watch_options :: "'a \<Rightarrow> 'x option"
  fl_zero_options :: 'x
  fl_resource :: "'a \<Rightarrow> string \<times> string \<times> string"
  fl_namespace :: "'a \<Rightarrow> string"
  fl_object_reaction :: "'t \<Rightarrow> 'a \<Rightarrow> 'r \<times> 't"
  fl_zero_fake :: 'f
  fl_add_reactor :: "'f \<Rightarrow> string \<Rightarrow> string \<Rightarrow> ('t \<Rightarrow> 'a \<Rightarrow> 'r \<times> 't) \<Rightarrow> 'f"
  fl_add_watch_reactor :: "'f \<Rightarrow> string \<Rightarrow> ('t, 'a, 'w) watch_reaction \<Rightarrow> 'f"

section \<open>The clientset\<close>

text \<open>The discovery client holds a pointer to the embedded \<^verbatim>\<open>Fake\<close>, so it is read off it.\<close>

record ('f, 't) fake_clientset =
  fc_fake :: 'f
  fc_tracker :: 't

record 'f fake_discovery =
  fd_fake :: 'f

fun add_objects ::
  "('s, 't, 'ob, 'a, 'x, 'w, 'r, 'f) fake_lib \<Rightarrow> 'ob list \<Rightarrow> 't \<Rightarrow> 't outcome"
where
  "add_objects FL [] t = Returns t"
| "add_objects FL (ob # objects) t =
     (case fl_add FL t ob of
        (Some err, t') \<Rightarrow> Panics
      | (None, t') \<Rightarrow> add_objects FL objects t')"

definition fake_watch_reaction ::
  "('s, 't, 'ob, 'a, 'x, 'w, 'r, 'f) fake_lib \<Rightarrow> ('t, 'a, 'w) watch_reaction"
where
  "fake_watch_reaction FL t action =
     (let opts = (case fl_watch_options FL action of None \<Rightarrow> fl_zero_options FL | Some o1 \<Rightarrow> o1);
          gvr = fl_resource FL action;
          ns = fl_namespace FL action;
          (watch, t') = fl_watch FL t gvr ns opts
      in
      case watch of
        Inl err \<Rightarrow> ((False, None, Some err), t')
      | Inr w \<Rightarrow> ((True, Some w, None), t'))"

definition new_simple_clientset ::
  "('s, 't, 'ob, 'a, 'x, 'w, 'r, 'f) fake_lib \<Rightarrow> 's \<Rightarrow> 'ob list \<Rightarrow> ('f, 't) fake_clientset outcome"
where
  "new_simple_clientset FL scheme objects =
     (case add_objects FL objects (fl_new_tracker FL scheme) of
        Panics \<Rightarrow> Panics
      | Returns t \<Rightarrow>
          let fake1 = fl_add_reactor FL (fl_zero_fake FL) ''*'' ''*'' (fl_object_reaction FL);
              fake2 = fl_add_watch_reactor FL fake1 ''*'' (fake_watch_reaction FL)
          in Returns \<lparr>fc_fake = fake2, fc_tracker = t\<rparr>)"

definition fake_discovery_client :: "('f, 't) fake_clientset \<Rightarrow> 'f fake_discovery" where
  "fake_discovery_client c = \<lparr>fd_fake = fc_fake c\<rparr>"

definition fake_tracker :: "('f, 't) fake_clientset \<Rightarrow> 't" where
  "fake_tracker c = fc_tracker c"

definition watch_list_unsupported :: "('f, 't) fake_clientset \<Rightarrow> bool" where
  "watch_list_unsupported c = True"

section \<open>The fake client of the group\<close>

record 'f fake_dns_client =
  fk_fake :: 'f

definition fake_dns_v1alpha1 :: "('f, 't) fake_clientset \<Rightarrow> 'f fake_dns_client" where
  "fake_dns_v1alpha1 c = \<lparr>fk_fake = fc_fake c\<rparr>"

text \<open>The REST client of a fake is a nil pointer.\<close>

definition fake_rest_client :: "'f fake_dns_client \<Rightarrow> 'c option" where
  "fake_rest_client c = None"

text \<open>
  \<open>ft_new_client\<close> is \<^verbatim>\<open>gentype.NewFakeClientWithList\<close>: resource, kind, the contents of the objects it allocates, and the three
  functions on lists. \<open>'ps\<close> are slices of pointers to rules.
\<close>

record ('f, 'm, 'n, 'ps, 'k) fake_typed_lib =
  ft_to_pointers :: "slice option \<Rightarrow> 'ps"
  ft_from_pointers :: "'ps \<Rightarrow> slice option"
  ft_new_client :: "'f \<Rightarrow> string \<Rightarrow> string \<times> string \<times> string \<Rightarrow> string \<times> string \<times> string \<Rightarrow> 'm ref_rule \<Rightarrow>
    'n ref_rule_list \<Rightarrow> ('n ref_rule_list \<Rightarrow> 'n ref_rule_list \<Rightarrow> 'n ref_rule_list) \<Rightarrow> ('n ref_rule_list \<Rightarrow> 'ps) \<Rightarrow>
    ('n ref_rule_list \<Rightarrow> 'ps \<Rightarrow> 'n ref_rule_list) \<Rightarrow> 'k"

definition copy_list_meta :: "'n ref_rule_list \<Rightarrow> 'n ref_rule_list \<Rightarrow> 'n ref_rule_list" where
  "copy_list_meta dst src = dst\<lparr>rl_list_meta := rl_list_meta src\<rparr>"

definition list_items :: "('f, 'm, 'n, 'ps, 'k) fake_typed_lib \<Rightarrow> 'n ref_rule_list \<Rightarrow> 'ps" where
  "list_items FT list = ft_to_pointers FT (rl_items list)"

definition set_list_items :: "('f, 'm, 'n, 'ps, 'k) fake_typed_lib \<Rightarrow> 'n ref_rule_list \<Rightarrow> 'ps \<Rightarrow> 'n ref_rule_list" where
  "set_list_items FT list items = list\<lparr>rl_items := ft_from_pointers FT items\<rparr>"

definition new_fake_masqueradingrules ::
  "('f, 'm, 'n, 'ps, 'k) fake_typed_lib \<Rightarrow> ('l, 'm, 'n) copy_lib \<Rightarrow> 'f fake_dns_client \<Rightarrow> string \<Rightarrow> 'k"
where
  "new_fake_masqueradingrules FT D fake namespace =
     ft_new_client FT (fk_fake fake) namespace
       (fst scheme_group_version, snd scheme_group_version, ''masqueradingrules'')
       (fst scheme_group_version, snd scheme_group_version, ''MasqueradingRule'')
       (zero_rule D) (zero_rule_list D) copy_list_meta (list_items FT) (set_list_items FT)"

definition fake_masqueradingrules ::
  "('f, 'm, 'n, 'ps, 'k) fake_typed_lib \<Rightarrow> ('l, 'm, 'n) copy_lib \<Rightarrow> 'f fake_dns_client \<Rightarrow> string \<Rightarrow> 'k"
where
  "fake_masqueradingrules FT D c namespace = new_fake_masqueradingrules FT D c namespace"

section \<open>Lemmas\<close>

text \<open>The tracker after objects that it all accepts.\<close>

fun tracked :: "('s, 't, 'ob, 'a, 'x, 'w, 'r, 'f) fake_lib \<Rightarrow> 't \<Rightarrow> 'ob list \<Rightarrow> 't" where
  "tracked FL t [] = t"
| "tracked FL t (ob # objects) = tracked FL (snd (fl_add FL t ob)) objects"

lemma add_objects_panics:
  "add_objects FL objects t = Panics \<longleftrightarrow>
    (\<exists>pre ob post. objects = pre @ ob # post \<and> fst (fl_add FL (tracked FL t pre) ob) \<noteq> None)"
proof (induction objects arbitrary: t)
  case (Cons ob objects)
  obtain e t' where a: "fl_add FL t ob = (e, t')" by fastforce
  show ?case
  proof (cases e)
    case (Some err)
    with a have "add_objects FL (ob # objects) t = Panics" "fst (fl_add FL (tracked FL t []) ob) \<noteq> None" by simp_all
    then show ?thesis by blast
  next
    case None
    with a have r: "add_objects FL (ob # objects) t = add_objects FL objects t'" "snd (fl_add FL t ob) = t'"
      "fst (fl_add FL t ob) = None" by simp_all
    show ?thesis
    proof
      assume "add_objects FL (ob # objects) t = Panics"
      with r(1) Cons.IH [of t'] obtain pre x post where "objects = pre @ x # post"
        "fst (fl_add FL (tracked FL t' pre) x) \<noteq> None" by metis
      with r(2) show "\<exists>pre x post. ob # objects = pre @ x # post \<and> fst (fl_add FL (tracked FL t pre) x) \<noteq> None"
        by (intro exI [of _ "ob # pre"]) auto
    next
      assume "\<exists>pre x post. ob # objects = pre @ x # post \<and> fst (fl_add FL (tracked FL t pre) x) \<noteq> None"
      then obtain pre x post where p: "ob # objects = pre @ x # post" "fst (fl_add FL (tracked FL t pre) x) \<noteq> None"
        by blast
      from p r(3) obtain pre' where "pre = ob # pre'" by (cases pre) auto
      with p r(2) Cons.IH [of t'] have "add_objects FL objects t' = Panics" by auto
      with r(1) show "add_objects FL (ob # objects) t = Panics" by simp
    qed
  qed
qed simp

text \<open>
  The fake clientset can be made exactly if the tracker accepts every object, each after those before it. A watch is
  handled exactly if the tracker can be watched.
\<close>

lemma new_simple_clientset_panics:
  "new_simple_clientset FL scheme objects = Panics \<longleftrightarrow>
    (\<exists>pre ob post. objects = pre @ ob # post \<and>
      fst (fl_add FL (tracked FL (fl_new_tracker FL scheme) pre) ob) \<noteq> None)"
  unfolding add_objects_panics [symmetric] by (simp add: new_simple_clientset_def Let_def split: outcome.splits)



lemma fake_watch_handled:
  "fst (fst (fake_watch_reaction FL t action)) \<longleftrightarrow>
    (\<exists>w t'. fl_watch FL t (fl_resource FL action) (fl_namespace FL action)
       (case fl_watch_options FL action of None \<Rightarrow> fl_zero_options FL | Some x \<Rightarrow> x) = (Inr w, t'))"
  by (auto simp: fake_watch_reaction_def Let_def split: prod.splits sum.splits)

text \<open>The functions on lists are a lens: what was set is read back, and the metadata are untouched.\<close>

lemma list_items_set:
  assumes "\<And>ps. ft_to_pointers FT (ft_from_pointers FT ps) = ps"
  shows "list_items FT (set_list_items FT list items) = items"
    and "rl_list_meta (set_list_items FT list items) = rl_list_meta list"
    and "list_items FT (copy_list_meta dst src) = list_items FT dst"
  using assms by (simp_all add: list_items_def set_list_items_def copy_list_meta_def)

text \<open>The fake and the real client serve the same resource of the same group.\<close>

lemma fake_resource:
  "(fst scheme_group_version, snd scheme_group_version, ''masqueradingrules'') = masqueradingrules_resource"
  by (simp add: scheme_group_version_def group_version_def masqueradingrules_resource_def)

end
