(* ===== verification/Spec2Isabelle.thy ===== *)
theory Spec2Isabelle
  imports Rewrite_Properties Api_Properties Admission Net_Properties Reconciler_Properties
    Cluster_Hosts Startup_Properties State_Memory Reconciler_Types Controller_Events Fake_Client
begin

text \<open>
  A model of the DNS masquerading operator, and the theorems that make it correct.

  \<^bold>\<open>The program.\<close> The operator keeps rewrite rules of a DNS server in a config map. A rule is a
  custom resource \<^verbatim>\<open>MasqueradingRule\<close> that names a source host and a target. The controller
  of these rules (\<^verbatim>\<open>masqueradingrule_controller.go\<close>) adds the rule to the config map, checks with the
  resolver that the DNS servers answer accordingly, and keeps the status of the resource; it takes the rule
  out again when the resource is being deleted. Three further controllers create such resources for the annotated hosts
  of services, ingresses and gateways. A webhook refuses rules that cannot be added.

  \<^bold>\<open>Theories and code.\<close>
  \<^item> \<^verbatim>\<open>Go_Prelude\<close>, \<^verbatim>\<open>Go_Regexp\<close>, \<^verbatim>\<open>Net_IP\<close>: what the program uses of Go: strings as byte lists, maps as finite maps,
    anchored regular expressions with a matcher proved against their languages, \<^verbatim>\<open>net.ParseIP\<close>.
  \<^item> \<^verbatim>\<open>Dns_Name\<close>: \<^verbatim>\<open>internal/dnsutil/name.go\<close>. \<^verbatim>\<open>Rewrite_Rule\<close> and \<^verbatim>\<open>Rewrite_File\<close>: \<^verbatim>\<open>internal/coredns/rewrite.go\<close>, the rule
    set as a map keyed by owner, and the text that is written to the config map and read back.
  \<^item> \<^verbatim>\<open>Masq_Api\<close>: \<^verbatim>\<open>api/v1alpha1\<close>, the resource with \<^verbatim>\<open>SetState\<close> and the patterns of its schema. \<^verbatim>\<open>Webhook\<close>: \<^verbatim>\<open>internal/webhooks\<close>.
  \<^item> \<^verbatim>\<open>Go_Store\<close>: memory as a list of cells, with pointers and slices. \<^verbatim>\<open>Api_Copy\<close>: \<^verbatim>\<open>zz_generated.deepcopy.go\<close> on this memory.
    \<^verbatim>\<open>State_Memory\<close>: \<^verbatim>\<open>SetState\<close> once more, with its writes through pointers and into the array of the conditions.
  \<^item> \<^verbatim>\<open>Portforward\<close>: \<^verbatim>\<open>internal/portforward\<close>, the handle as a record, one function per method.
    \<^verbatim>\<open>Resolver\<close>: \<^verbatim>\<open>internal/coredns/resolver.go\<close> and \<^verbatim>\<open>internal/dnsutil/record.go\<close>.
  \<^item> \<^verbatim>\<open>Kube\<close>: the API server as the controllers call it. \<^verbatim>\<open>Dependents\<close>: \<^verbatim>\<open>internal/controllers/common.go\<close>.
    \<^verbatim>\<open>Sources\<close>: the controllers of services, ingresses and gateways. \<^verbatim>\<open>Reconciler\<close>: the controller of the rules.
    \<^verbatim>\<open>Controller_Events\<close>: the events that the controllers are registered for.
  \<^item> \<^verbatim>\<open>Cluster\<close>: the system of many runs of the four controllers, users and the server.
  \<^item> \<^verbatim>\<open>Startup\<close>: \<^verbatim>\<open>main.go\<close>. Under \<^verbatim>\<open>pkg/client\<close>, \<^verbatim>\<open>Informers\<close>: the factory of shared informers; \<^verbatim>\<open>Rule_Informers\<close>: the informer
    of rules, the way to it through group and version, and \<^verbatim>\<open>ForResource\<close>; \<^verbatim>\<open>Clientset\<close>: the clientset and the client of the group;
    \<^verbatim>\<open>Typed_Client\<close>: the client of the rules and the listers; \<^verbatim>\<open>Fake_Client\<close>: the fake clientset for tests.
    \<^verbatim>\<open>Registration\<close>: the types that the \<^verbatim>\<open>init\<close> functions of the program and of the clientsets register.

  \<^bold>\<open>How effects are modelled.\<close> A run of a controller is a function that returns its result and
  the list of the calls it made (\<open>trace\<close>); the record \<open>kube\<close> gives the answer to each call from the calls before it, so
  every sequence of answers is covered. Go errors are strings in a sum or option type, a panic is a value of the type \<open>outcome\<close>.
  The state of handles, rule sets and factories is passed explicitly. Functions of libraries that are not in the repository are
  the fields of the record \<open>lib\<close> (the order in which a map is visited, sorting, the finalizer functions) and of \<open>kube\<close>,
  \<open>pf_env\<close>, \<open>resolver_env\<close>, \<open>host\<close>, \<open>copy_lib\<close>, \<open>event_lib\<close>, \<open>informer_lib\<close>, \<open>rest_lib\<close>, \<open>typed_lib\<close>, \<open>scheme_lib\<close>, \<open>fake_lib\<close> and \<open>fake_typed_lib\<close>; what the proofs need of \<open>lib\<close> are
  the laws of the locale \<open>go_lib\<close>, which the instance
  \<open>std_lib\<close> satisfies. The contract of the rule set is the locale \<open>owner_store\<close>; \<open>go_lib\<close> is a
  sublocale of it, for the operations of the model. What a method \<^verbatim>\<open>DeepCopyInto\<close> promises is the locale \<open>deep_copier\<close>; \<open>copy_laws\<close>
  asks it of the copying of times and metadata, and has it for every generated method. Only \<open>Api_Copy\<close> and \<open>State_Memory\<close> see
  the memory; everywhere else an object is a value, which the refinement theorem of \<open>State_Memory\<close> and the independence of copies justify.

  \<^bold>\<open>The theorems.\<close>
  \<^item> \<^verbatim>\<open>Rewrite_Properties\<close>: the text of a rule set is read back as it was, does not depend on the order of the map, and only
    consistent sets can be read or built; \<^verbatim>\<open>AddRule\<close>, \<^verbatim>\<open>RemoveRule\<close> and \<^verbatim>\<open>FindMatchingRule\<close> do what they promise.
  \<^item> \<^verbatim>\<open>Api_Properties\<close>: which names are valid, how schema and webhook agree, the Ready condition. \<^verbatim>\<open>Admission\<close>: which rules
    the webhook admits, and what the controller can do with them.
    \<^verbatim>\<open>State_Memory\<close>: deep copies read as their originals and share nothing with them; \<^verbatim>\<open>SetState\<close> in memory refines the one on values.
  \<^item> \<^verbatim>\<open>Net_Properties\<close>: the life cycle of a port-forward, also after failed starts; soundness and completeness of the record check and the errors
    that it reports; the discovery of servers.
  \<^item> \<^verbatim>\<open>Dependents_Properties\<close>: the dependent rules of an object reach the desired state, with its finalizer set first and removed last.
    \<^verbatim>\<open>Controller_Events\<close>: for which objects the controllers come to rest, and which event they miss.
  \<^item> \<^verbatim>\<open>Reconciler_Paths\<close>, \<^verbatim>\<open>Reconciler_Calls\<close>, \<^verbatim>\<open>Reconciler_Demo\<close>, \<^verbatim>\<open>Reconciler_Properties\<close>: the ways through
    \<^verbatim>\<open>Reconcile\<close>, and what each run writes, in which order and under which conditions. \<^verbatim>\<open>Reconciler_Types\<close>: every status it writes is well-typed.
  \<^item> \<^verbatim>\<open>Cluster_Steps\<close>, \<^verbatim>\<open>Cluster_Runs\<close>, \<^verbatim>\<open>Cluster_Properties\<close>: runs that interleave call by call refine an abstract register of
    held owners and installed rules; no rewrite is ever left behind. \<^verbatim>\<open>Cluster_Sources\<close>: to the store, the calls of the other three controllers are like those of users.
    \<^verbatim>\<open>Cluster_Liveness\<close>: a rule becomes Ready, or disappears. \<^verbatim>\<open>Cluster_Hosts\<close>: from the annotation of a service, ingress or
    gateway to the rules in the store and their rewrites in the config map; and calm runs exist in every state.
  \<^item> \<^verbatim>\<open>Startup_Properties\<close>: the accepted addresses, the options and controllers that the flags give, and the order and end of the start-up.
    \<^verbatim>\<open>Informers\<close>: all requests for a type get the same informer, and it runs at most once.

  \<^bold>\<open>Assumptions about the server\<close> are the relation \<open>served\<close> of \<^verbatim>\<open>Cluster\<close>: reads answer from the store, an update needs
  the resource version that was read, every write gives a new version, a create a new uid, a list has the rules with the label, an object in deletion goes with its last
  finalizer, and the update of a service, ingress or gateway keeps its namespace and uid. These objects themselves are not in the store;
  the read of one is given with the run.
  Users may do everything but take off or add the finalizer of the operator and edit its key in the config map.
  The progress theorems need in addition that nobody interferes, that the calls succeed and the record check is positive (\<open>cooperative\<close>),
  and that the update delay of the config map is over; the theorems on the dependents in the store, that the run of their controller
  is undisturbed and ends without error.

  \<^bold>\<open>Bounds.\<close> All functions are total, no fuel is used. Ports are words of 16 bits; \<^verbatim>\<open>strconv.Atoi\<close> has the range of 64 bits.
  Times and durations are integers, without overflow. The states of a rule and the statuses of its conditions are closed
  datatypes, with the values of the schema; the memory theorems ask that the status of a condition is one of them. What a nameserver answers
  depends on the server, the name and the number of the lookup at an endpoint.

  \<^bold>\<open>Not modelled.\<close> Logging; the parsing of the command line; the worker count of the controllers; the registration of controllers
  and webhook with the manager beyond their predicates; declarations of interfaces; the methods that the clients, the fake client and the
  listers get from generic types of the client library; the release of the informer name at the end of \<^verbatim>\<open>Shutdown\<close>; tests and build tools.
\<close>

end
